(* ===== verification/Prelude.thy ===== *)
theory Prelude
  imports Main "HOL-Library.Word" "HOL-Library.AList" "HOL-Library.Char_ord"
    "HOL-Library.List_Lexorder" "HOL-Library.Multiset"
begin

unbundle bit_operations_syntax

text \<open>
  Shared vocabulary of the dtmpfs development: the machine types of the Rust
  sources, the result type of fallible code, the clock types of
  \<^verbatim>\<open>std::time\<close>, and the generic lemmas on words and lists that the component
  theories use through the collections declared here.
\<close>

named_theorems ns_simps \<open>lookups in updated namespace maps\<close>
named_theorems handler_defs \<open>definitions of the RPC handlers\<close>

section \<open>Machine types\<close>

text \<open>
  Rust's fixed width integers are words, so \<open>+\<close> wraps as it does in the release
  build that the README documents.  A signed integer is the word of its two's
  complement bits, read with \<^const>\<open>sint\<close>.  A Rust \<^verbatim>\<open>String\<close> is the list of
  its bytes; the order on it is the lexicographic order on bytes, as in Rust.
\<close>

type_synonym u8 = "8 word"
type_synonym u32 = "32 word"
type_synonym u64 = "64 word"
type_synonym u128 = "128 word"
type_synonym i32 = "32 word"
type_synonym i64 = "64 word"
type_synonym bytes = "8 word list"

section \<open>Results of fallible code\<close>

text \<open>
  A Rust function returns \<^verbatim>\<open>Ok(v)\<close> or \<^verbatim>\<open>Err(e)\<close>; \<^verbatim>\<open>unwrap\<close>, an
  index out of range, a division by zero or an overflowing clock addition makes it
  panic instead.  The three endings are three constructors.
\<close>

datatype ('a, 'e) result = Ok 'a | Err 'e | Panic

fun bind_result :: "('a, 'e) result \<Rightarrow> ('a \<Rightarrow> ('b, 'e) result) \<Rightarrow> ('b, 'e) result" where
  "bind_result (Ok a) f = f a"
| "bind_result (Err e) f = Err e"
| "bind_result Panic f = Panic"

definition ok_or :: "'a option \<Rightarrow> 'e \<Rightarrow> ('a, 'e) result" where
  "ok_or v e = (case v of None \<Rightarrow> Err e | Some a \<Rightarrow> Ok a)"

definition unwrap :: "'a option \<Rightarrow> ('a, 'e) result" where
  "unwrap v = (case v of None \<Rightarrow> Panic | Some a \<Rightarrow> Ok a)"

definition unwrap_or :: "'a option \<Rightarrow> 'a \<Rightarrow> 'a" where
  "unwrap_or v d = (case v of None \<Rightarrow> d | Some a \<Rightarrow> a)"

lemma unwrap_or_simps [simp]: "unwrap_or None d = d" "unwrap_or (Some a) d = a"
  by (simp_all add: unwrap_or_def)

lemma ok_or_simps [simp]:
  "ok_or None e = Err e" "ok_or (Some a) e = Ok a"
  "ok_or v e = Ok b \<longleftrightarrow> v = Some b" "ok_or v e \<noteq> Panic"
  by (simp_all add: ok_or_def split: option.splits)

lemma bind_result_Ok_iff [simp]:
  "bind_result r f = Ok b \<longleftrightarrow> (\<exists>a. r = Ok a \<and> f a = Ok b)"
  by (cases r) auto

section \<open>Clocks\<close>

text \<open>
  \<^verbatim>\<open>std::time::SystemTime\<close> is a number of nanoseconds relative to
  \<^verbatim>\<open>UNIX_EPOCH\<close>; on Linux its seconds are an \<open>i64\<close>, so it is representable when
  it lies in \<open>[- 2 ^ 63 * 10 ^ 9, 2 ^ 63 * 10 ^ 9)\<close>.  Adding a duration panics outside
  that range.  \<^verbatim>\<open>Instant\<close> is a number of nanoseconds of the monotonic clock, and
  \<^verbatim>\<open>duration_since\<close> on it saturates at zero, as \<open>nat\<close> subtraction does.
\<close>

type_synonym system_time = int
type_synonym instant = nat
type_synonym duration = nat

definition nanos_per_sec :: nat where
  "nanos_per_sec = 1000000000"

definition representable_time :: "int \<Rightarrow> bool" where
  "representable_time t \<longleftrightarrow> - (2 ^ 63 * 1000000000) \<le> t \<and> t < 2 ^ 63 * 1000000000"

definition time_add :: "system_time \<Rightarrow> duration \<Rightarrow> system_time option" where
  "time_add t d = (let t' = t + int d in if representable_time t' then Some t' else None)"

definition time_sub :: "system_time \<Rightarrow> duration \<Rightarrow> system_time option" where
  "time_sub t d = (let t' = t - int d in if representable_time t' then Some t' else None)"

definition duration_new :: "u64 \<Rightarrow> u32 \<Rightarrow> duration" where
  "duration_new secs nanos = unat secs * nanos_per_sec + unat nanos"

definition max0 :: "i64 \<Rightarrow> u64" where
  "max0 v = (if sint v < 0 then 0 else v)"

text \<open>\<^verbatim>\<open>UNIX_EPOCH + Duration::new(s.max(0) as u64, ns)\<close>\<close>

definition unix_time :: "i64 \<Rightarrow> u32 \<Rightarrow> system_time option" where
  "unix_time s ns = time_add 0 (duration_new (max0 s) ns)"

lemma unix_time_nonneg: "unix_time s ns = Some t \<Longrightarrow> 0 \<le> t"
  by (auto simp: unix_time_def time_add_def Let_def split: if_splits)

section \<open>Words\<close>

definition saturating_sub :: "'a::len word \<Rightarrow> 'a word \<Rightarrow> 'a word" where
  "saturating_sub a b = (if a < b then 0 else a - b)"

lemma unat_saturating_sub [simp]: "unat (saturating_sub a b) = unat a - unat b"
  by (auto simp: saturating_sub_def unat_sub word_less_nat_alt not_less word_le_nat_alt)

lemma unat_u64_less: "unat (w :: u64) < 2 ^ 64"
  using unsigned_less [of w] by simp

lemma unat_of_nat_u64: "n < 2 ^ 64 \<Longrightarrow> unat (of_nat n :: u64) = n"
  by (simp add: unat_of_nat take_bit_nat_eq_self)

lemma unat_succ_u64: "Suc (unat (w :: u64)) < 2 ^ 64 \<Longrightarrow> unat (w + 1) = Suc (unat w)"
  by (simp add: unat_word_ariths)

lemma less_succ_u64:
  "Suc (unat (w :: u64)) < 2 ^ 64 \<Longrightarrow> v < w + 1 \<longleftrightarrow> v < w \<or> v = w"
  by (auto simp: word_less_nat_alt unat_succ_u64 less_Suc_eq word_unat_eq_iff)

section \<open>Lists and maps\<close>

lemma map_of_filter_key:
  "map_of (filter (\<lambda>(k, v). P k) m) k = (if P k then map_of m k else None)"
  by (induction m) auto

lemma length_concat_map_le:
  "(\<And>x. x \<in> set xs \<Longrightarrow> length (f x) \<le> n) \<Longrightarrow> length (concat (map f xs)) \<le> n * length xs"
  by (induction xs) (auto simp: add_mono)

lemma unat_ucast_u32: "unat (ucast (n :: u32) :: u64) = unat n"
proof -
  have "unat n < 2 ^ 64" using unsigned_less [of n, where 'a = nat] by simp
  then show ?thesis by (simp add: unsigned_ucast_eq take_bit_nat_eq_self)
qed

end
