(* ===== verification/Containers.thy ===== *)
theory Containers
  imports Prelude
begin

text \<open>
  The collections of \<^verbatim>\<open>std::collections\<close> that the servers and the client keep
  their state in.  A \<^verbatim>\<open>BTreeMap\<close> is the list of its entries in strictly ascending
  key order, which is the order its iterators, ranges and \<^verbatim>\<open>keys\<close> use.  A
  \<^verbatim>\<open>HashMap\<close> or \<^verbatim>\<open>DashMap\<close> that the program iterates or counts is a list of
  entries with distinct keys; Rust leaves its iteration order open, so no property
  of the development depends on the order of such a list.  Hash maps that are only
  looked up are HOL maps.

  Both lists implement the interface \<open>kv_map\<close>; what the program builds by repeated
  insertion is characterised once, in that locale.
\<close>

section \<open>The map interface\<close>

locale kv_map =
  fixes empty :: 'm
    and get :: "'m \<Rightarrow> 'k \<Rightarrow> 'v option"
    and put :: "'k \<Rightarrow> 'v \<Rightarrow> 'm \<Rightarrow> 'm"
    and drop_key :: "'k \<Rightarrow> 'm \<Rightarrow> 'm"
    and wf :: "'m \<Rightarrow> bool"
  assumes get_empty: "get empty = Map.empty"
    and wf_empty: "wf empty"
    and get_put: "wf m \<Longrightarrow> get (put k v m) = (get m)(k \<mapsto> v)"
    and wf_put: "wf m \<Longrightarrow> wf (put k v m)"
    and get_drop_key: "wf m \<Longrightarrow> get (drop_key k m) = (get m)(k := None)"
    and wf_drop_key: "wf m \<Longrightarrow> wf (drop_key k m)"
begin

lemma wf_put_all: "wf m \<Longrightarrow> wf (fold (\<lambda>(k, v). put k v) kvs m)"
  by (induction kvs arbitrary: m) (auto simp: wf_put)

lemma get_put_all:
  "wf m \<Longrightarrow> get (fold (\<lambda>(k, v). put k v) kvs m) = get m ++ map_of (rev kvs)"
proof (induction kvs arbitrary: m)
  case Nil
  then show ?case by simp
next
  case (Cons kv kvs)
  then show ?case
    by (cases kv) (auto simp: get_put wf_put fun_eq_iff map_add_def split: option.splits)
qed

lemma get_collect: "get (fold (\<lambda>(k, v). put k v) kvs empty) = map_of (rev kvs)"
  by (simp add: get_put_all get_empty wf_empty)

lemma get_collect_distinct:
  assumes "distinct (map fst kvs)"
  shows "get (fold (\<lambda>(k, v). put k v) kvs empty) = map_of kvs"
proof -
  have "map_of (rev kvs) = map_of kvs"
    using assms by (intro map_of_inject_set [THEN iffD2]) (simp_all add: rev_map [symmetric])
  then show ?thesis by (simp add: get_collect)
qed

lemma put_twice: "wf m \<Longrightarrow> get (put k v (put k u m)) = get (put k v m)"
  by (simp add: get_put wf_put)

lemma drop_after_put: "wf m \<Longrightarrow> get (drop_key k (put k v m)) = (get m)(k := None)"
  by (simp add: get_put wf_put get_drop_key)

end

section \<open>Ordered maps\<close>

type_synonym ('k, 'v) btree = "('k \<times> 'v) list"

fun bt_insert :: "'k::linorder \<Rightarrow> 'v \<Rightarrow> ('k, 'v) btree \<Rightarrow> ('k, 'v) btree" where
  "bt_insert k v [] = [(k, v)]"
| "bt_insert k v (e # m) =
     (if fst e < k then e # bt_insert k v m
      else if fst e = k then (k, v) # m
      else (k, v) # e # m)"

definition bt_get :: "('k, 'v) btree \<Rightarrow> 'k \<Rightarrow> 'v option" where
  "bt_get m k = map_of m k"

definition bt_remove :: "'k \<Rightarrow> ('k, 'v) btree \<Rightarrow> ('k, 'v) btree" where
  "bt_remove k m = filter (\<lambda>(k', v). k' \<noteq> k) m"

definition bt_contains :: "('k, 'v) btree \<Rightarrow> 'k \<Rightarrow> bool" where
  "bt_contains m k \<longleftrightarrow> bt_get m k \<noteq> None"

definition bt_retain :: "('k \<Rightarrow> bool) \<Rightarrow> ('k, 'v) btree \<Rightarrow> ('k, 'v) btree" where
  "bt_retain P m = filter (\<lambda>(k, v). P k) m"

text \<open>\<^verbatim>\<open>range((Excluded(k), Unbounded))\<close>\<close>

definition bt_after :: "'k::linorder \<Rightarrow> ('k, 'v) btree \<Rightarrow> ('k, 'v) btree" where
  "bt_after k m = filter (\<lambda>(k', v). k < k') m"

definition bt_wf :: "('k::linorder, 'v) btree \<Rightarrow> bool" where
  "bt_wf m \<longleftrightarrow> sorted_wrt (<) (map fst m)"

lemma bt_wf_simps [simp]:
  "bt_wf []" "bt_wf (e # m) \<longleftrightarrow> (\<forall>k \<in> fst ` set m. fst e < k) \<and> bt_wf m"
  by (simp_all add: bt_wf_def)

lemma bt_wf_distinct: "bt_wf m \<Longrightarrow> distinct (map fst m)"
  by (auto simp: bt_wf_def strict_sorted_iff)

lemma bt_wf_filter: "bt_wf m \<Longrightarrow> bt_wf (filter P m)"
  by (induction m) auto

lemma keys_bt_insert: "fst ` set (bt_insert k v m) = insert k (fst ` set m)"
  by (induction m) auto

lemma bt_wf_insert: "bt_wf m \<Longrightarrow> bt_wf (bt_insert k v m)"
  by (induction m) (auto simp: keys_bt_insert simp del: split_paired_All split_paired_Ball_Sigma)

lemma map_of_bt_insert: "map_of (bt_insert k v m) = (map_of m)(k \<mapsto> v)"
  by (induction m) (auto simp: fun_eq_iff)

lemma map_of_bt_remove: "map_of (bt_remove k m) = (map_of m)(k := None)"
  by (auto simp: bt_remove_def map_of_filter_key fun_eq_iff)

lemma bt_get_insert [simp]: "bt_get (bt_insert k v m) = (bt_get m)(k \<mapsto> v)"
  by (simp add: bt_get_def [abs_def] map_of_bt_insert fun_eq_iff)

lemma bt_get_remove [simp]: "bt_get (bt_remove k m) = (bt_get m)(k := None)"
  by (simp add: bt_get_def [abs_def] map_of_bt_remove fun_eq_iff)

lemma bt_get_Nil [simp]: "bt_get [] = Map.empty"
  by (simp add: bt_get_def [abs_def])

lemma bt_get_retain [simp]: "bt_get (bt_retain P m) k = (if P k then bt_get m k else None)"
  by (simp add: bt_get_def bt_retain_def map_of_filter_key)

lemma bt_wf_remove: "bt_wf m \<Longrightarrow> bt_wf (bt_remove k m)"
  by (simp add: bt_remove_def bt_wf_filter)

lemma bt_wf_retain: "bt_wf m \<Longrightarrow> bt_wf (bt_retain P m)"
  by (simp add: bt_retain_def bt_wf_filter)

lemma bt_get_iff: "bt_wf m \<Longrightarrow> bt_get m k = Some v \<longleftrightarrow> (k, v) \<in> set m"
  by (simp add: bt_get_def bt_wf_distinct)

lemma bt_get_empty_iff: "bt_get m = Map.empty \<longleftrightarrow> m = []"
  by (simp add: bt_get_def [abs_def])

lemmas bt_wf_intros = bt_wf_insert bt_wf_remove bt_wf_retain

interpretation bt: kv_map "[] :: ('k::linorder, 'v) btree" bt_get bt_insert bt_remove bt_wf
  by unfold_locales (simp_all add: bt_wf_insert bt_wf_remove)

section \<open>Hash maps with an iteration order\<close>

type_synonym ('k, 'v) hmap = "('k \<times> 'v) list"

definition hm_get :: "('k, 'v) hmap \<Rightarrow> 'k \<Rightarrow> 'v option" where
  "hm_get m k = map_of m k"

definition hm_insert :: "'k \<Rightarrow> 'v \<Rightarrow> ('k, 'v) hmap \<Rightarrow> ('k, 'v) hmap" where
  "hm_insert k v m = AList.update k v m"

definition hm_remove :: "'k \<Rightarrow> ('k, 'v) hmap \<Rightarrow> ('k, 'v) hmap" where
  "hm_remove k m = AList.delete k m"

definition hm_wf :: "('k, 'v) hmap \<Rightarrow> bool" where
  "hm_wf m \<longleftrightarrow> distinct (map fst m)"

lemma hm_get_insert [simp]: "hm_get (hm_insert k v m) = (hm_get m)(k \<mapsto> v)"
  by (simp add: hm_get_def [abs_def] hm_insert_def update_conv' fun_eq_iff)

lemma hm_get_remove [simp]: "hm_get (hm_remove k m) = (hm_get m)(k := None)"
  by (simp add: hm_get_def [abs_def] hm_remove_def delete_conv' fun_eq_iff)

lemma hm_get_Nil [simp]: "hm_get [] = Map.empty"
  by (simp add: hm_get_def [abs_def])

lemma hm_wf_insert: "hm_wf m \<Longrightarrow> hm_wf (hm_insert k v m)"
  by (simp add: hm_wf_def hm_insert_def distinct_update)

lemma hm_wf_remove: "hm_wf m \<Longrightarrow> hm_wf (hm_remove k m)"
  by (simp add: hm_wf_def hm_remove_def distinct_delete)

lemma hm_wf_Nil [simp]: "hm_wf []"
  by (simp add: hm_wf_def)

lemma hm_get_iff: "hm_wf m \<Longrightarrow> hm_get m k = Some v \<longleftrightarrow> (k, v) \<in> set m"
  by (simp add: hm_get_def hm_wf_def)

interpretation hm: kv_map "[] :: ('k, 'v) hmap" hm_get hm_insert hm_remove hm_wf
  by unfold_locales (simp_all add: hm_wf_insert hm_wf_remove)

text \<open>\<^verbatim>\<open>collect()\<close> of an iterator of pairs into a \<^verbatim>\<open>HashMap\<close>: later pairs win.\<close>

definition hm_collect :: "('k \<times> 'v) list \<Rightarrow> ('k, 'v) hmap" where
  "hm_collect kvs = fold (\<lambda>(k, v). hm_insert k v) kvs []"

lemma hm_collect_wf: "hm_wf (hm_collect kvs)"
  by (simp add: hm_collect_def hm.wf_put_all)

lemma hm_get_collect: "hm_get (hm_collect kvs) = map_of (rev kvs)"
  by (simp add: hm_collect_def hm.get_collect)

lemma hm_get_collect_distinct: "distinct (map fst kvs) \<Longrightarrow> hm_get (hm_collect kvs) = map_of kvs"
  by (simp add: hm_collect_def hm.get_collect_distinct)

text \<open>
  The weight of a hash map is the sum of a measure over its values, as the store's
  memory accounting needs it.
\<close>

definition hm_weight :: "('v \<Rightarrow> nat) \<Rightarrow> ('k, 'v) hmap \<Rightarrow> nat" where
  "hm_weight f m = sum_list (map (f \<circ> snd) m)"

lemma hm_weight_insert:
  "hm_wf m \<Longrightarrow> hm_weight f (hm_insert k v m) + (case hm_get m k of None \<Rightarrow> 0 | Some u \<Rightarrow> f u)
     = hm_weight f m + f v"
  by (induction m) (auto simp: hm_weight_def hm_insert_def hm_get_def hm_wf_def
      dest: map_of_SomeD split: option.splits)

lemma hm_remove_absent: "hm_get m k = None \<Longrightarrow> hm_remove k m = m"
  by (simp add: hm_get_def hm_remove_def delete_id map_of_eq_None_iff)

lemma hm_weight_remove:
  "hm_wf m \<Longrightarrow> hm_weight f (hm_remove k m) + (case hm_get m k of None \<Rightarrow> 0 | Some u \<Rightarrow> f u)
     = hm_weight f m"
  by (induction m) (force simp: hm_weight_def hm_remove_def hm_get_def hm_wf_def
      AList.delete_eq map_of_eq_None_iff filter_id_conv split: option.splits)+

end
