(* ===== verification/Ids.thy ===== *)
theory Ids
  imports Containers
begin

text \<open>
  The identifiers of \<^verbatim>\<open>dtmpfs-common/src/id.rs\<close>.  Each Rust newtype is a datatype
  with one constructor and, as the Rust \<^verbatim>\<open>derive(Ord)\<close> does, inherits the order of
  the value it wraps, so the ordered maps of the other theories apply to it.
\<close>

datatype inode_id = InodeId u64
datatype generation = Generation u64
datatype block_idx = BlockIdx u64
datatype node_id = NodeId string

datatype inode_kind = File | Dir | Symlink

record block_key =
  bk_ino :: inode_id
  bk_block_idx :: block_idx
  bk_generation :: generation

record block_placement =
  primary :: node_id
  replicas :: "node_id list"

definition ROOT :: inode_id where
  "ROOT = InodeId 1"

fun raw :: "inode_id \<Rightarrow> u64" where
  "raw (InodeId v) = v"

fun raw_gen :: "generation \<Rightarrow> u64" where
  "raw_gen (Generation v) = v"

fun raw_idx :: "block_idx \<Rightarrow> u64" where
  "raw_idx (BlockIdx v) = v"

fun as_str :: "node_id \<Rightarrow> string" where
  "as_str (NodeId v) = v"

fun bump :: "generation \<Rightarrow> generation" where
  "bump (Generation g) = Generation (g + 1)"

definition placement_key :: "block_key \<Rightarrow> u128" where
  "placement_key k = push_bit 64 (ucast (raw (bk_ino k))) OR ucast (raw_idx (bk_block_idx k))"

section \<open>Derived orders\<close>

instantiation inode_id :: linorder
begin
definition less_eq_inode_id :: "inode_id \<Rightarrow> inode_id \<Rightarrow> bool" where
  "a \<le> b \<longleftrightarrow> raw a \<le> raw b"
definition less_inode_id :: "inode_id \<Rightarrow> inode_id \<Rightarrow> bool" where
  "a < b \<longleftrightarrow> raw a < raw b"
instance
proof
  fix a b :: inode_id
  assume "a \<le> b" and "b \<le> a"
  then show "a = b"
    by (cases a; cases b) (simp add: less_eq_inode_id_def)
qed (auto simp: less_eq_inode_id_def less_inode_id_def)
end

instantiation generation :: linorder
begin
definition less_eq_generation :: "generation \<Rightarrow> generation \<Rightarrow> bool" where
  "a \<le> b \<longleftrightarrow> raw_gen a \<le> raw_gen b"
definition less_generation :: "generation \<Rightarrow> generation \<Rightarrow> bool" where
  "a < b \<longleftrightarrow> raw_gen a < raw_gen b"
instance
proof
  fix a b :: generation
  assume "a \<le> b" and "b \<le> a"
  then show "a = b"
    by (cases a; cases b) (simp add: less_eq_generation_def)
qed (auto simp: less_eq_generation_def less_generation_def)
end

instantiation block_idx :: linorder
begin
definition less_eq_block_idx :: "block_idx \<Rightarrow> block_idx \<Rightarrow> bool" where
  "a \<le> b \<longleftrightarrow> raw_idx a \<le> raw_idx b"
definition less_block_idx :: "block_idx \<Rightarrow> block_idx \<Rightarrow> bool" where
  "a < b \<longleftrightarrow> raw_idx a < raw_idx b"
instance
proof
  fix a b :: block_idx
  assume "a \<le> b" and "b \<le> a"
  then show "a = b"
    by (cases a; cases b) (simp add: less_eq_block_idx_def)
qed (auto simp: less_eq_block_idx_def less_block_idx_def)
end

instantiation node_id :: linorder
begin
definition less_eq_node_id :: "node_id \<Rightarrow> node_id \<Rightarrow> bool" where
  "a \<le> b \<longleftrightarrow> as_str a \<le> as_str b"
definition less_node_id :: "node_id \<Rightarrow> node_id \<Rightarrow> bool" where
  "a < b \<longleftrightarrow> as_str a < as_str b"
instance
proof
  fix a b :: node_id
  assume "a \<le> b" and "b \<le> a"
  then show "a = b"
    by (cases a; cases b) (simp add: less_eq_node_id_def)
qed (auto simp: less_eq_node_id_def less_node_id_def)
end

lemmas id_orders =
  less_eq_inode_id_def less_inode_id_def less_eq_generation_def less_generation_def
  less_eq_block_idx_def less_block_idx_def less_eq_node_id_def less_node_id_def

section \<open>Facts about identifiers\<close>

lemma raw_inject [simp]: "raw a = raw b \<longleftrightarrow> a = b"
  by (cases a; cases b) simp

lemma raw_idx_inject [simp]: "raw_idx a = raw_idx b \<longleftrightarrow> a = b"
  by (cases a; cases b) simp

lemma raw_collapse [simp]: "InodeId (raw a) = a"
  by (cases a) simp

lemma raw_idx_collapse [simp]: "BlockIdx (raw_idx a) = a"
  by (cases a) simp

lemma as_str_collapse [simp]: "NodeId (as_str n) = n"
  by (cases n) simp

lemma bump_neq [simp]: "bump g \<noteq> g" "g \<noteq> bump g"
  by (cases g; simp)+

lemma bump_greater: "Suc (unat (raw_gen g)) < 2 ^ 64 \<Longrightarrow> g < bump g"
  by (cases g) (simp add: id_orders less_succ_u64)

text \<open>
  The two halves that \<^verbatim>\<open>pick_nodes\<close> takes out of the placement key are the block
  index and the inode number: the key packs both without loss.
\<close>

lemma placement_key_lo: "ucast (placement_key k) = raw_idx (bk_block_idx k)"
  unfolding placement_key_def
  by (rule bit_word_eqI) (simp add: bit_simps)

lemma placement_key_hi: "ucast (drop_bit 64 (placement_key k)) = raw (bk_ino k)"
  unfolding placement_key_def
  by (rule bit_word_eqI) (auto simp: bit_simps dest: bit_imp_le_length)

end
