(* ===== verification/Errors.thy ===== *)
theory Errors
  imports Ids
begin

text \<open>
  \<^verbatim>\<open>dtmpfs-common/src/error.rs\<close>: the error enum, its translation to the
  \<^verbatim>\<open>errno\<close> values the FUSE replies carry, and the translation of a gRPC status into
  it.  The codes of \<^verbatim>\<open>tonic::Code\<close> and the \<^verbatim>\<open>errno\<close> names are enumerations.
\<close>

datatype code =
    COk | Cancelled | Unknown | InvalidArgument | DeadlineExceeded | NotFound
  | AlreadyExists | PermissionDenied | ResourceExhausted | FailedPrecondition | Aborted
  | OutOfRange | Unimplemented | Internal | Unavailable | DataLoss | Unauthenticated

datatype status = Status (status_code: code) (status_message: string)

datatype errno =
    EPERM | ENOENT | EIO | EACCES | EEXIST | ENOTDIR | EISDIR | EINVAL | ENOSPC | ENOSYS
  | ENOTEMPTY

datatype dtmpfs_error =
    EMetaUnavailable
  | EStoreUnavailable node_id
  | EBlockGenerationMismatch
  | ENotFound
  | EAlreadyExists
  | ENotADirectory
  | EIsADirectory
  | ENotEmpty
  | EPermissionDenied
  | EResourceExhausted
  | EInvalidArgument
  | EUnauthenticated
  | EIo string
  | ERpc status

fun to_errno :: "dtmpfs_error \<Rightarrow> errno" where
  "to_errno ENotFound = ENOENT"
| "to_errno EAlreadyExists = EEXIST"
| "to_errno ENotADirectory = ENOTDIR"
| "to_errno EIsADirectory = EISDIR"
| "to_errno ENotEmpty = ENOTEMPTY"
| "to_errno EPermissionDenied = EACCES"
| "to_errno EUnauthenticated = EACCES"
| "to_errno EResourceExhausted = ENOSPC"
| "to_errno EInvalidArgument = EINVAL"
| "to_errno EMetaUnavailable = EIO"
| "to_errno (EStoreUnavailable n) = EIO"
| "to_errno EBlockGenerationMismatch = EIO"
| "to_errno (EIo m) = EIO"
| "to_errno (ERpc s) = EIO"

definition from_status :: "status \<Rightarrow> node_id option \<Rightarrow> dtmpfs_error" where
  "from_status s node = (case status_code s of
     InvalidArgument \<Rightarrow> EInvalidArgument
   | OutOfRange \<Rightarrow> EInvalidArgument
   | NotFound \<Rightarrow> ENotFound
   | AlreadyExists \<Rightarrow> EAlreadyExists
   | PermissionDenied \<Rightarrow> EPermissionDenied
   | Unauthenticated \<Rightarrow> EUnauthenticated
   | ResourceExhausted \<Rightarrow> EResourceExhausted
   | FailedPrecondition \<Rightarrow> EBlockGenerationMismatch
   | Unavailable \<Rightarrow> (case node of Some n \<Rightarrow> EStoreUnavailable n | None \<Rightarrow> EMetaUnavailable)
   | _ \<Rightarrow> ERpc s)"

text \<open>The constructors \<^verbatim>\<open>Status::not_found\<close> and so on of tonic.\<close>

abbreviation "st_not_found m \<equiv> Status NotFound m"
abbreviation "st_already_exists m \<equiv> Status AlreadyExists m"
abbreviation "st_invalid_argument m \<equiv> Status InvalidArgument m"
abbreviation "st_failed_precondition m \<equiv> Status FailedPrecondition m"
abbreviation "st_resource_exhausted m \<equiv> Status ResourceExhausted m"
abbreviation "st_unauthenticated m \<equiv> Status Unauthenticated m"
abbreviation "st_unavailable m \<equiv> Status Unavailable m"

section \<open>Which errors a status can become\<close>

lemma from_status_not_dir_errors:
  "from_status s node \<notin> {ENotADirectory, EIsADirectory, ENotEmpty}"
  by (cases s; cases "status_code s") (auto simp: from_status_def split: option.splits)

lemma to_errno_dir_errors:
  "to_errno e = ENOTEMPTY \<longleftrightarrow> e = ENotEmpty"
  "to_errno e = EISDIR \<longleftrightarrow> e = EIsADirectory"
  "to_errno e = ENOTDIR \<longleftrightarrow> e = ENotADirectory"
  by (cases e; simp)+

text \<open>
  The \<^verbatim>\<open>errno\<close> a failed RPC produces depends on the status code alone.
\<close>

lemma rpc_errno:
  "to_errno (from_status s node) = (case status_code s of
     InvalidArgument \<Rightarrow> EINVAL | OutOfRange \<Rightarrow> EINVAL | NotFound \<Rightarrow> ENOENT
   | AlreadyExists \<Rightarrow> EEXIST | PermissionDenied \<Rightarrow> EACCES | Unauthenticated \<Rightarrow> EACCES
   | ResourceExhausted \<Rightarrow> ENOSPC | _ \<Rightarrow> EIO)"
  by (simp add: from_status_def split: code.splits option.splits)

end
