(* ===== verification/Proto.thy ===== *)
theory Proto
  imports Errors
begin

text \<open>
  The messages of \<^verbatim>\<open>proto/meta.proto\<close> and \<^verbatim>\<open>proto/store.proto\<close>, as the Rust
  structs that \<^verbatim>\<open>dtmpfs-proto\<close> exposes: one record per message, a message field
  that may be absent as an \<open>option\<close>, a \<^verbatim>\<open>bytes\<close> cookie as a byte string.
\<close>

section \<open>Shared messages of the meta service\<close>

record attr =
  at_ino :: u64
  at_size :: u64
  at_blocks :: u64
  at_generation :: u64
  at_mode :: u32
  at_nlink :: u32
  at_uid :: u32
  at_gid :: u32
  at_atime_s :: i64
  at_atime_ns :: u32
  at_mtime_s :: i64
  at_mtime_ns :: u32
  at_ctime_s :: i64
  at_ctime_ns :: u32

record block_loc =
  bl_block_idx :: u64
  bl_primary :: string
  bl_replicas :: "string list"

record dir_entry =
  de_name :: string
  de_ino :: u64
  de_kind :: u32

datatype p_status = PUnknown | PUp | PDown | PDraining

record proto_node_info =
  pn_node_id :: string
  pn_addr :: string
  pn_status :: p_status
  pn_used_bytes :: u64
  pn_capacity_bytes :: u64
  pn_last_heartbeat_s :: i64

section \<open>Requests and responses of the meta service\<close>

record lookup_req =
  lk_parent_ino :: u64
  lk_name :: string

record set_attr_req =
  sa_ino :: u64
  sa_size :: "u64 option"
  sa_mode :: "u32 option"
  sa_uid :: "u32 option"
  sa_gid :: "u32 option"
  sa_atime_s :: "i64 option"
  sa_atime_ns :: "u32 option"
  sa_mtime_s :: "i64 option"
  sa_mtime_ns :: "u32 option"

record create_req =
  cr_parent_ino :: u64
  cr_name :: string
  cr_mode :: u32
  cr_uid :: u32
  cr_gid :: u32

record create_resp =
  crr_attr :: "attr option"
  crr_fh :: u64
  crr_block_map :: "block_loc list"

record mkdir_req =
  mk_parent_ino :: u64
  mk_name :: string
  mk_mode :: u32
  mk_uid :: u32
  mk_gid :: u32

record unlink_req =
  ul_parent_ino :: u64
  ul_name :: string

record rmdir_req =
  rd_parent_ino :: u64
  rd_name :: string

record rename_req =
  rn_src_parent_ino :: u64
  rn_src_name :: string
  rn_dst_parent_ino :: u64
  rn_dst_name :: string

record read_dir_req =
  rq_ino :: u64
  rq_cookie :: string
  rq_max_entries :: u32

record read_dir_resp =
  rr_entries :: "dir_entry list"
  rr_next_cookie :: string
  rr_eof :: bool

record open_req =
  op_ino :: u64
  op_flags :: u32

record open_resp =
  opr_attr :: "attr option"
  opr_fh :: u64
  opr_block_map :: "block_loc list"

record close_req =
  cl_fh :: u64
  cl_ino :: u64
  cl_expected_generation :: u64
  cl_new_size :: u64
  cl_written_block_idxs :: "u64 list"
  cl_mtime_s :: i64
  cl_mtime_ns :: u32

record alloc_req =
  al_ino :: u64
  al_block_idxs :: "u64 list"

record heartbeat_req =
  hb_node_id :: string
  hb_addr :: string
  hb_used_bytes :: u64
  hb_capacity_bytes :: u64
  hb_epoch_s :: u64

section \<open>Messages of the store service\<close>

record proto_block_key =
  pk_ino :: u64
  pk_block_idx :: u64
  pk_generation :: u64

record read_block_req =
  rb_key :: "proto_block_key option"
  rb_offset :: u32
  rb_len :: u32

record read_block_resp =
  rbr_data :: bytes
  rbr_len :: u32

record write_block_req =
  wb_key :: "proto_block_key option"
  wb_data :: bytes

record replicate_req =
  rp_source_node_id :: string
  rp_source_addr :: string
  rp_key :: "proto_block_key option"

record store_stat =
  ss_node_id :: string
  ss_used_bytes :: u64
  ss_capacity_bytes :: u64
  ss_block_count :: u64
  ss_read_bytes_total :: u64
  ss_write_bytes_total :: u64

end
