(* ===== verification/Store.thy ===== *)
theory Store
  imports Proto
begin

text \<open>
  \<^verbatim>\<open>dtmpfs-store/src/state.rs\<close> and \<^verbatim>\<open>service.rs\<close>: a store node keeps blocks in
  memory under a byte budget.  The tables are concurrent maps and the counter is an
  atomic, so \<^verbatim>\<open>WriteBlock\<close> is not one critical section: its admission checks
  (\<open>write_admit\<close>) and its effects (\<open>write_commit\<close>) are separate definitions, run
  back to back by \<open>store_write_block\<close> and interleaved where a race is the subject.
  The peer that \<^verbatim>\<open>Replicate\<close> pulls from is another process, reached through the
  transport: the parameter \<open>connect\<close>.
\<close>

record store_state =
  blocks :: "(block_key, bytes) hmap"
  high_water :: "inode_id \<times> block_idx \<rightharpoonup> generation"
  st_node_id :: node_id
  st_meta_addr :: string
  ram_budget :: u64
  ram_used :: u64

definition store_new :: "node_id \<Rightarrow> string \<Rightarrow> u64 \<Rightarrow> store_state" where
  "store_new nid maddr budget = \<lparr> blocks = [], high_water = Map.empty, st_node_id = nid,
     st_meta_addr = maddr, ram_budget = budget, ram_used = 0 \<rparr>"

definition proto_key_to_block_key :: "proto_block_key \<Rightarrow> block_key" where
  "proto_key_to_block_key k = \<lparr> bk_ino = InodeId (pk_ino k), bk_block_idx = BlockIdx (pk_block_idx k),
     bk_generation = Generation (pk_generation k) \<rparr>"

section \<open>Handlers\<close>

definition missing_key :: status where
  "missing_key = st_invalid_argument ''missing key''"

definition store_read_block ::
  "read_block_req \<Rightarrow> store_state \<Rightarrow> (read_block_resp, status) result" where
  "store_read_block r s =
     (case rb_key r of
        None \<Rightarrow> Err missing_key
      | Some proto_key \<Rightarrow>
          (case hm_get (blocks s) (proto_key_to_block_key proto_key) of
             None \<Rightarrow> Err (st_not_found ''block not found'')
           | Some data \<Rightarrow> Ok \<lparr> rbr_data = data, rbr_len = of_nat (length data) \<rparr>))"

abbreviation byte_len :: "bytes \<Rightarrow> u64" where
  "byte_len data \<equiv> of_nat (length data)"

abbreviation logical :: "block_key \<Rightarrow> inode_id \<times> block_idx" where
  "logical key \<equiv> (bk_ino key, bk_block_idx key)"

definition write_admit :: "block_key \<Rightarrow> bytes \<Rightarrow> store_state \<Rightarrow> (unit, status) result" where
  "write_admit key data s =
     (if (case high_water s (logical key) of None \<Rightarrow> False | Some hw \<Rightarrow> bk_generation key < hw)
      then Err (st_failed_precondition ''stale generation'')
      else if ram_used s + byte_len data > ram_budget s
      then Err (st_resource_exhausted ''ram budget exceeded'')
      else Ok ())"

definition write_commit :: "block_key \<Rightarrow> bytes \<Rightarrow> store_state \<Rightarrow> store_state" where
  "write_commit key data s =
     (let prev_len = (case hm_get (blocks s) key of None \<Rightarrow> 0 | Some b \<Rightarrow> byte_len b);
          s1 = s\<lparr>blocks := hm_insert key data (blocks s)\<rparr>;
          s2 = s1\<lparr>ram_used := ram_used s1 + byte_len data\<rparr>;
          s3 = s2\<lparr>ram_used := ram_used s2 - prev_len\<rparr>;
          hw' = (case high_water s3 (logical key) of
                   None \<Rightarrow> bk_generation key
                 | Some hw \<Rightarrow> if bk_generation key > hw then bk_generation key else hw)
      in s3\<lparr>high_water := (high_water s3)(logical key \<mapsto> hw')\<rparr>)"

definition store_write_block ::
  "write_block_req \<Rightarrow> store_state \<Rightarrow> store_state \<times> (u32, status) result" where
  "store_write_block r s =
     (case wb_key r of
        None \<Rightarrow> (s, Err missing_key)
      | Some proto_key \<Rightarrow>
          let key = proto_key_to_block_key proto_key;
              data = wb_data r
          in case write_admit key data s of
               Err e \<Rightarrow> (s, Err e)
             | Panic \<Rightarrow> (s, Panic)
             | Ok _ \<Rightarrow> (write_commit key data s, Ok (ucast (byte_len data))))"

definition store_delete_block ::
  "proto_block_key option \<Rightarrow> store_state \<Rightarrow> store_state \<times> (unit, status) result" where
  "store_delete_block k s =
     (case k of
        None \<Rightarrow> (s, Err missing_key)
      | Some proto_key \<Rightarrow>
          let key = proto_key_to_block_key proto_key;
              s1 = (case hm_get (blocks s) key of
                      None \<Rightarrow> s
                    | Some prev \<Rightarrow> s\<lparr>blocks := hm_remove key (blocks s),
                                     ram_used := ram_used s - byte_len prev\<rparr>)
          in (s1\<lparr>high_water := (high_water s1)(logical key := None)\<rparr>, Ok ()))"

definition store_replicate ::
  "(string \<Rightarrow> (read_block_req \<Rightarrow> (read_block_resp, status) result, string) result)
     \<Rightarrow> replicate_req \<Rightarrow> store_state \<Rightarrow> store_state \<times> (unit, status) result" where
  "store_replicate connect r s =
     (case rp_key r of
        None \<Rightarrow> (s, Err missing_key)
      | Some proto_key \<Rightarrow>
          let key = proto_key_to_block_key proto_key in
          (case connect (rp_source_addr r) of
             Err e \<Rightarrow> (s, Err (st_unavailable e))
           | Panic \<Rightarrow> (s, Panic)
           | Ok client \<Rightarrow>
               (case client \<lparr> rb_key = Some proto_key, rb_offset = 0, rb_len = 0 \<rparr> of
                  Err e \<Rightarrow> (s, Err e)
                | Panic \<Rightarrow> (s, Panic)
                | Ok resp \<Rightarrow>
                    let data = rbr_data resp;
                        s1 = s\<lparr>ram_used := ram_used s + byte_len data\<rparr>
                    in (s1\<lparr>blocks := hm_insert key data (blocks s1)\<rparr>, Ok ()))))"

definition store_stat_of :: "store_state \<Rightarrow> store_stat" where
  "store_stat_of s = \<lparr> ss_node_id = as_str (st_node_id s), ss_used_bytes = ram_used s,
     ss_capacity_bytes = ram_budget s, ss_block_count = of_nat (length (blocks s)),
     ss_read_bytes_total = 0, ss_write_bytes_total = 0 \<rparr>"

section \<open>Memory accounting\<close>

text \<open>
  The bytes a store really holds, and the invariant that its counter says exactly that
  and stays within the budget.
\<close>

definition held_bytes :: "store_state \<Rightarrow> nat" where
  "held_bytes s = hm_weight length (blocks s)"

definition store_wf :: "store_state \<Rightarrow> bool" where
  "store_wf s \<longleftrightarrow> hm_wf (blocks s) \<and> unat (ram_used s) = held_bytes s
     \<and> held_bytes s \<le> unat (ram_budget s)"

datatype store_op =
    StWrite write_block_req
  | StDelete "proto_block_key option"

fun store_exec :: "store_op \<Rightarrow> store_state \<Rightarrow> store_state" where
  "store_exec (StWrite r) s = fst (store_write_block r s)"
| "store_exec (StDelete k) s = fst (store_delete_block k s)"

lemma prev_le_held:
  "hm_wf (blocks s) \<Longrightarrow> hm_get (blocks s) key = Some b \<Longrightarrow> length b \<le> held_bytes s"
  using hm_weight_remove [of "blocks s" length key] by (simp add: held_bytes_def)

lemma write_admit_Ok:
  "write_admit key data s = Ok u \<longleftrightarrow>
     (case high_water s (logical key) of None \<Rightarrow> True | Some hw \<Rightarrow> hw \<le> bk_generation key)
     \<and> ram_used s + byte_len data \<le> ram_budget s"
  by (auto simp: write_admit_def not_less split: option.split)

lemma write_admit_not_Panic [simp]: "write_admit key data s \<noteq> Panic"
  by (simp add: write_admit_def)

lemma blocks_write_commit [simp]: "blocks (write_commit key data s) = hm_insert key data (blocks s)"
  by (simp add: write_commit_def Let_def)

lemma write_commit_frame [simp]:
  "ram_budget (write_commit key data s) = ram_budget s"
  "st_node_id (write_commit key data s) = st_node_id s"
  "st_meta_addr (write_commit key data s) = st_meta_addr s"
  by (simp_all add: write_commit_def Let_def)

lemma held_write_commit:
  "hm_wf (blocks s) \<Longrightarrow> held_bytes (write_commit key data s)
     + (case hm_get (blocks s) key of None \<Rightarrow> 0 | Some b \<Rightarrow> length b) = held_bytes s + length data"
  by (simp add: held_bytes_def hm_weight_insert)

lemma unat_byte_len: "length data < 2 ^ 64 \<Longrightarrow> unat (byte_len data) = length data"
  by (simp add: unat_of_nat_u64)

lemma write_commit_wf:
  assumes wf: "store_wf s" and adm: "write_admit key data s = Ok u"
    and room: "unat (ram_budget s) + length data < 2 ^ 64"
  shows "store_wf (write_commit key data s)"
proof -
  let ?prev = "case hm_get (blocks s) key of None \<Rightarrow> 0 | Some b \<Rightarrow> length b"
  have hm: "hm_wf (blocks s)" and used: "unat (ram_used s) = held_bytes s"
    and cap: "held_bytes s \<le> unat (ram_budget s)"
    using wf by (simp_all add: store_wf_def)
  have len: "unat (byte_len data) = length data"
    using room by (intro unat_byte_len) simp
  have sum: "unat (ram_used s + byte_len data) = held_bytes s + length data"
    using used len cap room by (simp add: unat_word_ariths)
  have fits: "held_bytes s + length data \<le> unat (ram_budget s)"
    using adm sum by (simp add: write_admit_Ok word_le_nat_alt)
  have prev: "?prev \<le> held_bytes s"
    using prev_le_held [OF hm, of key] by (simp split: option.split)
  have prev64: "unat (case hm_get (blocks s) key of None \<Rightarrow> 0 | Some b \<Rightarrow> byte_len b) = ?prev"
    using prev cap unat_u64_less [of "ram_budget s"] by (auto simp: unat_byte_len split: option.split)
  have "unat (ram_used s + byte_len data -
      (case hm_get (blocks s) key of None \<Rightarrow> 0 | Some b \<Rightarrow> byte_len b)) = held_bytes s + length data - ?prev"
    using prev prev64 sum by (subst unat_sub) (simp_all add: word_le_nat_alt)
  then have "unat (ram_used (write_commit key data s)) = held_bytes s + length data - ?prev"
    by (simp add: write_commit_def Let_def)
  moreover have "held_bytes (write_commit key data s) = held_bytes s + length data - ?prev"
    using held_write_commit [OF hm, of key data] by simp
  ultimately show ?thesis
    using fits hm by (simp add: store_wf_def hm_wf_insert)
qed

lemma store_write_block_cases:
  obtains (fail) e where "store_write_block r s = (s, Err e)"
  | (ok) k where "wb_key r = Some k" "write_admit (proto_key_to_block_key k) (wb_data r) s = Ok ()"
      "store_write_block r s =
         (write_commit (proto_key_to_block_key k) (wb_data r) s, Ok (ucast (byte_len (wb_data r))))"
proof (cases "wb_key r")
  case None
  then show ?thesis using fail by (simp add: store_write_block_def)
next
  case (Some k)
  then show ?thesis
    using fail ok by (cases "write_admit (proto_key_to_block_key k) (wb_data r) s")
      (auto simp: store_write_block_def Let_def)
qed

lemma store_write_block_wf:
  assumes "store_wf s" and "unat (ram_budget s) + length (wb_data r) < 2 ^ 64"
  shows "store_wf (fst (store_write_block r s))"
proof (cases rule: store_write_block_cases [of r s])
  case (fail e)
  then show ?thesis using assms by simp
next
  case (ok k)
  then show ?thesis using write_commit_wf [OF assms(1) ok(2) assms(2)] by simp
qed

lemma store_delete_block_wf:
  assumes wf: "store_wf s"
  shows "store_wf (fst (store_delete_block k s))"
proof (cases "k = None \<or> hm_get (blocks s) (proto_key_to_block_key (the k)) = None")
  case True
  then show ?thesis
    using wf by (auto simp: store_delete_block_def store_wf_def held_bytes_def Let_def split: option.split)
next
  case False
  then obtain pk b where k: "k = Some pk" and b: "hm_get (blocks s) (proto_key_to_block_key pk) = Some b"
    by auto
  have hm: "hm_wf (blocks s)" and used: "unat (ram_used s) = held_bytes s"
    using wf by (simp_all add: store_wf_def)
  have le: "length b \<le> held_bytes s" by (rule prev_le_held [OF hm b])
  then have "length b < 2 ^ 64" using used unat_u64_less [of "ram_used s"] by simp
  then have "unat (ram_used s - byte_len b) = held_bytes s - length b"
    using used le by (simp add: unat_sub word_le_nat_alt unat_byte_len)
  moreover have "hm_weight length (hm_remove (proto_key_to_block_key pk) (blocks s)) = held_bytes s - length b"
    using hm_weight_remove [OF hm, of length "proto_key_to_block_key pk"] b by (simp add: held_bytes_def)
  moreover have "held_bytes s - length b \<le> unat (ram_budget s)"
    using wf unfolding store_wf_def by linarith
  ultimately show ?thesis
    using hm k b by (simp add: store_delete_block_def Let_def store_wf_def held_bytes_def hm_wf_remove)
qed

lemma store_exec_budget [simp]: "ram_budget (store_exec x s) = ram_budget s"
  by (cases x) (auto simp: store_write_block_def store_delete_block_def Let_def
      split: option.split result.split)

lemma store_wf_new: "store_wf (store_new nid maddr budget)"
  by (simp add: store_wf_def store_new_def held_bytes_def hm_weight_def)

section \<open>The interface of a block store\<close>

text \<open>
  What the flush and read paths of a client rely on: a successful write is what the
  next read returns, and it leaves every other block alone.
\<close>

locale block_store =
  fixes rd :: "'s \<Rightarrow> 'k \<Rightarrow> 'v option"
    and wr :: "'k \<Rightarrow> 'v \<Rightarrow> 's \<Rightarrow> 's \<times> bool"
  assumes rd_wr_ok: "wr k v s = (s', True) \<Longrightarrow> rd s' = (rd s)(k \<mapsto> v)"
    and rd_wr_fail: "wr k v s = (s', False) \<Longrightarrow> s' = s"
begin

fun wr_all :: "('k \<times> 'v) list \<Rightarrow> 's \<Rightarrow> 's \<times> bool" where
  "wr_all [] s = (s, True)"
| "wr_all ((k, v) # kvs) s =
     (case wr k v s of (s', True) \<Rightarrow> wr_all kvs s' | (s', False) \<Rightarrow> (s', False))"

lemma rd_wr_all:
  "wr_all kvs s = (s', True) \<Longrightarrow> rd s' = rd s ++ map_of (rev kvs)"
proof (induction kvs arbitrary: s)
  case Nil
  then show ?case by simp
next
  case (Cons kv kvs)
  obtain k v where kv: "kv = (k, v)" by (cases kv)
  with Cons.prems obtain t where t: "wr k v s = (t, True)" and rest: "wr_all kvs t = (s', True)"
    by (auto split: prod.splits bool.splits)
  show ?case
    using Cons.IH [OF rest] rd_wr_ok [OF t] kv by (auto simp: fun_eq_iff map_add_def split: option.split)
qed

lemma rd_wr_other: "wr k v s = (s', b) \<Longrightarrow> k' \<noteq> k \<Longrightarrow> rd s' k' = rd s k'"
  by (cases b) (auto dest: rd_wr_ok rd_wr_fail)

end

definition store_wr :: "proto_block_key \<Rightarrow> bytes \<Rightarrow> store_state \<Rightarrow> store_state \<times> bool" where
  "store_wr k data s =
     (case store_write_block \<lparr> wb_key = Some k, wb_data = data \<rparr> s of
        (s', Ok _) \<Rightarrow> (s', True) | (s', _) \<Rightarrow> (s', False))"

definition store_rd :: "store_state \<Rightarrow> proto_block_key \<Rightarrow> bytes option" where
  "store_rd s k =
     (case store_read_block \<lparr> rb_key = Some k, rb_offset = 0, rb_len = 0 \<rparr> s of
        Ok resp \<Rightarrow> Some (rbr_data resp) | _ \<Rightarrow> None)"

lemma proto_key_inject [simp]: "proto_key_to_block_key k = proto_key_to_block_key k' \<longleftrightarrow> k = k'"
  by (cases k, cases k') (simp add: proto_key_to_block_key_def)

lemma store_rd_eq: "store_rd s k = hm_get (blocks s) (proto_key_to_block_key k)"
  by (simp add: store_rd_def store_read_block_def split: option.split)

interpretation st: block_store store_rd store_wr
proof
  fix k v s s'
  show "store_wr k v s = (s', True) \<Longrightarrow> store_rd s' = (store_rd s)(k \<mapsto> v)"
    by (cases rule: store_write_block_cases [of "\<lparr> wb_key = Some k, wb_data = v \<rparr>" s])
      (auto simp: store_wr_def store_rd_eq fun_eq_iff)
  show "store_wr k v s = (s', False) \<Longrightarrow> s' = s"
    by (cases rule: store_write_block_cases [of "\<lparr> wb_key = Some k, wb_data = v \<rparr>" s])
      (auto simp: store_wr_def)
qed

section \<open>Fencing by generation\<close>

definition deletes_logical :: "inode_id \<times> block_idx \<Rightarrow> store_op \<Rightarrow> bool" where
  "deletes_logical l x \<longleftrightarrow>
     (case x of StDelete (Some k) \<Rightarrow> logical (proto_key_to_block_key k) = l | _ \<Rightarrow> False)"

lemma high_water_write_commit:
  "high_water (write_commit key data s) l =
     (if l = logical key
      then Some (case high_water s l of None \<Rightarrow> bk_generation key | Some hw \<Rightarrow> max hw (bk_generation key))
      else high_water s l)"
  by (auto simp: write_commit_def Let_def max_def not_less split: option.split)

lemma high_water_exec_mono:
  assumes hw: "high_water s l = Some g" and keep: "\<not> deletes_logical l x"
  shows "\<exists>g'. high_water (store_exec x s) l = Some g' \<and> g \<le> g'"
proof (cases x)
  case (StWrite r)
  show ?thesis
    by (cases rule: store_write_block_cases [of r s])
      (use hw StWrite in \<open>auto simp: high_water_write_commit\<close>)
next
  case (StDelete k)
  then show ?thesis
    using hw keep by (cases k) (auto simp: store_delete_block_def Let_def deletes_logical_def split: option.split)
qed

lemma high_water_run_mono:
  assumes "high_water s l = Some g" and "\<forall>x \<in> set ops. \<not> deletes_logical l x"
  shows "\<exists>g'. high_water (fold store_exec ops s) l = Some g' \<and> g \<le> g'"
  using assms
proof (induction ops arbitrary: s g)
  case Nil
  then show ?case by simp
next
  case (Cons x xs)
  then obtain g1 where "high_water (store_exec x s) l = Some g1" "g \<le> g1"
    using high_water_exec_mono [of s l g x] by auto
  moreover from this Cons.IH [of "store_exec x s" g1] Cons.prems(2)
  obtain g2 where "high_water (fold store_exec xs (store_exec x s)) l = Some g2" "g1 \<le> g2"
    by auto
  ultimately show ?case by auto
qed

lemma stale_write_rejected:
  "high_water s (logical (proto_key_to_block_key k)) = Some hw
     \<Longrightarrow> bk_generation (proto_key_to_block_key k) < hw \<Longrightarrow> wb_key r = Some k
     \<Longrightarrow> store_write_block r s = (s, Err (st_failed_precondition ''stale generation''))"
  by (simp add: store_write_block_def write_admit_def Let_def)

section \<open>Properties of the store\<close>

abbreviation pkey :: "u64 \<Rightarrow> u64 \<Rightarrow> u64 \<Rightarrow> proto_block_key" where
  "pkey i b g \<equiv> \<lparr> pk_ino = i, pk_block_idx = b, pk_generation = g \<rparr>"

lemma store_run_wf_aux:
  assumes "store_wf s" and "\<forall>r. StWrite r \<in> set ops \<longrightarrow> unat (ram_budget s) + length (wb_data r) < 2 ^ 64"
  shows "store_wf (fold store_exec ops s)"
  using assms
proof (induction ops arbitrary: s)
  case Nil
  then show ?case by simp
next
  case (Cons x xs)
  then have "store_wf (store_exec x s)"
    by (cases x) (simp_all add: store_write_block_wf store_delete_block_wf)
  with Cons show ?case by simp
qed

text \<open>
  C12. Memory accounting of a store.  Start from an empty store and run any sequence of
  WriteBlock and DeleteBlock requests, rejected ones included: the counter
  \<^verbatim>\<open>ram_used\<close> is exactly the number of bytes held, and it never exceeds the budget.
  The condition on sizes only says that budget plus one message fits 64 bits.
\<close>

theorem store_budget_invariant:
  assumes "\<forall>r. StWrite r \<in> set ops \<longrightarrow> unat budget + length (wb_data r) < 2 ^ 64"
  shows "unat (ram_used (fold store_exec ops (store_new nid maddr budget)))
           = held_bytes (fold store_exec ops (store_new nid maddr budget))
    \<and> held_bytes (fold store_exec ops (store_new nid maddr budget)) \<le> unat budget"
proof -
  have budget: "ram_budget (fold store_exec ops s) = ram_budget s" for s
    by (induction ops arbitrary: s) simp_all
  have "store_wf (fold store_exec ops (store_new nid maddr budget))"
    using assms by (intro store_run_wf_aux store_wf_new) (simp add: store_new_def)
  then show ?thesis
    by (simp add: store_wf_def budget) (simp add: store_new_def)
qed

theorem store_budget_invariant_witness:
  "unat (ram_used (fold store_exec
      [StWrite \<lparr> wb_key = Some (pkey 7 0 0), wb_data = [1, 2, 3] \<rparr>,
       StWrite \<lparr> wb_key = Some (pkey 7 0 0), wb_data = [4, 5] \<rparr>,
       StDelete (Some (pkey 7 1 0))] (store_new (NodeId ''a'') [] 10))) = 2
   \<and> 2 \<le> unat (10 :: u64)"
proof -
  let ?ops = "[StWrite \<lparr> wb_key = Some (pkey 7 0 0), wb_data = [1, 2, 3] \<rparr>,
       StWrite \<lparr> wb_key = Some (pkey 7 0 0), wb_data = [4, 5] \<rparr>,
       StDelete (Some (pkey 7 1 0))]"
  have "held_bytes (fold store_exec ?ops (store_new (NodeId ''a'') [] 10)) = 2"
    by (simp add: store_new_def store_write_block_def store_delete_block_def write_admit_def write_commit_def
        Let_def proto_key_to_block_key_def held_bytes_def hm_weight_def hm_insert_def hm_get_def)
  then show ?thesis
    using store_budget_invariant [of ?ops 10 "NodeId ''a''" "[]"] by simp
qed

text \<open>
  Read after write.  When WriteBlock replies Ok, ReadBlock of the same key returns
  exactly the bytes written and their length, and every other key reads as before.
\<close>

theorem store_read_after_write:
  assumes "store_write_block \<lparr> wb_key = Some k, wb_data = data \<rparr> s = (s', Ok n)"
  shows "store_read_block \<lparr> rb_key = Some k, rb_offset = off, rb_len = len \<rparr> s'
           = Ok \<lparr> rbr_data = data, rbr_len = of_nat (length data) \<rparr>
    \<and> (k' \<noteq> k \<longrightarrow> store_read_block \<lparr> rb_key = Some k', rb_offset = off, rb_len = len \<rparr> s'
           = store_read_block \<lparr> rb_key = Some k', rb_offset = off, rb_len = len \<rparr> s)"
proof -
  have "store_wr k data s = (s', True)" using assms by (simp add: store_wr_def)
  from st.rd_wr_ok [OF this] show ?thesis
    by (auto simp: store_read_block_def store_rd_eq fun_eq_iff split: option.split)
qed

theorem store_read_after_write_witness:
  "\<exists>s'. store_write_block \<lparr> wb_key = Some (pkey 7 0 0), wb_data = [1, 2, 3] \<rparr>
      (store_new (NodeId ''a'') [] 10) = (s', Ok 3)
    \<and> store_read_block \<lparr> rb_key = Some (pkey 7 0 0), rb_offset = 0, rb_len = 0 \<rparr> s'
        = Ok \<lparr> rbr_data = [1, 2, 3], rbr_len = 3 \<rparr>"
proof -
  obtain s' where "store_write_block \<lparr> wb_key = Some (pkey 7 0 0), wb_data = [1, 2, 3] \<rparr>
      (store_new (NodeId ''a'') [] 10) = (s', Ok 3)"
    by (simp add: store_new_def store_write_block_def write_admit_def Let_def)
  from store_read_after_write [OF this, of 0 0] this show ?thesis by auto
qed

text \<open>
  C16. Fencing of stale writers.  After a write with some generation succeeded, and as
  long as nobody deletes that logical block, every write to the same inode and block
  index with a smaller generation is refused with \<^verbatim>\<open>FAILED_PRECONDITION\<close> and changes
  nothing, whatever other requests came in between.
\<close>

theorem stale_writer_fenced:
  assumes "store_write_block \<lparr> wb_key = Some (pkey i b g), wb_data = data \<rparr> s = (s', Ok n)"
    and "\<forall>x \<in> set ops. \<not> deletes_logical (InodeId i, BlockIdx b) x"
    and "g' < g"
  shows "store_write_block \<lparr> wb_key = Some (pkey i b g'), wb_data = data' \<rparr> (fold store_exec ops s')
    = (fold store_exec ops s', Err (st_failed_precondition ''stale generation''))"
proof -
  let ?l = "(InodeId i, BlockIdx b)"
  have "\<exists>hw. high_water s' ?l = Some hw \<and> Generation g \<le> hw"
    using assms(1)
    by (cases rule: store_write_block_cases [of "\<lparr> wb_key = Some (pkey i b g), wb_data = data \<rparr>" s])
      (auto simp: high_water_write_commit proto_key_to_block_key_def split: option.split)
  then obtain hw0 where hw0: "high_water s' ?l = Some hw0" and g0: "Generation g \<le> hw0"
    by blast
  from high_water_run_mono [OF hw0 assms(2)] obtain hw
    where hw: "high_water (fold store_exec ops s') ?l = Some hw" and le: "hw0 \<le> hw" by blast
  have "Generation g' < Generation g" using assms(3) by (simp add: id_orders)
  then have "Generation g' < hw" using g0 le by simp
  with hw show ?thesis
    by (intro stale_write_rejected) (simp_all add: proto_key_to_block_key_def)
qed

theorem stale_writer_fenced_witness:
  "\<exists>s'. store_write_block \<lparr> wb_key = Some (pkey 7 0 5), wb_data = [9] \<rparr> (store_new (NodeId ''a'') [] 10) = (s', Ok 1)
    \<and> snd (store_write_block \<lparr> wb_key = Some (pkey 7 0 4), wb_data = [8] \<rparr>
          (fold store_exec [StDelete (Some (pkey 7 1 0))] s'))
      = Err (st_failed_precondition ''stale generation'')"
proof -
  obtain s' where s': "store_write_block \<lparr> wb_key = Some (pkey 7 0 5), wb_data = [9] \<rparr>
      (store_new (NodeId ''a'') [] 10) = (s', Ok 1)"
    by (simp add: store_new_def store_write_block_def write_admit_def Let_def)
  have "\<forall>x \<in> set [StDelete (Some (pkey 7 1 0))]. \<not> deletes_logical (InodeId 7, BlockIdx 0) x"
    by (simp add: deletes_logical_def proto_key_to_block_key_def)
  from stale_writer_fenced [OF s' this, of 4 "[8]"] s' show ?thesis by simp
qed

lemma blocks_delete: "blocks (fst (store_delete_block (Some k) s)) = hm_remove (proto_key_to_block_key k) (blocks s)"
  by (auto simp: store_delete_block_def Let_def hm_remove_absent split: option.split)

lemma store_rd_delete: "store_rd (fst (store_delete_block (Some k) s)) = (store_rd s)(k := None)"
  by (auto simp: fun_eq_iff store_rd_eq blocks_delete)

text \<open>
  DeleteBlock removes exactly the named block: afterwards it reads as
  \<^verbatim>\<open>NOT_FOUND\<close>, other blocks are untouched, the bytes held shrink by its length, and
  the generation fence of its logical block is lifted.
\<close>

theorem store_delete_effect:
  assumes "store_wf s"
  shows "store_read_block \<lparr> rb_key = Some k, rb_offset = 0, rb_len = 0 \<rparr> (fst (store_delete_block (Some k) s))
      = Err (st_not_found ''block not found'')
    \<and> (k' \<noteq> k \<longrightarrow> store_rd (fst (store_delete_block (Some k) s)) k' = store_rd s k')
    \<and> held_bytes (fst (store_delete_block (Some k) s))
      = held_bytes s - (case store_rd s k of None \<Rightarrow> 0 | Some b \<Rightarrow> length b)
    \<and> high_water (fst (store_delete_block (Some k) s)) (InodeId (pk_ino k), BlockIdx (pk_block_idx k)) = None"
proof (intro conjI impI)
  let ?key = "proto_key_to_block_key k"
  have hm: "hm_wf (blocks s)" using assms by (simp add: store_wf_def)
  note blk = blocks_delete [of k s]
  show "store_read_block \<lparr> rb_key = Some k, rb_offset = 0, rb_len = 0 \<rparr>
      (fst (store_delete_block (Some k) s)) = Err (st_not_found ''block not found'')"
    by (simp add: store_read_block_def blk)
  show "k' \<noteq> k \<Longrightarrow> store_rd (fst (store_delete_block (Some k) s)) k' = store_rd s k'"
    by (simp add: store_rd_eq blk)
  show "held_bytes (fst (store_delete_block (Some k) s))
      = held_bytes s - (case store_rd s k of None \<Rightarrow> 0 | Some b \<Rightarrow> length b)"
    using hm_weight_remove [OF hm, of length ?key]
    by (simp add: held_bytes_def blk store_rd_eq split: option.splits)
  show "high_water (fst (store_delete_block (Some k) s)) (InodeId (pk_ino k), BlockIdx (pk_block_idx k)) = None"
    by (simp add: store_delete_block_def Let_def proto_key_to_block_key_def)
qed

theorem store_delete_effect_witness:
  "store_wf (store_new (NodeId ''a'') [] 10)
   \<and> store_read_block \<lparr> rb_key = Some (pkey 1 2 0), rb_offset = 0, rb_len = 0 \<rparr>
        (fst (store_delete_block (Some (pkey 1 2 0)) (store_new (NodeId ''a'') [] 10)))
      = Err (st_not_found ''block not found'')"
  using store_delete_effect [OF store_wf_new, of "pkey 1 2 0"] store_wf_new by blast

text \<open>
  Replicate does not keep the accounting.  Pulling a block that the store already
  holds, with a reply of the same length, adds that length to \<^verbatim>\<open>ram_used\<close> again
  while the bytes held stay the same (as long as the counter does not wrap); a later
  write can then be refused although memory is free.
\<close>

theorem replicate_counts_twice:
  assumes "store_wf s" and "store_rd s k = Some old" and "length (rbr_data resp) = length old"
    and "connect addr = Ok client" and "client \<lparr> rb_key = Some k, rb_offset = 0, rb_len = 0 \<rparr> = Ok resp"
    and "unat (ram_used s) + length old < 2 ^ 64"
  shows "snd (store_replicate connect \<lparr> rp_source_node_id = src, rp_source_addr = addr, rp_key = Some k \<rparr> s) = Ok ()
    \<and> held_bytes (fst (store_replicate connect \<lparr> rp_source_node_id = src, rp_source_addr = addr, rp_key = Some k \<rparr> s))
        = held_bytes s
    \<and> unat (ram_used (fst (store_replicate connect \<lparr> rp_source_node_id = src, rp_source_addr = addr, rp_key = Some k \<rparr> s)))
        = held_bytes s + length old"
proof -
  have hm: "hm_wf (blocks s)" and used: "unat (ram_used s) = held_bytes s"
    using assms(1) by (simp_all add: store_wf_def)
  have "hm_weight length (hm_insert (proto_key_to_block_key k) (rbr_data resp) (blocks s)) = held_bytes s"
    using hm_weight_insert [OF hm, of length "proto_key_to_block_key k" "rbr_data resp"] assms(2,3)
    by (simp add: store_rd_eq held_bytes_def)
  moreover have "unat (ram_used s + byte_len (rbr_data resp)) = held_bytes s + length old"
    using assms(3,6) used by (simp add: unat_word_ariths unat_of_nat_u64)
  ultimately show ?thesis
    using assms(4,5) by (simp add: store_replicate_def Let_def held_bytes_def)
qed

theorem replicate_counts_twice_witness:
  "\<exists>s. store_rd s (pkey 7 0 0) = Some [1, 2] \<and> held_bytes s = 2
    \<and> unat (ram_used (fst (store_replicate (\<lambda>a. Ok (\<lambda>r. Ok \<lparr> rbr_data = [3, 4], rbr_len = 2 \<rparr>))
        \<lparr> rp_source_node_id = ''b'', rp_source_addr = ''x'', rp_key = Some (pkey 7 0 0) \<rparr> s))) = 4"
proof -
  let ?s = "fst (store_write_block \<lparr> wb_key = Some (pkey 7 0 0), wb_data = [1, 2] \<rparr> (store_new (NodeId ''a'') [] 10))"
  have wf: "store_wf ?s"
    by (rule store_write_block_wf [OF store_wf_new]) (simp add: store_new_def)
  have rd: "store_rd ?s (pkey 7 0 0) = Some [1, 2]" and held: "held_bytes ?s = 2"
    by (simp_all add: store_rd_eq hm_get_def store_new_def store_write_block_def write_admit_def Let_def
        held_bytes_def hm_weight_def hm_insert_def)
  have used: "unat (ram_used ?s) = 2" using wf held by (simp add: store_wf_def)
  show ?thesis
    using replicate_counts_twice [OF wf rd, of "\<lparr> rbr_data = [3, 4], rbr_len = 2 \<rparr>"
        "\<lambda>a. Ok (\<lambda>r. Ok \<lparr> rbr_data = [3, 4], rbr_len = 2 \<rparr>)" "''x''" _ "''b''"] rd held used
    by (intro exI [of _ ?s]) simp
qed

text \<open>
  The budget check races.  Two writers that are both admitted before either commits
  leave the store above its budget: the checks and the insertion are not atomic.
\<close>

theorem concurrent_writes_exceed_budget:
  "\<exists>s k1 d1 k2 d2. store_wf s \<and> write_admit k1 d1 s = Ok () \<and> write_admit k2 d2 s = Ok ()
     \<and> held_bytes (write_commit k2 d2 (write_commit k1 d1 s)) > unat (ram_budget s)"
proof -
  let ?s = "store_new (NodeId ''a'') [] 3"
  let ?k1 = "proto_key_to_block_key (pkey 7 0 0)" and ?k2 = "proto_key_to_block_key (pkey 7 1 0)"
  have "write_admit ?k1 [1, 2] ?s = Ok ()" "write_admit ?k2 [3, 4] ?s = Ok ()"
    by (simp_all add: write_admit_def store_new_def)
  moreover have "held_bytes (write_commit ?k2 [3, 4] (write_commit ?k1 [1, 2] ?s)) = 4"
    by (simp add: held_bytes_def hm_weight_def hm_insert_def store_new_def)
  moreover have "unat (ram_budget ?s) = 3" by (simp add: store_new_def)
  ultimately show ?thesis
    using store_wf_new [of "NodeId ''a''" "[]" 3]
    by (intro exI [of _ ?s] exI [of _ ?k1] exI [of _ "[1, 2]"] exI [of _ ?k2] exI [of _ "[3, 4]"]) simp
qed

end
