(* ===== verification/Store_Race.thy ===== *)
theory Store_Race
  imports Store
begin

text \<open>
  The store under concurrent requests.  The tonic server runs every request as a task of
  its own, and the handlers of \<^verbatim>\<open>dtmpfs-store/src/service.rs\<close> take no lock across
  their accesses to the tables and to the atomic counter.  Here each handler is cut into
  its single accesses (a \<^verbatim>\<open>DashMap\<close> call under its shard guard, or one atomic
  operation), \<open>task_step\<close> runs one of them, and \<open>race_step\<close> lets any task in
  flight take its next one.  A task that runs alone does what \<^const>\<open>store_write_block\<close>
  and \<^const>\<open>store_delete_block\<close> say; a crowd of tasks keeps the counter right up
  to the updates it still owes, which bounds the bytes held.
\<close>

section \<open>One access at a time\<close>

text \<open>
  Where a handler stands: the constructor is the next access, its arguments are the
  locals of the handler that are still needed.
\<close>

datatype store_task =
    WCheckMark block_key bytes
  | WCheckBudget block_key bytes
  | WInsert block_key bytes
  | WAdd block_key bytes u64
  | WSub block_key bytes u64
  | WMark block_key bytes
  | DRemove block_key
  | DSub block_key u64
  | DMark block_key

datatype store_reply = Wrote u32 | Deleted

datatype task_next = Run store_task | Done "(store_reply, status) result"

fun task_of :: "store_op \<Rightarrow> task_next" where
  "task_of (StWrite r) =
     (case wb_key r of
        None \<Rightarrow> Done (Err missing_key)
      | Some proto_key \<Rightarrow> Run (WCheckMark (proto_key_to_block_key proto_key) (wb_data r)))"
| "task_of (StDelete k) =
     (case k of
        None \<Rightarrow> Done (Err missing_key)
      | Some proto_key \<Rightarrow> Run (DRemove (proto_key_to_block_key proto_key)))"

fun task_step :: "store_task \<Rightarrow> store_state \<Rightarrow> store_state \<times> task_next" where
  "task_step (WCheckMark key data) s =
     (s, case high_water s (logical key) of
           None \<Rightarrow> Run (WCheckBudget key data)
         | Some hw \<Rightarrow> if bk_generation key < hw
                      then Done (Err (st_failed_precondition ''stale generation''))
                      else Run (WCheckBudget key data))"
| "task_step (WCheckBudget key data) s =
     (s, if ram_used s + byte_len data > ram_budget s
         then Done (Err (st_resource_exhausted ''ram budget exceeded''))
         else Run (WInsert key data))"
| "task_step (WInsert key data) s =
     (s\<lparr>blocks := hm_insert key data (blocks s)\<rparr>,
      Run (WAdd key data (case hm_get (blocks s) key of None \<Rightarrow> 0 | Some b \<Rightarrow> byte_len b)))"
| "task_step (WAdd key data prev_len) s =
     (s\<lparr>ram_used := ram_used s + byte_len data\<rparr>, Run (WSub key data prev_len))"
| "task_step (WSub key data prev_len) s =
     (s\<lparr>ram_used := ram_used s - prev_len\<rparr>, Run (WMark key data))"
| "task_step (WMark key data) s =
     (s\<lparr>high_water := (high_water s)(logical key \<mapsto>
          (case high_water s (logical key) of
             None \<Rightarrow> bk_generation key
           | Some hw \<Rightarrow> if bk_generation key > hw then bk_generation key else hw))\<rparr>,
      Done (Ok (Wrote (ucast (byte_len data)))))"
| "task_step (DRemove key) s =
     (case hm_get (blocks s) key of
        None \<Rightarrow> (s, Run (DMark key))
      | Some prev \<Rightarrow> (s\<lparr>blocks := hm_remove key (blocks s)\<rparr>, Run (DSub key (byte_len prev))))"
| "task_step (DSub key prev_len) s =
     (s\<lparr>ram_used := ram_used s - prev_len\<rparr>, Run (DMark key))"
| "task_step (DMark key) s =
     (s\<lparr>high_water := (high_water s)(logical key := None)\<rparr>, Done (Ok Deleted))"

section \<open>A task that runs alone\<close>

fun accesses_left :: "task_next \<Rightarrow> nat" where
  "accesses_left (Run t) = (case t of
     WCheckMark _ _ \<Rightarrow> 6 | WCheckBudget _ _ \<Rightarrow> 5 | WInsert _ _ \<Rightarrow> 4 | WAdd _ _ _ \<Rightarrow> 3
   | WSub _ _ _ \<Rightarrow> 2 | WMark _ _ \<Rightarrow> 1 | DRemove _ \<Rightarrow> 3 | DSub _ _ \<Rightarrow> 2 | DMark _ \<Rightarrow> 1)"
| "accesses_left (Done _) = 0"

lemma task_step_progress: "task_step t s = (s', n) \<Longrightarrow> accesses_left n < accesses_left (Run t)"
  by (cases t) (auto split: option.splits if_splits)

function run_task :: "task_next \<Rightarrow> store_state \<Rightarrow> store_state \<times> (store_reply, status) result" where
  "run_task (Done r) s = (s, r)"
| "run_task (Run t) s = (case task_step t s of (s', n) \<Rightarrow> run_task n s')"
  by pat_completeness auto
termination
  by (relation "measure (accesses_left \<circ> fst)")
    (simp_all only: wf_measure in_measure comp_def fst_conv task_step_progress [OF sym])

fun write_reply :: "(u32, status) result \<Rightarrow> (store_reply, status) result" where
  "write_reply (Ok n) = Ok (Wrote n)"
| "write_reply (Err e) = Err e"
| "write_reply Panic = Panic"

fun delete_reply :: "(unit, status) result \<Rightarrow> (store_reply, status) result" where
  "delete_reply (Ok _) = Ok Deleted"
| "delete_reply (Err e) = Err e"
| "delete_reply Panic = Panic"

fun store_serve :: "store_op \<Rightarrow> store_state \<Rightarrow> store_state \<times> (store_reply, status) result" where
  "store_serve (StWrite r) s = map_prod id write_reply (store_write_block r s)"
| "store_serve (StDelete k) s = map_prod id delete_reply (store_delete_block k s)"

lemma run_write:
  "run_task (Run (WCheckMark key data)) s =
     (case write_admit key data s of
        Ok _ \<Rightarrow> (write_commit key data s, Ok (Wrote (ucast (byte_len data))))
      | Err e \<Rightarrow> (s, Err e) | Panic \<Rightarrow> (s, Panic))"
  by (auto simp: write_admit_def write_commit_def Let_def split: option.split)

lemma run_delete:
  "run_task (Run (DRemove key)) s =
     (let s1 = (case hm_get (blocks s) key of
                  None \<Rightarrow> s
                | Some prev \<Rightarrow> s\<lparr>blocks := hm_remove key (blocks s), ram_used := ram_used s - byte_len prev\<rparr>)
      in (s1\<lparr>high_water := (high_water s1)(logical key := None)\<rparr>, Ok Deleted))"
  by (auto simp: Let_def split: option.split)

text \<open>
  A request that is served alone.  Running the accesses of WriteBlock or DeleteBlock
  one after another, with no other task in between, ends after at most six of them in
  exactly the state and the reply of the handler taken as one action, whatever the
  request and the state, errors included.
\<close>

theorem task_alone_is_handler: "run_task (task_of x) s = store_serve x s"
proof (cases x)
  case (StWrite r)
  then show ?thesis
    by (auto simp: run_write store_write_block_def Let_def simp del: run_task.simps(2) split: option.split result.split)
next
  case (StDelete k)
  then show ?thesis
    by (auto simp: run_delete store_delete_block_def Let_def simp del: run_task.simps(2) split: option.split)
qed

section \<open>Any number of tasks\<close>

text \<open>
  What the tasks in flight still owe: the bytes they were admitted for and have not yet
  inserted, the bytes they inserted and have not yet counted, and the bytes they freed
  and have not yet taken off the counter.
\<close>

fun owed_insert :: "store_task \<Rightarrow> nat" where
  "owed_insert (WInsert key data) = length data"
| "owed_insert _ = 0"

fun owed_add :: "store_task \<Rightarrow> nat" where
  "owed_add (WAdd key data prev_len) = length data"
| "owed_add _ = 0"

fun owed_sub :: "store_task \<Rightarrow> nat" where
  "owed_sub (WAdd key data prev_len) = unat prev_len"
| "owed_sub (WSub key data prev_len) = unat prev_len"
| "owed_sub (DSub key prev_len) = unat prev_len"
| "owed_sub _ = 0"

fun is_writer :: "store_task \<Rightarrow> bool" where
  "is_writer (DRemove _) = False"
| "is_writer (DSub _ _) = False"
| "is_writer (DMark _) = False"
| "is_writer _ = True"

fun task_data :: "store_task \<Rightarrow> bytes" where
  "task_data (WCheckMark key data) = data"
| "task_data (WCheckBudget key data) = data"
| "task_data (WInsert key data) = data"
| "task_data (WAdd key data prev_len) = data"
| "task_data (WSub key data prev_len) = data"
| "task_data (WMark key data) = data"
| "task_data _ = []"

abbreviation owed :: "(store_task \<Rightarrow> nat) \<Rightarrow> store_task multiset \<Rightarrow> nat" where
  "owed f T \<equiv> (\<Sum>t\<in>#T. f t)"

abbreviation writers :: "store_task multiset \<Rightarrow> nat" where
  "writers T \<equiv> size (filter_mset is_writer T)"

abbreviation deleters :: "store_task multiset \<Rightarrow> nat" where
  "deleters T \<equiv> size (filter_mset (\<lambda>t. \<not> is_writer t) T)"

text \<open>
  The limits of a run: how many writers and how many deleters are in flight at most, and
  the largest block (\<^verbatim>\<open>block_size\<close>).
\<close>

record race_limits =
  max_writers :: nat
  max_deleters :: nat
  max_block :: nat

inductive race_step ::
  "race_limits \<Rightarrow> store_state \<times> store_task multiset \<Rightarrow> store_state \<times> store_task multiset \<Rightarrow> bool"
  for L where
  arrive: "task_of x = Run t \<Longrightarrow> length (task_data t) \<le> max_block L
      \<Longrightarrow> writers (add_mset t T) \<le> max_writers L \<Longrightarrow> deleters (add_mset t T) \<le> max_deleters L
      \<Longrightarrow> race_step L (s, T) (s, add_mset t T)"
| access: "task_step t s = (s', Run t') \<Longrightarrow> race_step L (s, add_mset t T) (s', add_mset t' T)"
| reply: "task_step t s = (s', Done r) \<Longrightarrow> race_step L (s, add_mset t T) (s', T)"

definition task_small :: "nat \<Rightarrow> store_task \<Rightarrow> bool" where
  "task_small b t \<longleftrightarrow> length (task_data t) \<le> b \<and> owed_sub t \<le> b"

definition counter_exact :: "store_state \<times> store_task multiset \<Rightarrow> bool" where
  "counter_exact c \<longleftrightarrow> (case c of (s, T) \<Rightarrow>
     ram_used s + of_nat (owed owed_add T) = of_nat (held_bytes s) + of_nat (owed owed_sub T))"

definition race_ok :: "race_limits \<Rightarrow> store_state \<times> store_task multiset \<Rightarrow> bool" where
  "race_ok L c \<longleftrightarrow> (case c of (s, T) \<Rightarrow>
     hm_wf (blocks s) \<and> (\<forall>(k, b) \<in> set (blocks s). length b \<le> max_block L)
     \<and> (\<forall>t \<in># T. task_small (max_block L) t)
     \<and> writers T \<le> max_writers L \<and> deleters T \<le> max_deleters L \<and> counter_exact c
     \<and> held_bytes s + owed owed_insert T \<le> unat (ram_budget s) + (max_writers L - 1) * max_block L)"

text \<open>Budget and limits leave room in 64 bits.\<close>

definition race_room :: "race_limits \<Rightarrow> store_state \<Rightarrow> bool" where
  "race_room L s \<longleftrightarrow>
     unat (ram_budget s) + (2 * max_writers L + max_deleters L) * max_block L < 2 ^ 64"

lemma owed_by_writers:
  "\<forall>t \<in># T. task_small b t \<Longrightarrow> owed owed_insert T + owed owed_add T \<le> writers T * b"
proof (induction T)
  case (add t T)
  then show ?case by (cases t) (auto simp: task_small_def)
qed simp

lemma owed_sub_bound:
  "\<forall>t \<in># T. task_small b t \<Longrightarrow> owed owed_sub T \<le> (writers T + deleters T) * b"
proof (induction T)
  case (add t T)
  then show ?case by (cases t) (auto simp: task_small_def)
qed simp

lemma word_bound:
  fixes x y :: u64
  assumes "x + of_nat a = of_nat n" and "x \<le> y" and "n < 2 ^ 64"
  shows "n \<le> unat y + a"
proof (rule ccontr)
  assume neg: "\<not> n \<le> unat y + a"
  then have "x = of_nat (n - a)"
    using assms(1) by (simp add: of_nat_diff eq_diff_eq)
  then have "unat x = n - a" using assms(3) by (simp add: unat_of_nat_u64)
  then show False using assms(2) neg by (simp add: word_le_nat_alt)
qed

text \<open>Admission: what the counter admits is within the budget up to what is owed to it.\<close>

lemma admission_bound:
  assumes ok: "race_ok L (s, add_mset (WCheckBudget key data) T)" and room: "race_room L s"
    and adm: "ram_used s + byte_len data \<le> ram_budget s"
  shows "held_bytes s + owed owed_insert T + length data
    \<le> unat (ram_budget s) + (max_writers L - 1) * max_block L"
proof -
  let ?B = "max_block L"
  have small: "\<forall>t \<in># T. task_small ?B t" and len: "length data \<le> ?B"
    and wr: "Suc (writers T) \<le> max_writers L" and del: "deleters T \<le> max_deleters L"
    and held: "held_bytes s + owed owed_insert T \<le> unat (ram_budget s) + (max_writers L - 1) * ?B"
    and ex: "ram_used s + of_nat (owed owed_add T) = of_nat (held_bytes s) + of_nat (owed owed_sub T)"
    using ok by (simp_all add: race_ok_def task_small_def counter_exact_def)
  have sub: "owed owed_sub T \<le> ((max_writers L - 1) + max_deleters L) * ?B"
    using owed_sub_bound [OF small] mult_le_mono1 [of "writers T + deleters T" "(max_writers L - 1) + max_deleters L" ?B]
      wr del by linarith
  have "held_bytes s + owed owed_sub T + length data
      \<le> unat (ram_budget s) + ((max_writers L - 1) + ((max_writers L - 1) + max_deleters L) + 1) * ?B"
    using held sub len by (simp add: algebra_simps)
  also have "\<dots> \<le> unat (ram_budget s) + (2 * max_writers L + max_deleters L) * ?B"
    using wr by (intro add_left_mono mult_le_mono1) simp
  finally have "held_bytes s + owed owed_sub T + length data < 2 ^ 64"
    using room by (simp add: race_room_def)
  moreover have "(ram_used s + byte_len data) + of_nat (owed owed_add T)
      = of_nat (held_bytes s + owed owed_sub T + length data)"
    using arg_cong [OF ex, of "\<lambda>v. v + byte_len data"] by (simp add: add_ac)
  ultimately have "held_bytes s + owed owed_sub T + length data \<le> unat (ram_budget s) + owed owed_add T"
    using adm by (intro word_bound) simp_all
  moreover have "owed owed_insert T + owed owed_add T \<le> (max_writers L - 1) * ?B"
    using owed_by_writers [OF small] mult_le_mono1 [of "writers T" "max_writers L - 1" ?B] wr by linarith
  ultimately show ?thesis by linarith
qed

lemma block_small:
  "race_ok L (s, T) \<Longrightarrow> hm_get (blocks s) key = Some b \<Longrightarrow> length b \<le> max_block L"
  by (force simp: race_ok_def hm_get_def dest: map_of_SomeD)

lemma prev_small:
  assumes ok: "race_ok L (s, T)" and room: "race_room L s" and pos: "0 < size T"
    and b: "hm_get (blocks s) key = Some b"
  shows "unat (byte_len b) = length b"
proof -
  have "size T = writers T + deleters T"
    by (subst multiset_partition [of T is_writer]) (simp only: size_union)
  then have "1 \<le> max_writers L + max_deleters L" using ok pos by (auto simp: race_ok_def)
  then have "1 * max_block L \<le> (2 * max_writers L + max_deleters L) * max_block L"
    by (intro mult_le_mono1) simp
  then have "length b < 2 ^ 64"
    using block_small [OF ok b] room unfolding race_room_def by linarith
  then show ?thesis by (rule unat_byte_len)
qed

lemma set_hm_insert: "set (hm_insert k v m) \<subseteq> insert (k, v) (set m)"
  by (induction m) (auto simp: hm_insert_def)

lemma set_hm_remove: "set (hm_remove k m) \<subseteq> set m"
  by (auto simp: hm_remove_def AList.delete_eq)

fun task_mset :: "task_next \<Rightarrow> store_task multiset" where
  "task_mset (Run t) = {#t#}"
| "task_mset (Done r) = {#}"

lemma insert_keeps:
  assumes ok: "race_ok L (s, add_mset (WInsert key data) T)" and room: "race_room L s"
    and st: "task_step (WInsert key data) s = (s', n)"
  shows "race_ok L (s', task_mset n + T)"
proof -
  let ?prev = "case hm_get (blocks s) key of None \<Rightarrow> 0 | Some b \<Rightarrow> length b"
  let ?prev64 = "case hm_get (blocks s) key of None \<Rightarrow> 0 | Some b \<Rightarrow> byte_len b"
  have hm: "hm_wf (blocks s)" using ok by (simp add: race_ok_def)
  have s': "s' = s\<lparr>blocks := hm_insert key data (blocks s)\<rparr>" and n: "n = Run (WAdd key data ?prev64)"
    using st by auto
  have u: "unat ?prev64 = ?prev"
    using prev_small [OF ok room, of key] by (simp split: option.split)
  have p: "?prev \<le> max_block L" using block_small [OF ok, of key] by (simp split: option.split)
  have held: "held_bytes s' + ?prev = held_bytes s + length data"
    using hm_weight_insert [OF hm, of length key data] by (simp add: held_bytes_def s')
  have "of_nat (held_bytes s') + of_nat ?prev = (of_nat (held_bytes s) + byte_len data :: u64)"
    using arg_cong [OF held, of "of_nat :: nat \<Rightarrow> u64"] by simp
  then have "counter_exact (s', task_mset n + T)"
    using ok u by (simp add: race_ok_def counter_exact_def n s' algebra_simps)
  moreover have "\<forall>(k, b) \<in> set (blocks s'). length b \<le> max_block L"
    using ok set_hm_insert [of key data "blocks s"] by (fastforce simp: race_ok_def s' task_small_def)
  ultimately show ?thesis
    using ok u p held by (simp add: race_ok_def n task_small_def) (simp add: s' hm_wf_insert)
qed

lemma remove_keeps:
  assumes ok: "race_ok L (s, add_mset (DRemove key) T)" and room: "race_room L s"
    and st: "task_step (DRemove key) s = (s', n)"
  shows "race_ok L (s', task_mset n + T)"
proof (cases "hm_get (blocks s) key")
  case None
  then show ?thesis using ok st by (auto simp: race_ok_def counter_exact_def task_small_def)
next
  case (Some b)
  have hm: "hm_wf (blocks s)" using ok by (simp add: race_ok_def)
  have s': "s' = s\<lparr>blocks := hm_remove key (blocks s)\<rparr>" and n: "n = Run (DSub key (byte_len b))"
    using st Some by auto
  have u: "unat (byte_len b) = length b" using prev_small [OF ok room _ Some] by simp
  have held: "held_bytes s' + length b = held_bytes s"
    using hm_weight_remove [OF hm, of length key] Some by (simp add: held_bytes_def s')
  have "of_nat (held_bytes s') + byte_len b = (of_nat (held_bytes s) :: u64)"
    using arg_cong [OF held, of "of_nat :: nat \<Rightarrow> u64"] by simp
  then have "counter_exact (s', task_mset n + T)"
    using ok u by (simp add: race_ok_def counter_exact_def n s' algebra_simps)
  moreover have "\<forall>(k, b) \<in> set (blocks s'). length b \<le> max_block L"
    using ok set_hm_remove [of key "blocks s"] by (fastforce simp: race_ok_def s')
  ultimately show ?thesis
    using ok u held block_small [OF ok Some]
    by (simp add: race_ok_def n task_small_def) (simp add: s' hm_wf_remove)
qed

lemma task_step_keeps:
  assumes ok: "race_ok L (s, add_mset t T)" and room: "race_room L s" and st: "task_step t s = (s', n)"
  shows "race_ok L (s', task_mset n + T)"
proof (cases t)
  case (WCheckBudget key data)
  show ?thesis
    using st WCheckBudget ok admission_bound [OF ok [unfolded WCheckBudget] room]
    by (auto simp: race_ok_def counter_exact_def task_small_def not_less add_ac split: if_splits)
next
  case (WInsert key data)
  then show ?thesis using insert_keeps [OF ok [unfolded WInsert] room] st by blast
next
  case (DRemove key)
  then show ?thesis using remove_keeps [OF ok [unfolded DRemove] room] st by blast
qed (use ok st in \<open>auto simp: race_ok_def counter_exact_def task_small_def held_bytes_def algebra_simps
       split: option.splits if_splits\<close>)

lemma task_step_budget: "task_step t s = (s', n) \<Longrightarrow> ram_budget s' = ram_budget s"
  by (cases t) (auto split: option.splits)

lemma race_step_keeps:
  assumes "race_step L c c'" and "race_ok L c" and "race_room L (fst c)"
  shows "race_ok L c' \<and> ram_budget (fst c') = ram_budget (fst c)"
  using assms
proof (cases rule: race_step.cases)
  case (arrive x t T s)
  have "owed_insert t = 0" "owed_add t = 0" "owed_sub t = 0"
    using arrive(3) by (cases x; auto split: option.splits)+
  then show ?thesis
    using arrive assms(2) by (auto simp: race_ok_def counter_exact_def task_small_def)
next
  case (access t s s' t' T)
  then show ?thesis
    using task_step_keeps [of L s t T s' "Run t'"] task_step_budget [OF access(3)] assms by simp
next
  case (reply t s s' r T)
  then show ?thesis
    using task_step_keeps [of L s t T s' "Done r"] task_step_budget [OF reply(3)] assms by simp
qed

lemma race_run_keeps:
  assumes "(race_step L)\<^sup>*\<^sup>* (s, T) (s', T')" and "race_ok L (s, T)" and "race_room L s"
  shows "race_ok L (s', T') \<and> ram_budget s' = ram_budget s"
  using assms
proof (induction rule: rtranclp_induct2)
  case refl
  then show ?case by simp
next
  case (step s1 T1 s2 T2)
  then have "race_room L s1" by (simp add: race_room_def)
  then show ?case using race_step_keeps [OF step(2)] step by simp
qed

lemma race_ok_new: "race_ok L (store_new nid maddr budget, {#})"
  by (simp add: race_ok_def counter_exact_def store_new_def held_bytes_def hm_weight_def)

text \<open>A task may run to its end without interruption, and so may a whole request.\<close>

lemma run_task_races:
  "run_task n s = (s', r) \<Longrightarrow> (race_step L)\<^sup>*\<^sup>* (s, task_mset n + T) (s', T)"
proof (induction n s rule: run_task.induct)
  case (2 t s)
  obtain s1 n1 where st: "task_step t s = (s1, n1)" by fastforce
  have "race_step L (s, add_mset t T) (s1, task_mset n1 + T)"
    using st by (cases n1) (auto intro: race_step.intros)
  moreover have "(race_step L)\<^sup>*\<^sup>* (s1, task_mset n1 + T) (s', T)"
    using 2 st by simp
  ultimately show ?case by (simp add: converse_rtranclp_into_rtranclp)
qed simp

lemma request_races:
  assumes "run_task (task_of x) s = (s', r)" and "task_of x = Run t"
    and "length (task_data t) \<le> max_block L" and "0 < max_writers L" and "0 < max_deleters L"
  shows "(race_step L)\<^sup>*\<^sup>* (s, {#}) (s', {#})"
proof -
  have "race_step L (s, {#}) (s, {#t#})"
    using assms by (intro race_step.arrive) auto
  then show ?thesis
    using run_task_races [OF assms(1), of L "{#}"] assms(2) by (simp add: converse_rtranclp_into_rtranclp)
qed

section \<open>Properties\<close>

text \<open>
  C13. How far concurrent writers overrun the budget.  From an empty store, let WriteBlock
  and DeleteBlock requests arrive at any time and interleave their accesses in any order,
  with at most \<open>max_writers\<close> writes and \<open>max_deleters\<close> deletes in flight and blocks of
  at most \<open>max_block\<close> bytes, limits that leave room in 64 bits.  At every moment the bytes
  held are at most the budget plus \<open>max_writers - 1\<close> blocks, although the check of the
  budget and the insertion are not atomic and the counter itself may wrap in between.
\<close>

theorem racing_writes_overrun:
  assumes "(race_step L)\<^sup>*\<^sup>* (store_new nid maddr budget, {#}) (s, T)"
    and "unat budget + (2 * max_writers L + max_deleters L) * max_block L < 2 ^ 64"
  shows "held_bytes s \<le> unat budget + (max_writers L - 1) * max_block L"
proof -
  have "race_room L (store_new nid maddr budget)" using assms(2) by (simp add: race_room_def store_new_def)
  from race_run_keeps [OF assms(1) race_ok_new this] show ?thesis
    by (auto simp: race_ok_def store_new_def)
qed

text \<open>
  Two writes of two bytes each to a store of three bytes: both pass the check, both
  insert.  The overrun is one byte, within the one block the bound allows.
\<close>

definition race_sample :: "store_state \<times> store_task multiset" where
  "race_sample =
     (let k1 = proto_key_to_block_key (pkey 7 0 0);
          k2 = proto_key_to_block_key (pkey 7 1 0);
          s = store_new (NodeId ''a'') [] 3
      in (s\<lparr>blocks := hm_insert k2 [3, 4] (hm_insert k1 [1, 2] [])\<rparr>,
          {#WAdd k1 [1, 2] 0, WAdd k2 [3, 4] 0#}))"

abbreviation two_writers :: race_limits where
  "two_writers \<equiv> \<lparr> max_writers = 2, max_deleters = 1, max_block = 2 \<rparr>"

lemma race_sample_reached:
  "(race_step two_writers)\<^sup>*\<^sup>* (store_new (NodeId ''a'') [] 3, {#}) race_sample"
proof -
  let ?k1 = "proto_key_to_block_key (pkey 7 0 0)" and ?k2 = "proto_key_to_block_key (pkey 7 1 0)"
  let ?s = "store_new (NodeId ''a'') [] 3" and ?d1 = "[1, 2] :: bytes" and ?d2 = "[3, 4] :: bytes"
  let ?s1 = "?s\<lparr>blocks := hm_insert ?k1 ?d1 []\<rparr>"
  note run = converse_rtranclp_into_rtranclp [of "race_step two_writers"]
  have "race_step two_writers (?s, {#}) (?s, {#WCheckMark ?k1 ?d1#})"
    by (rule race_step.arrive [of "StWrite \<lparr> wb_key = Some (pkey 7 0 0), wb_data = ?d1 \<rparr>"]) simp_all
  moreover have "race_step two_writers (?s, {#WCheckMark ?k1 ?d1#}) (?s, {#WCheckMark ?k2 ?d2, WCheckMark ?k1 ?d1#})"
    by (rule race_step.arrive [of "StWrite \<lparr> wb_key = Some (pkey 7 1 0), wb_data = ?d2 \<rparr>"]) simp_all
  moreover have "race_step two_writers (?s, {#WCheckMark ?k2 ?d2, WCheckMark ?k1 ?d1#})
      (?s, {#WCheckBudget ?k2 ?d2, WCheckMark ?k1 ?d1#})"
    by (rule race_step.access) (simp add: store_new_def)
  moreover have "race_step two_writers (?s, {#WCheckBudget ?k2 ?d2, WCheckMark ?k1 ?d1#})
      (?s, {#WInsert ?k2 ?d2, WCheckMark ?k1 ?d1#})"
    by (rule race_step.access) (simp add: store_new_def)
  moreover have "race_step two_writers (?s, {#WCheckMark ?k1 ?d1, WInsert ?k2 ?d2#})
      (?s, {#WCheckBudget ?k1 ?d1, WInsert ?k2 ?d2#})"
    by (rule race_step.access) (simp add: store_new_def)
  moreover have "race_step two_writers (?s, {#WCheckBudget ?k1 ?d1, WInsert ?k2 ?d2#})
      (?s, {#WInsert ?k1 ?d1, WInsert ?k2 ?d2#})"
    by (rule race_step.access) (simp add: store_new_def)
  moreover have "race_step two_writers (?s, {#WInsert ?k1 ?d1, WInsert ?k2 ?d2#})
      (?s1, {#WAdd ?k1 ?d1 0, WInsert ?k2 ?d2#})"
    by (rule race_step.access) (simp add: store_new_def)
  moreover have "race_step two_writers (?s1, {#WInsert ?k2 ?d2, WAdd ?k1 ?d1 0#}) race_sample"
    unfolding race_sample_def Let_def
    using race_step.access [of "WInsert ?k2 ?d2" ?s1 _ "WAdd ?k2 ?d2 0" two_writers "{#WAdd ?k1 ?d1 0#}"]
    by (simp add: store_new_def add_mset_commute)
  ultimately show ?thesis
    by (simp add: run add_mset_commute)
qed

theorem racing_writes_overrun_witness:
  "held_bytes (fst race_sample) = 4 \<and> (4 :: nat) > unat (3 :: u64) \<and> (4 :: nat) \<le> unat (3 :: u64) + 2"
proof -
  have "held_bytes (fst race_sample) = 4"
    by (simp add: race_sample_def Let_def held_bytes_def hm_weight_def hm_insert_def)
  moreover have "held_bytes (fst race_sample) \<le> unat (3 :: u64) + (2 - 1) * 2"
    using racing_writes_overrun [of two_writers "NodeId ''a''" "[]" 3 "fst race_sample" "snd race_sample"]
      race_sample_reached by simp
  ultimately show ?thesis by simp
qed

text \<open>
  C27. The counter is right whenever nothing is in flight.  After any interleaving of
  WriteBlock and DeleteBlock requests that has come to rest, \<^verbatim>\<open>ram_used\<close> is exactly the
  number of bytes held: no interleaving of the atomic updates loses or doubles one.
\<close>

theorem counter_exact_at_rest:
  assumes "(race_step L)\<^sup>*\<^sup>* (store_new nid maddr budget, {#}) (s, {#})"
    and "unat budget + (2 * max_writers L + max_deleters L) * max_block L < 2 ^ 64"
  shows "unat (ram_used s) = held_bytes s"
proof -
  have "race_room L (store_new nid maddr budget)" using assms(2) by (simp add: race_room_def store_new_def)
  from race_run_keeps [OF assms(1) race_ok_new this]
  have used: "ram_used s = of_nat (held_bytes s)"
    and le: "held_bytes s \<le> unat budget + (max_writers L - 1) * max_block L"
    by (auto simp: race_ok_def counter_exact_def store_new_def)
  have "(max_writers L - 1) * max_block L \<le> (2 * max_writers L + max_deleters L) * max_block L"
    by (intro mult_le_mono1) simp
  then have "held_bytes s < 2 ^ 64" using le assms(2) by linarith
  then show ?thesis using used by (simp add: unat_of_nat_u64)
qed

theorem counter_exact_at_rest_witness:
  "unat (ram_used (fst (store_write_block \<lparr> wb_key = Some (pkey 7 0 0), wb_data = [1, 2] \<rparr>
     (store_new (NodeId ''a'') [] 3)))) = 2"
proof -
  let ?x = "StWrite \<lparr> wb_key = Some (pkey 7 0 0), wb_data = [1, 2] \<rparr>" and ?s = "store_new (NodeId ''a'') [] 3"
  let ?s' = "write_commit (proto_key_to_block_key (pkey 7 0 0)) [1, 2] ?s"
  have adm: "write_admit (proto_key_to_block_key (pkey 7 0 0)) [1, 2] ?s = Ok ()"
    by (simp add: write_admit_def store_new_def)
  have "run_task (task_of ?x) ?s = (?s', Ok (Wrote (ucast (byte_len [1, 2]))))"
    using adm by (simp add: run_write del: run_task.simps)
  then have "(race_step two_writers)\<^sup>*\<^sup>* (?s, {#}) (?s', {#})"
    by (rule request_races [where t = "WCheckMark (proto_key_to_block_key (pkey 7 0 0)) [1, 2]"]) simp_all
  then have "unat (ram_used ?s') = held_bytes ?s'"
    by (rule counter_exact_at_rest) simp
  moreover have "held_bytes ?s' = 2"
    by (simp add: held_bytes_def hm_weight_def hm_insert_def store_new_def)
  ultimately show ?thesis using adm by (simp add: store_write_block_def)
qed

text \<open>
  The counter wraps when a delete overtakes the write it undoes: the block is inserted,
  removed and taken off the counter before the write has added it.  Until the write
  resumes, \<^verbatim>\<open>ram_used\<close> is close to \<open>2 ^ 64\<close> on a store that holds nothing, and a
  write of a single byte is refused for lack of memory.
\<close>

definition wrapped_sample :: "store_state \<times> store_task multiset" where
  "wrapped_sample =
     (let k = proto_key_to_block_key (pkey 7 0 0)
      in ((store_new (NodeId ''a'') [] 3)\<lparr>ram_used := 0 - 2\<rparr>, {#WAdd k [1, 2] 0, DMark k#}))"

lemma wrapped_sample_reached:
  "(race_step two_writers)\<^sup>*\<^sup>* (store_new (NodeId ''a'') [] 3, {#}) wrapped_sample"
proof -
  let ?k = "proto_key_to_block_key (pkey 7 0 0)" and ?d = "[1, 2] :: bytes"
  let ?s = "store_new (NodeId ''a'') [] 3" and ?L = two_writers
  let ?s1 = "?s\<lparr>blocks := hm_insert ?k ?d []\<rparr>"
  note run = converse_rtranclp_into_rtranclp [of "race_step two_writers"]
  have "race_step ?L (?s, {#}) (?s, {#WCheckMark ?k ?d#})"
    by (rule race_step.arrive [of "StWrite \<lparr> wb_key = Some (pkey 7 0 0), wb_data = ?d \<rparr>"]) simp_all
  moreover have "race_step ?L (?s, {#WCheckMark ?k ?d#}) (?s, {#WCheckBudget ?k ?d#})"
    by (rule race_step.access) (simp add: store_new_def)
  moreover have "race_step ?L (?s, {#WCheckBudget ?k ?d#}) (?s, {#WInsert ?k ?d#})"
    by (rule race_step.access) (simp add: store_new_def)
  moreover have "race_step ?L (?s, {#WInsert ?k ?d#}) (?s1, {#WAdd ?k ?d 0#})"
    by (rule race_step.access) (simp add: store_new_def)
  moreover have "race_step ?L (?s1, {#WAdd ?k ?d 0#}) (?s1, {#DRemove ?k, WAdd ?k ?d 0#})"
    by (rule race_step.arrive [of "StDelete (Some (pkey 7 0 0))"]) simp_all
  moreover have "race_step ?L (?s1, {#DRemove ?k, WAdd ?k ?d 0#}) (?s, {#DSub ?k 2, WAdd ?k ?d 0#})"
    by (rule race_step.access) (simp add: store_new_def hm_get_def hm_insert_def hm_remove_def)
  moreover have "race_step ?L (?s, {#DSub ?k 2, WAdd ?k ?d 0#}) wrapped_sample"
    unfolding wrapped_sample_def Let_def
    using race_step.access [of "DSub ?k 2" ?s _ "DMark ?k" ?L "{#WAdd ?k ?d 0#}"]
    by (simp add: store_new_def add_mset_commute)
  ultimately show ?thesis by (simp add: run)
qed

theorem delete_wraps_counter:
  "\<exists>s T. (race_step two_writers)\<^sup>*\<^sup>* (store_new (NodeId ''a'') [] 3, {#}) (s, T)
     \<and> held_bytes s = 0 \<and> unat (ram_used s) = 2 ^ 64 - 2
     \<and> store_write_block \<lparr> wb_key = Some (pkey 9 0 0), wb_data = [5] \<rparr> s
         = (s, Err (st_resource_exhausted ''ram budget exceeded''))"
  using wrapped_sample_reached
  by (intro exI [of _ "fst wrapped_sample"] exI [of _ "snd wrapped_sample"])
    (simp add: wrapped_sample_def Let_def held_bytes_def hm_weight_def store_new_def
      store_write_block_def write_admit_def)

end
