(* ===== verification/Placement.thy ===== *)
theory Placement
  imports Ids
begin

text \<open>
  \<^verbatim>\<open>dtmpfs-common/src/hash.rs\<close>: rendezvous (highest random weight) placement.
  \<^verbatim>\<open>xxh3_64_with_seed\<close> is a function of a third-party crate and is the parameter
  \<open>xxh3\<close>.  The Rust code sorts with \<^verbatim>\<open>sort_unstable_by\<close>, which leaves the order
  of equal scores open: the facts below are proved in the locale \<open>desc_sort\<close> from
  what any such sort promises, and the model's own sort is one interpretation of it.
\<close>

fun insert_desc :: "'a::linorder \<times> 'b \<Rightarrow> ('a \<times> 'b) list \<Rightarrow> ('a \<times> 'b) list" where
  "insert_desc x [] = [x]"
| "insert_desc x (y # ys) = (if fst y \<le> fst x then x # y # ys else y # insert_desc x ys)"

definition sort_unstable_desc :: "('a::linorder \<times> 'b) list \<Rightarrow> ('a \<times> 'b) list" where
  "sort_unstable_desc xs = foldr insert_desc xs []"

definition hrw_score :: "(string \<Rightarrow> u64 \<Rightarrow> u64) \<Rightarrow> block_key \<Rightarrow> node_id \<Rightarrow> u64" where
  "hrw_score xxh3 key n =
     (let pk = placement_key key;
          lo = ucast pk;
          hi = ucast (drop_bit 64 pk)
      in xxh3 (as_str n) lo XOR xxh3 (as_str n) hi)"

definition pick_nodes ::
  "(string \<Rightarrow> u64 \<Rightarrow> u64) \<Rightarrow> block_key \<Rightarrow> node_id list \<Rightarrow> nat \<Rightarrow> node_id list" where
  "pick_nodes xxh3 key nodes r =
     (if nodes = [] then []
      else
        let r = min r (length nodes);
            scored = map (\<lambda>n. (hrw_score xxh3 key n, n)) nodes
        in map snd (take r (sort_unstable_desc scored)))"

section \<open>Any sort by descending score\<close>

lemma filter_take_prefix:
  "filter P (take r xs) = take (length (filter P (take r xs))) (filter P xs)"
proof -
  have "filter P xs = filter P (take r xs) @ filter P (drop r xs)"
    by (simp flip: filter_append)
  then show ?thesis by simp
qed

lemma set_filter_take_subset: "set (filter P (take r xs)) \<subseteq> set (take r (filter P xs))"
proof -
  have "length (filter P (take r xs)) \<le> r"
    by (metis le_trans length_filter_le length_take min.cobounded2)
  then show ?thesis
    by (subst filter_take_prefix) (rule set_take_subset_set_take)
qed

locale desc_sort =
  fixes srt :: "('k::linorder \<times> 'v) list \<Rightarrow> ('k \<times> 'v) list"
  assumes mset_srt: "mset (srt xs) = mset xs"
    and sorted_srt: "sorted_wrt (\<lambda>a b. fst b \<le> fst a) (srt xs)"
begin

lemma set_srt: "set (srt xs) = set xs"
  using mset_srt by (rule mset_eq_setD)

lemma length_srt: "length (srt xs) = length xs"
  using mset_srt by (rule mset_eq_length)

lemma distinct_map_srt: "distinct (map f (srt xs)) \<longleftrightarrow> distinct (map f xs)"
  by (metis mset_srt mset_map mset_eq_imp_distinct_iff)

lemma top_r_dominates:
  assumes "a \<in> set (take r (srt xs))" and "b \<in> set (drop r (srt xs))"
  shows "fst b \<le> fst a"
proof -
  have "sorted_wrt (\<lambda>a b. fst b \<le> fst a) (take r (srt xs) @ drop r (srt xs))"
    using sorted_srt by simp
  with assms show ?thesis
    unfolding sorted_wrt_append by blast
qed

lemma srt_unique:
  assumes ys: "sorted_wrt (\<lambda>a b. fst b \<le> fst a) ys"
    and same: "mset ys = mset xs"
    and keys: "distinct (map fst xs)"
  shows "ys = srt xs"
proof -
  have desc: "sorted (rev (map fst zs))"
    if "sorted_wrt (\<lambda>a b. fst b \<le> fst a) zs" for zs :: "('k \<times> 'v) list"
    using that by (simp add: rev_map sorted_wrt_map sorted_wrt_rev)
  have "mset (rev (map fst ys)) = mset (rev (map fst (srt xs)))"
    by (simp add: mset_srt same)
  from properties_for_sort [OF this desc [OF ys]]
  have "rev (map fst ys) = sort (rev (map fst (srt xs)))"
    by (rule sym)
  also have "\<dots> = rev (map fst (srt xs))"
    by (rule sorted_sort_id [OF desc [OF sorted_srt]])
  finally have "map fst ys = map fst (srt xs)"
    by (simp only: rev_is_rev_conv)
  moreover have "set ys = set (srt xs)"
    using mset_eq_setD [OF same] by (simp only: set_srt)
  moreover have "distinct (map fst (srt xs))"
    using keys by (simp add: distinct_map_srt)
  ultimately show ?thesis
    by (intro map_inj_on [where f = fst]) (simp_all add: distinct_map)
qed

lemma srt_perm:
  "mset xs = mset ys \<Longrightarrow> distinct (map fst xs) \<Longrightarrow> srt xs = srt ys"
  by (metis mset_srt sorted_srt srt_unique mset_map mset_eq_imp_distinct_iff)

lemma srt_filter:
  assumes "distinct (map fst xs)"
  shows "srt (filter P xs) = filter P (srt xs)"
proof (rule srt_unique [symmetric])
  show "sorted_wrt (\<lambda>a b. fst b \<le> fst a) (filter P (srt xs))"
    by (rule sorted_wrt_filter [OF sorted_srt])
  show "mset (filter P (srt xs)) = mset (filter P xs)"
    by (simp add: mset_srt)
  show "distinct (map fst (filter P xs))"
    using assms by (rule distinct_map_filter)
qed

text \<open>Dropping candidates never evicts a surviving winner.\<close>

lemma survivors_stay:
  assumes "distinct (map fst xs)"
  shows "set (filter P (take r (srt xs))) \<subseteq> set (take r (srt (filter P xs)))"
  using set_filter_take_subset by (simp add: srt_filter [OF assms])

lemma losers_irrelevant:
  assumes keys: "distinct (map fst xs)" and win: "\<And>x. x \<in> set (take r (srt xs)) \<Longrightarrow> P x"
  shows "take r (srt (filter P xs)) = take r (srt xs)"
proof (cases "r \<le> length xs")
  case True
  have "filter P (srt xs) = take r (srt xs) @ filter P (drop r (srt xs))"
    using win by (metis append_take_drop_id filter_True filter_append)
  with True show ?thesis
    by (simp add: srt_filter [OF keys] length_srt)
next
  case False
  then have "filter P (srt xs) = srt xs"
    using win by (simp add: length_srt)
  then show ?thesis by (simp add: srt_filter [OF keys])
qed

end

section \<open>The model's sort\<close>

lemma mset_insert_desc: "mset (insert_desc x ys) = add_mset x (mset ys)"
  by (induction ys) auto

lemma sorted_insert_desc:
  "sorted_wrt (\<lambda>a b. fst b \<le> fst a) ys \<Longrightarrow> sorted_wrt (\<lambda>a b. fst b \<le> fst a) (insert_desc x ys)"
proof (induction ys)
  case Nil
  then show ?case by simp
next
  case (Cons y ys)
  have "set (insert_desc x ys) = insert x (set ys)"
    by (metis mset_insert_desc set_mset_mset set_mset_add_mset_insert)
  with Cons show ?case by fastforce
qed

interpretation us: desc_sort sort_unstable_desc
proof
  fix xs :: "('k::linorder \<times> 'v) list"
  show "mset (sort_unstable_desc xs) = mset xs"
    by (induction xs) (simp_all add: sort_unstable_desc_def mset_insert_desc)
  show "sorted_wrt (\<lambda>a b. fst b \<le> fst a) (sort_unstable_desc xs)"
    by (induction xs) (simp_all add: sort_unstable_desc_def sorted_insert_desc)
qed

section \<open>Placement lemmas\<close>

abbreviation scored :: "(string \<Rightarrow> u64 \<Rightarrow> u64) \<Rightarrow> block_key \<Rightarrow> node_id list \<Rightarrow> (u64 \<times> node_id) list"
  where "scored xxh3 key nodes \<equiv> map (\<lambda>n. (hrw_score xxh3 key n, n)) nodes"

lemma pick_nodes_eq:
  "pick_nodes xxh3 key nodes r = map snd (take r (sort_unstable_desc (scored xxh3 key nodes)))"
proof (cases "r \<le> length nodes")
  case True
  then show ?thesis by (simp add: pick_nodes_def Let_def sort_unstable_desc_def)
next
  case False
  then have "take (length nodes) (sort_unstable_desc (scored xxh3 key nodes)) =
      take r (sort_unstable_desc (scored xxh3 key nodes))"
    by (simp add: us.length_srt)
  with False show ?thesis by (simp add: pick_nodes_def Let_def min_absorb2 sort_unstable_desc_def)
qed

lemma hrw_score_eq:
  "hrw_score xxh3 key n =
     xxh3 (as_str n) (raw_idx (bk_block_idx key)) XOR xxh3 (as_str n) (raw (bk_ino key))"
  by (simp add: hrw_score_def Let_def placement_key_lo placement_key_hi)

lemma map_snd_sorted_scored:
  "mset (map snd (sort_unstable_desc (scored xxh3 key nodes))) = mset nodes"
  by (simp add: us.mset_srt multiset.map_comp comp_def)

lemma distinct_scores:
  "distinct nodes \<Longrightarrow> inj_on (hrw_score xxh3 key) (set nodes)
     \<Longrightarrow> distinct (map fst (scored xxh3 key nodes))"
  by (simp add: distinct_map comp_def)

lemma filter_scored:
  "filter (\<lambda>x. P (snd x)) (scored xxh3 key nodes) = scored xxh3 key (filter P nodes)"
  by (simp add: filter_map comp_def)

lemma pick_nodes_subset: "set (pick_nodes xxh3 key nodes r) \<subseteq> set nodes"
proof -
  have "set (map snd (sort_unstable_desc (scored xxh3 key nodes))) = set nodes"
    using map_snd_sorted_scored by (rule mset_eq_setD)
  then show ?thesis
    by (auto simp: pick_nodes_eq dest!: in_set_takeD)
qed

lemma pick_nodes_length: "length (pick_nodes xxh3 key nodes r) = min r (length nodes)"
  by (simp add: pick_nodes_eq us.length_srt min.commute)

lemma pick_nodes_distinct:
  assumes "distinct nodes"
  shows "distinct (pick_nodes xxh3 key nodes r)"
proof -
  have "distinct (map snd (sort_unstable_desc (scored xxh3 key nodes)))"
    using assms mset_eq_imp_distinct_iff [OF map_snd_sorted_scored] by blast
  then show ?thesis
    unfolding pick_nodes_eq take_map [symmetric] by (rule distinct_take)
qed

lemma pick_nodes_Nil_iff: "pick_nodes xxh3 key nodes r = [] \<longleftrightarrow> nodes = [] \<or> r = 0"
  using pick_nodes_length [of xxh3 key nodes r] by (auto simp: min_def split: if_splits)

lemma set_pick_nodes: "set (pick_nodes xxh3 key nodes r) = snd ` set (take r (sort_unstable_desc (scored xxh3 key nodes)))"
  by (simp add: pick_nodes_eq)

lemma fst_in_sorted_scored:
  "x \<in> set (sort_unstable_desc (scored xxh3 key nodes)) \<Longrightarrow> fst x = hrw_score xxh3 key (snd x) \<and> snd x \<in> set nodes"
  by (auto simp: us.set_srt)

lemma pick_nodes_score_order:
  "sorted_wrt (\<lambda>a b. hrw_score xxh3 key b \<le> hrw_score xxh3 key a) (pick_nodes xxh3 key nodes r)"
proof -
  let ?t = "take r (sort_unstable_desc (scored xxh3 key nodes))"
  have score: "fst x = hrw_score xxh3 key (snd x)" if "x \<in> set ?t" for x
    using fst_in_sorted_scored [OF in_set_takeD [OF that]] by simp
  have "sorted_wrt (\<lambda>a b. hrw_score xxh3 key (snd b) \<le> hrw_score xxh3 key (snd a)) ?t"
  proof (rule sorted_wrt_mono_rel [OF _ sorted_wrt_take [OF us.sorted_srt]])
    fix x y
    assume "x \<in> set ?t" and "y \<in> set ?t" and "fst y \<le> fst x"
    then show "hrw_score xxh3 key (snd y) \<le> hrw_score xxh3 key (snd x)"
      by (simp only: score)
  qed
  then show ?thesis by (simp add: pick_nodes_eq sorted_wrt_map)
qed

section \<open>Properties of the placement\<close>

text \<open>
  C17. Placement picks the highest scores.  For distinct candidates, \<^verbatim>\<open>pick_nodes\<close>
  returns \<open>min r n\<close> distinct candidates in descending score order, and no candidate
  left out has a higher score than one that was chosen.
\<close>

theorem pick_nodes_highest:
  assumes "distinct nodes"
  shows "length (pick_nodes xxh3 key nodes r) = min r (length nodes)
    \<and> distinct (pick_nodes xxh3 key nodes r) \<and> set (pick_nodes xxh3 key nodes r) \<subseteq> set nodes
    \<and> sorted_wrt (\<lambda>a b. hrw_score xxh3 key b \<le> hrw_score xxh3 key a) (pick_nodes xxh3 key nodes r)
    \<and> (\<forall>n \<in> set (pick_nodes xxh3 key nodes r). \<forall>m \<in> set nodes - set (pick_nodes xxh3 key nodes r).
          hrw_score xxh3 key m \<le> hrw_score xxh3 key n)"
proof (intro conjI ballI)
  fix n m
  assume n: "n \<in> set (pick_nodes xxh3 key nodes r)"
    and m: "m \<in> set nodes - set (pick_nodes xxh3 key nodes r)"
  let ?L = "sort_unstable_desc (scored xxh3 key nodes)"
  obtain x where x: "x \<in> set (take r ?L)" "snd x = n" using n by (auto simp: set_pick_nodes)
  have "(hrw_score xxh3 key m, m) \<in> set ?L" using m by (auto simp: us.set_srt)
  moreover have "(hrw_score xxh3 key m, m) \<notin> set (take r ?L)" using m by (force simp: set_pick_nodes)
  moreover have "set ?L = set (take r ?L) \<union> set (drop r ?L)"
    unfolding set_append [symmetric] append_take_drop_id ..
  ultimately have "(hrw_score xxh3 key m, m) \<in> set (drop r ?L)"
    by blast
  from us.top_r_dominates [OF x(1) this] show "hrw_score xxh3 key m \<le> hrw_score xxh3 key n"
    using fst_in_sorted_scored [OF in_set_takeD [OF x(1)]] x(2) by simp
qed (simp_all add: pick_nodes_length pick_nodes_distinct [OF assms] pick_nodes_subset pick_nodes_score_order)

theorem pick_nodes_highest_witness:
  "distinct [NodeId ''a'', NodeId ''bb'']
   \<and> length (pick_nodes (\<lambda>s d. of_nat (length s) * d)
        \<lparr> bk_ino = InodeId 1, bk_block_idx = BlockIdx 0, bk_generation = Generation 0 \<rparr>
        [NodeId ''a'', NodeId ''bb''] 1) = 1"
  using pick_nodes_highest [of "[NodeId ''a'', NodeId ''bb'']" "\<lambda>s d. of_nat (length s) * d"
      "\<lparr> bk_ino = InodeId 1, bk_block_idx = BlockIdx 0, bk_generation = Generation 0 \<rparr>" 1] by simp

text \<open>
  C34. Minimal disruption, where no two candidates have the same score for the block.
  When some candidates go away, every chosen node that is still there stays chosen; if
  none of the chosen nodes went away, the choice and its order do not change at all.  The
  condition on the scores is needed: the sort is unstable, so among nodes of equal score
  the choice may change with the list, and a block whose index equals its inode number
  has score 0 on every node.
\<close>

theorem pick_nodes_minimal_disruption:
  assumes "distinct nodes" and "inj_on (hrw_score xxh3 key) (set nodes)"
  shows "{n \<in> set (pick_nodes xxh3 key nodes r). alive n} \<subseteq> set (pick_nodes xxh3 key (filter alive nodes) r)
    \<and> ((\<forall>n \<in> set (pick_nodes xxh3 key nodes r). alive n)
         \<longrightarrow> pick_nodes xxh3 key (filter alive nodes) r = pick_nodes xxh3 key nodes r)"
proof (intro conjI impI)
  note keys = distinct_scores [OF assms]
  have "set (filter (\<lambda>x. alive (snd x)) (take r (sort_unstable_desc (scored xxh3 key nodes))))
      \<subseteq> set (take r (sort_unstable_desc (scored xxh3 key (filter alive nodes))))"
    using us.survivors_stay [OF keys, of "\<lambda>x. alive (snd x)" r] by (simp add: filter_scored)
  then show "{n \<in> set (pick_nodes xxh3 key nodes r). alive n} \<subseteq> set (pick_nodes xxh3 key (filter alive nodes) r)"
    by (auto simp: set_pick_nodes)
  assume "\<forall>n \<in> set (pick_nodes xxh3 key nodes r). alive n"
  then show "pick_nodes xxh3 key (filter alive nodes) r = pick_nodes xxh3 key nodes r"
    using us.losers_irrelevant [OF keys, of r "\<lambda>x. alive (snd x)"]
    by (simp add: set_pick_nodes pick_nodes_eq filter_scored)
qed

theorem pick_nodes_minimal_disruption_witness:
  "inj_on (hrw_score (\<lambda>s d. of_nat (length s) * d)
       \<lparr> bk_ino = InodeId 1, bk_block_idx = BlockIdx 0, bk_generation = Generation 0 \<rparr>)
     (set [NodeId ''a'', NodeId ''bb'', NodeId ''ccc''])
   \<and> pick_nodes (\<lambda>s d. of_nat (length s) * d)
       \<lparr> bk_ino = InodeId 1, bk_block_idx = BlockIdx 0, bk_generation = Generation 0 \<rparr>
       (filter (\<lambda>n. n \<noteq> NodeId ''a'') [NodeId ''a'', NodeId ''bb'', NodeId ''ccc'']) 1
     = [NodeId ''ccc'']"
proof -
  let ?x = "\<lambda>s d. of_nat (length s) * d :: u64"
  let ?k = "\<lparr> bk_ino = InodeId 1, bk_block_idx = BlockIdx 0, bk_generation = Generation 0 \<rparr>"
  let ?ns = "[NodeId ''a'', NodeId ''bb'', NodeId ''ccc'']"
  have inj: "inj_on (hrw_score ?x ?k) (set ?ns)" by (simp add: hrw_score_eq)
  have "pick_nodes ?x ?k ?ns 1 = [NodeId ''ccc'']"
    by (simp add: pick_nodes_eq hrw_score_eq sort_unstable_desc_def word_le_nat_alt)
  then show ?thesis
    using pick_nodes_minimal_disruption [OF _ inj, of 1 "\<lambda>n. n \<noteq> NodeId ''a''"] inj by simp
qed

text \<open>
  The order in which the candidates are listed does not matter when their scores
  differ: two listings of the same nodes give the same placement.  The metadata server
  lists them from a hash map, whose order is arbitrary.
\<close>

theorem pick_nodes_order_independent:
  assumes "mset nodes = mset nodes'" and "distinct nodes" and "inj_on (hrw_score xxh3 key) (set nodes)"
  shows "pick_nodes xxh3 key nodes r = pick_nodes xxh3 key nodes' r"
proof -
  have "mset (scored xxh3 key nodes) = mset (scored xxh3 key nodes')"
    using assms(1) by simp
  from us.srt_perm [OF this distinct_scores [OF assms(2,3)]] show ?thesis
    by (simp add: pick_nodes_eq)
qed

theorem pick_nodes_order_independent_witness:
  "pick_nodes (\<lambda>s d. of_nat (length s) * d)
       \<lparr> bk_ino = InodeId 1, bk_block_idx = BlockIdx 0, bk_generation = Generation 0 \<rparr>
       [NodeId ''a'', NodeId ''bb''] 2
   = pick_nodes (\<lambda>s d. of_nat (length s) * d)
       \<lparr> bk_ino = InodeId 1, bk_block_idx = BlockIdx 0, bk_generation = Generation 0 \<rparr>
       [NodeId ''bb'', NodeId ''a''] 2"
  by (rule pick_nodes_order_independent) (simp_all add: hrw_score_eq)

text \<open>
  The placement of a block is that of its inode and index alone: the generation does
  not enter.  But the score combines the two seeds by exclusive or, so exchanging inode
  number and block index gives the same scores, and a block whose index equals its
  inode number gives every node the score zero: its placement is decided by the order
  of the candidate list alone.
\<close>

theorem hrw_score_symmetric:
  "pick_nodes xxh3 (key\<lparr>bk_generation := g\<rparr>) nodes r = pick_nodes xxh3 key nodes r
   \<and> hrw_score xxh3 \<lparr> bk_ino = InodeId a, bk_block_idx = BlockIdx b, bk_generation = g \<rparr> n
       = hrw_score xxh3 \<lparr> bk_ino = InodeId b, bk_block_idx = BlockIdx a, bk_generation = g \<rparr> n
   \<and> hrw_score xxh3 \<lparr> bk_ino = InodeId a, bk_block_idx = BlockIdx a, bk_generation = g \<rparr> n = 0"
  by (simp add: pick_nodes_eq hrw_score_eq xor.commute)

end
