(* ===== verification/Meta_State.thy ===== *)
theory Meta_State
  imports Proto Placement
begin

text \<open>
  \<^verbatim>\<open>dtmpfs-meta/src/state.rs\<close>: the metadata server's state, its allocators, the
  block allocator over the live nodes, the attribute message, and one tick of the
  heartbeat watcher.  \<open>nodes\<close> and \<open>last_heartbeat\<close> are iterated by the code and are
  hash maps with an iteration order; the other hash maps are only looked up.
\<close>

datatype node_status = Up | Down

record node_info =
  ni_node_id :: node_id
  ni_addr :: string
  ni_ram_used :: u64
  ni_ram_total :: u64
  ni_status :: node_status

record inode =
  i_ino :: inode_id
  i_kind :: inode_kind
  i_mode :: u32
  i_uid :: u32
  i_gid :: u32
  i_size :: u64
  i_nlink :: u32
  i_atime :: system_time
  i_mtime :: system_time
  i_ctime :: system_time
  i_generation :: generation
  i_blocks :: "(block_idx, block_placement) btree"
  i_symlink_target :: "string option"

record open_handle_st =
  oh_fh :: u64
  oh_ino :: inode_id
  oh_flags :: i32
  oh_generation_at_open :: generation

type_synonym dir = "(string, inode_id) btree"

record meta_state =
  inodes :: "inode_id \<rightharpoonup> inode"
  dirs :: "inode_id \<rightharpoonup> dir"
  next_ino :: u64
  open_handles :: "u64 \<rightharpoonup> open_handle_st"
  next_fh :: u64
  nodes :: "(node_id, node_info) hmap"
  last_heartbeat :: "(node_id, instant) hmap"
  replication_factor :: nat

definition root_inode :: "system_time \<Rightarrow> inode" where
  "root_inode now = \<lparr> i_ino = ROOT, i_kind = Dir, i_mode = 16877, i_uid = 0, i_gid = 0,
     i_size = 4096, i_nlink = 2, i_atime = now, i_mtime = now, i_ctime = now,
     i_generation = Generation 0, i_blocks = [], i_symlink_target = None \<rparr>"

definition meta_new :: "system_time \<Rightarrow> nat \<Rightarrow> meta_state" where
  "meta_new now rf = \<lparr> inodes = [ROOT \<mapsto> root_inode now], dirs = [ROOT \<mapsto> []], next_ino = 2,
     open_handles = Map.empty, next_fh = 1, nodes = [], last_heartbeat = [],
     replication_factor = rf \<rparr>"

definition alloc_ino :: "meta_state \<Rightarrow> inode_id \<times> meta_state" where
  "alloc_ino s = (InodeId (next_ino s), s\<lparr>next_ino := next_ino s + 1\<rparr>)"

definition alloc_fh :: "meta_state \<Rightarrow> u64 \<times> meta_state" where
  "alloc_fh s = (next_fh s, s\<lparr>next_fh := next_fh s + 1\<rparr>)"

definition live_nodes :: "meta_state \<Rightarrow> node_id list" where
  "live_nodes s = map ni_node_id (filter (\<lambda>n. ni_status n = Up) (map snd (nodes s)))"

definition place_block ::
  "(string \<Rightarrow> u64 \<Rightarrow> u64) \<Rightarrow> node_id list \<Rightarrow> nat \<Rightarrow> inode_id \<Rightarrow> block_idx \<Rightarrow> block_placement" where
  "place_block xxh3 live r ino idx =
     (let key = \<lparr> bk_ino = ino, bk_block_idx = idx, bk_generation = Generation 0 \<rparr>;
          chosen = pick_nodes xxh3 key live r
      in \<lparr> primary = (case chosen of [] \<Rightarrow> NodeId ''?'' | n # _ \<Rightarrow> n),
           replicas = drop 1 chosen \<rparr>)"

definition state_allocate_blocks ::
  "(string \<Rightarrow> u64 \<Rightarrow> u64) \<Rightarrow> inode_id \<Rightarrow> block_idx list \<Rightarrow> meta_state
     \<Rightarrow> (block_idx \<times> block_placement) list" where
  "state_allocate_blocks xxh3 ino idxs s =
     (let live = live_nodes s; r = replication_factor s
      in map (\<lambda>idx. (idx, place_block xxh3 live r ino idx)) idxs)"

text \<open>Seconds and nanoseconds since the epoch; times before the epoch give zero.\<close>

definition time_parts :: "system_time \<Rightarrow> i64 \<times> u32" where
  "time_parts t = (let d = nat t in
     (of_nat (d div nanos_per_sec), of_nat (d mod nanos_per_sec)))"

definition build_attr :: "inode \<Rightarrow> attr" where
  "build_attr n =
     (let (at_s, at_ns) = time_parts (i_atime n);
          (mt_s, mt_ns) = time_parts (i_mtime n);
          (ct_s, ct_ns) = time_parts (i_ctime n)
      in \<lparr> at_ino = raw (i_ino n), at_size = i_size n, at_blocks = of_nat (length (i_blocks n)),
           at_generation = raw_gen (i_generation n), at_mode = i_mode n, at_nlink = i_nlink n,
           at_uid = i_uid n, at_gid = i_gid n, at_atime_s = at_s, at_atime_ns = at_ns,
           at_mtime_s = mt_s, at_mtime_ns = mt_ns, at_ctime_s = ct_s, at_ctime_ns = ct_ns \<rparr>)"

definition mark_down :: "node_id \<Rightarrow> (node_id, node_info) hmap \<Rightarrow> (node_id, node_info) hmap" where
  "mark_down nid m = (case hm_get m nid of
       None \<Rightarrow> m
     | Some ni \<Rightarrow> if ni_status ni \<noteq> Down then hm_insert nid (ni\<lparr>ni_status := Down\<rparr>) m else m)"

definition heartbeat_tick :: "instant \<Rightarrow> duration \<Rightarrow> meta_state \<Rightarrow> meta_state" where
  "heartbeat_tick now dead_after s =
     (let downs = map fst (filter (\<lambda>(nid, last). now - last > dead_after) (last_heartbeat s))
      in s\<lparr>nodes := fold mark_down downs (nodes s)\<rparr>)"

section \<open>Node liveness\<close>

lemma hm_get_mark_down:
  "hm_get (mark_down nid m) n =
     (if n = nid then map_option (\<lambda>ni. ni\<lparr>ni_status := Down\<rparr>) (hm_get m n) else hm_get m n)"
proof (cases "hm_get m nid")
  case None
  then show ?thesis by (simp add: mark_down_def)
next
  case (Some ni)
  have "ni\<lparr>ni_status := Down\<rparr> = ni" if "ni_status ni = Down"
    using that by simp
  with Some show ?thesis by (simp add: mark_down_def)
qed

lemma hm_wf_mark_down: "hm_wf m \<Longrightarrow> hm_wf (mark_down nid m)"
  by (auto simp: mark_down_def hm_wf_insert split: option.splits)

lemma hm_get_mark_downs:
  "hm_get (fold mark_down ids m) n =
     (if n \<in> set ids then map_option (\<lambda>ni. ni\<lparr>ni_status := Down\<rparr>) (hm_get m n)
      else hm_get m n)"
proof (induction ids arbitrary: m)
  case Nil
  show ?case by simp
next
  case (Cons a ids)
  show ?case
    unfolding fold_Cons comp_def Cons.IH hm_get_mark_down
    by (cases "n = a"; cases "hm_get m n") simp_all
qed

lemma hm_wf_mark_downs: "hm_wf m \<Longrightarrow> hm_wf (fold mark_down ids m)"
  by (induction ids arbitrary: m) (simp_all add: hm_wf_mark_down)

text \<open>
  The node table is well formed when both hash maps have distinct keys, every entry is
  filed under its own id, and every registered node has a recorded heartbeat.
\<close>

definition nodes_wf :: "meta_state \<Rightarrow> bool" where
  "nodes_wf s \<longleftrightarrow> hm_wf (nodes s) \<and> hm_wf (last_heartbeat s)
     \<and> (\<forall>nid ni. hm_get (nodes s) nid = Some ni \<longrightarrow> ni_node_id ni = nid)
     \<and> (\<forall>nid. hm_get (nodes s) nid = None \<longleftrightarrow> hm_get (last_heartbeat s) nid = None)"

lemma live_nodes_iff:
  assumes "nodes_wf s"
  shows "nid \<in> set (live_nodes s) \<longleftrightarrow> (\<exists>ni. hm_get (nodes s) nid = Some ni \<and> ni_status ni = Up)"
proof -
  have wf: "hm_wf (nodes s)"
    and ids: "\<And>k ni. hm_get (nodes s) k = Some ni \<Longrightarrow> ni_node_id ni = k"
    using assms by (simp_all add: nodes_wf_def)
  have vals: "snd ` set (nodes s) = {ni. \<exists>k. (k, ni) \<in> set (nodes s)}"
    by force
  show ?thesis
    unfolding live_nodes_def set_map set_filter vals
    unfolding hm_get_iff [OF wf, symmetric] using ids by blast
qed

lemma live_nodes_distinct:
  assumes "nodes_wf s"
  shows "distinct (live_nodes s)"
proof -
  have wf: "hm_wf (nodes s)" and ids: "\<And>nid ni. hm_get (nodes s) nid = Some ni \<Longrightarrow> ni_node_id ni = nid"
    using assms by (auto simp: nodes_wf_def)
  have "map ni_node_id (map snd (nodes s)) = map fst (nodes s)"
    using ids by (auto simp: hm_get_iff [OF wf])
  moreover have "distinct (map fst (nodes s))"
    using wf by (simp add: hm_wf_def)
  ultimately have "distinct (map ni_node_id (map snd (nodes s)))"
    by (simp only:)
  then show ?thesis
    unfolding live_nodes_def by (rule distinct_map_filter)
qed

lemma heartbeat_tick_frame [simp]:
  "inodes (heartbeat_tick now d s) = inodes s" "dirs (heartbeat_tick now d s) = dirs s"
  "next_ino (heartbeat_tick now d s) = next_ino s"
  "open_handles (heartbeat_tick now d s) = open_handles s"
  "next_fh (heartbeat_tick now d s) = next_fh s"
  "last_heartbeat (heartbeat_tick now d s) = last_heartbeat s"
  "replication_factor (heartbeat_tick now d s) = replication_factor s"
  by (simp_all add: heartbeat_tick_def Let_def)

lemma heartbeat_tick_get:
  assumes "nodes_wf s"
  shows "hm_get (nodes (heartbeat_tick now d s)) nid =
    (case hm_get (nodes s) nid of
       None \<Rightarrow> None
     | Some ni \<Rightarrow>
         if now - the (hm_get (last_heartbeat s) nid) > d then Some (ni\<lparr>ni_status := Down\<rparr>)
         else Some ni)"
proof -
  have hb: "(nid, last) \<in> set (last_heartbeat s) \<longleftrightarrow> hm_get (last_heartbeat s) nid = Some last" for last
    using assms by (simp add: nodes_wf_def hm_get_iff)
  have both: "hm_get (nodes s) nid = None \<longleftrightarrow> hm_get (last_heartbeat s) nid = None"
    using assms by (simp add: nodes_wf_def)
  have "nid \<in> set (map fst (filter (\<lambda>(nid, last). now - last > d) (last_heartbeat s)))
      \<longleftrightarrow> (\<exists>last. hm_get (last_heartbeat s) nid = Some last \<and> now - last > d)"
    by (force simp: hb)
  with both show ?thesis
    by (auto simp: heartbeat_tick_def Let_def hm_get_mark_downs split: option.splits)
qed

lemma heartbeat_tick_nodes_wf: "nodes_wf s \<Longrightarrow> nodes_wf (heartbeat_tick now d s)"
proof -
  assume wf: "nodes_wf s"
  then have "hm_wf (nodes (heartbeat_tick now d s))"
    by (simp add: heartbeat_tick_def Let_def nodes_wf_def hm_wf_mark_downs)
  with wf show ?thesis
    unfolding nodes_wf_def heartbeat_tick_get [OF wf]
    by (auto split: option.splits if_splits) (metis option.exhaust_sel option.distinct(1))
qed

section \<open>Block placement\<close>

lemma place_block_nodes:
  assumes "live \<noteq> []" and "r > 0"
  shows "primary (place_block xxh3 live r ino idx) # replicas (place_block xxh3 live r ino idx)
    = pick_nodes xxh3 \<lparr> bk_ino = ino, bk_block_idx = idx, bk_generation = g \<rparr> live r"
proof -
  have gen: "pick_nodes xxh3 \<lparr> bk_ino = ino, bk_block_idx = idx, bk_generation = g \<rparr> live r
      = pick_nodes xxh3 \<lparr> bk_ino = ino, bk_block_idx = idx, bk_generation = Generation 0 \<rparr> live r"
    by (simp add: pick_nodes_eq hrw_score_eq)
  have "pick_nodes xxh3 \<lparr> bk_ino = ino, bk_block_idx = idx, bk_generation = g \<rparr> live r \<noteq> []"
    using assms by (simp add: pick_nodes_Nil_iff)
  then show ?thesis
    unfolding place_block_def Let_def gen by (simp split: list.splits)
qed

lemma place_block_no_live:
  "place_block xxh3 [] r ino idx = \<lparr> primary = NodeId ''?'', replicas = [] \<rparr>"
  by (simp add: place_block_def pick_nodes_def)

end
