(* ===== verification/Utf8.thy ===== *)
theory Utf8
  imports Prelude
begin

text \<open>
  UTF-8 validation as \<^verbatim>\<open>String::from_utf8\<close> of the Rust standard library performs it
  (the well-formed byte sequences of the Unicode standard: no overlong forms, no
  surrogates, nothing above U+10FFFF).  A byte string is a list of characters, each
  one byte.
\<close>

definition utf8_cont :: "char \<Rightarrow> bool" where
  "utf8_cont c \<longleftrightarrow> 128 \<le> (of_char c :: nat) \<and> (of_char c :: nat) < 192"

definition utf8_second :: "nat \<Rightarrow> char \<Rightarrow> bool" where
  "utf8_second b c \<longleftrightarrow>
     (let n = (of_char c :: nat) in
      if b = 224 then 160 \<le> n \<and> n < 192
      else if b = 237 then 128 \<le> n \<and> n < 160
      else if b = 240 then 144 \<le> n \<and> n < 192
      else if b = 244 then 128 \<le> n \<and> n < 144
      else utf8_cont c)"

fun valid_utf8 :: "string \<Rightarrow> bool" where
  "valid_utf8 [] \<longleftrightarrow> True"
| "valid_utf8 (c # cs) \<longleftrightarrow>
     (let b = (of_char c :: nat) in
      if b < 128 then valid_utf8 cs
      else if 194 \<le> b \<and> b \<le> 223 then
        (case cs of c1 # cs1 \<Rightarrow> utf8_cont c1 \<and> valid_utf8 cs1 | _ \<Rightarrow> False)
      else if 224 \<le> b \<and> b \<le> 239 then
        (case cs of c1 # c2 # cs2 \<Rightarrow> utf8_second b c1 \<and> utf8_cont c2 \<and> valid_utf8 cs2
         | _ \<Rightarrow> False)
      else if 240 \<le> b \<and> b \<le> 244 then
        (case cs of c1 # c2 # c3 # cs3 \<Rightarrow>
           utf8_second b c1 \<and> utf8_cont c2 \<and> utf8_cont c3 \<and> valid_utf8 cs3
         | _ \<Rightarrow> False)
      else False)"

definition from_utf8 :: "string \<Rightarrow> string option" where
  "from_utf8 s = (if valid_utf8 s then Some s else None)"

definition ascii :: "string \<Rightarrow> bool" where
  "ascii s \<longleftrightarrow> (\<forall>c \<in> set s. (of_char c :: nat) < 128)"

lemma ascii_valid_utf8: "ascii s \<Longrightarrow> valid_utf8 s"
  by (induction s) (auto simp: ascii_def Let_def)

lemma from_utf8_valid [simp]: "valid_utf8 s \<Longrightarrow> from_utf8 s = Some s"
  by (simp add: from_utf8_def)

lemma from_utf8_Some: "from_utf8 s = Some t \<Longrightarrow> t = s \<and> valid_utf8 t"
  by (auto simp: from_utf8_def split: if_splits)

text \<open>
  \<^verbatim>\<open>OsStr::to_string_lossy\<close>: every maximal piece that does not continue a well formed
  sequence is replaced by U+FFFD.
\<close>

definition replacement :: string where
  "replacement = map char_of [239 :: nat, 191, 189]"

fun to_string_lossy :: "string \<Rightarrow> string" where
  "to_string_lossy [] = []"
| "to_string_lossy (c # cs) =
     (let b = (of_char c :: nat) in
      if b < 128 then c # to_string_lossy cs
      else if 194 \<le> b \<and> b \<le> 223 then
        (case cs of
           c1 # cs1 \<Rightarrow> if utf8_cont c1 then c # c1 # to_string_lossy cs1 else replacement @ to_string_lossy cs
         | [] \<Rightarrow> replacement)
      else if 224 \<le> b \<and> b \<le> 239 then
        (case cs of
           c1 # cs1 \<Rightarrow>
             if utf8_second b c1 then
               (case cs1 of
                  c2 # cs2 \<Rightarrow> if utf8_cont c2 then c # c1 # c2 # to_string_lossy cs2 else replacement @ to_string_lossy cs1
                | [] \<Rightarrow> replacement)
             else replacement @ to_string_lossy cs
         | [] \<Rightarrow> replacement)
      else if 240 \<le> b \<and> b \<le> 244 then
        (case cs of
           c1 # cs1 \<Rightarrow>
             if utf8_second b c1 then
               (case cs1 of
                  c2 # cs2 \<Rightarrow>
                    if utf8_cont c2 then
                      (case cs2 of
                         c3 # cs3 \<Rightarrow> if utf8_cont c3 then c # c1 # c2 # c3 # to_string_lossy cs3
                           else replacement @ to_string_lossy cs2
                       | [] \<Rightarrow> replacement)
                    else replacement @ to_string_lossy cs1
                | [] \<Rightarrow> replacement)
             else replacement @ to_string_lossy cs
         | [] \<Rightarrow> replacement)
      else replacement @ to_string_lossy cs)"

lemma valid_utf8_replacement: "valid_utf8 (replacement @ s) \<longleftrightarrow> valid_utf8 s"
  by (simp add: replacement_def Let_def utf8_second_def utf8_cont_def)

lemma utf8_lead_cases:
  obtains "b < (128 :: nat)" | "194 \<le> b" "b \<le> 223" | "224 \<le> b" "b \<le> 239"
  | "240 \<le> b" "b \<le> 244" | "128 \<le> b" "b < 194 \<or> 244 < b"
  by linarith

lemmas lossy_Cons = to_string_lossy.simps(2)
lemmas valid_Cons = valid_utf8.simps(2)

lemma lossy_valid: "valid_utf8 (to_string_lossy s)"
proof (induction s rule: length_induct)
  case (1 s)
  have r: "valid_utf8 replacement" using valid_utf8_replacement [of "[]"] by simp
  show ?case
  proof (cases s)
    case (Cons c cs)
    note IH = 1 [unfolded Cons, rule_format]
    note step = lossy_Cons [of c cs]
    show ?thesis
    proof (cases "of_char c :: nat" rule: utf8_lead_cases)
      case 1
      then show ?thesis unfolding Cons step using IH by (simp del: lossy_Cons)
    next
      case 2
      then show ?thesis unfolding Cons step using IH r
        by (cases cs) (simp_all add: valid_utf8_replacement del: lossy_Cons)
    next
      case 3
      then show ?thesis unfolding Cons step using IH r
        by (cases cs; cases "tl cs") (simp_all add: valid_utf8_replacement del: lossy_Cons)
    next
      case 4
      then show ?thesis unfolding Cons step using IH r
        by (cases cs; cases "tl cs"; cases "tl (tl cs)") (simp_all add: valid_utf8_replacement del: lossy_Cons)
    next
      case 5
      then show ?thesis unfolding Cons step using IH r by (auto simp: valid_utf8_replacement simp del: lossy_Cons)
    qed
  qed simp
qed

lemma lossy_id: "valid_utf8 s \<Longrightarrow> to_string_lossy s = s"
proof (induction s rule: length_induct)
  case (1 s)
  show ?case
  proof (cases s)
    case (Cons c cs)
    note IH = 1(1) [unfolded Cons, rule_format]
    note v = 1(2) [unfolded Cons, unfolded valid_Cons [of c cs]]
    note step = lossy_Cons [of c cs]
    show ?thesis
    proof (cases "of_char c :: nat" rule: utf8_lead_cases)
      case 1
      then show ?thesis unfolding Cons step using IH v by (simp del: lossy_Cons valid_Cons)
    next
      case 2
      then show ?thesis unfolding Cons step using IH v by (cases cs) (simp_all del: lossy_Cons valid_Cons)
    next
      case 3
      then show ?thesis unfolding Cons step using IH v by (cases cs; cases "tl cs") (simp_all del: lossy_Cons valid_Cons)
    next
      case 4
      then show ?thesis unfolding Cons step using IH v
        by (cases cs; cases "tl cs"; cases "tl (tl cs)") (simp_all del: lossy_Cons valid_Cons)
    next
      case 5
      then show ?thesis unfolding Cons step using v by (auto simp del: lossy_Cons valid_Cons)
    qed
  qed simp
qed

end
