(* ===== verification/Meta_Service.thy ===== *)
theory Meta_Service
  imports Meta_State Utf8
begin

text \<open>
  \<^verbatim>\<open>dtmpfs-meta/src/service.rs\<close>: the fourteen RPC handlers of the metadata server.
  A handler maps the request and the state under the lock to the new state, the delete
  tasks it spawns, and the reply; a handler that takes only the read lock returns the
  reply alone.  \<^verbatim>\<open>SystemTime::now()\<close> and \<^verbatim>\<open>Instant::now()\<close> are the argument
  \<open>now\<close>.  A state change made before an error return or a panic stays, as it does in
  the code: the lock is not poisoned and nothing is rolled back.
\<close>

type_synonym 'a reply = "('a, status) result"

section \<open>Helpers of the service\<close>

text \<open>
  What \<^verbatim>\<open>fire_delete_blocks\<close> hands to \<^verbatim>\<open>tokio::spawn\<close>: the variables its async
  block captures.  The task later connects to the address and sends
  \<^verbatim>\<open>DeleteBlock\<close> for the key with generation 0.
\<close>

record delete_task =
  dt_addr :: string
  dt_ino :: inode_id
  dt_idx :: block_idx
  dt_token :: string

definition fire_delete_blocks ::
  "(block_idx \<times> block_placement) list \<Rightarrow> (node_id, string) hmap \<Rightarrow> inode_id \<Rightarrow> string
     \<Rightarrow> delete_task list" where
  "fire_delete_blocks blocks node_addrs ino token =
     concat (map (\<lambda>(idx, placement).
       concat (map (\<lambda>nid. case hm_get node_addrs nid of
           None \<Rightarrow> []
         | Some addr \<Rightarrow> [\<lparr> dt_addr = addr, dt_ino = ino, dt_idx = idx, dt_token = token \<rparr>])
         (primary placement # replicas placement))) blocks)"

definition node_addrs_of :: "meta_state \<Rightarrow> (node_id, string) hmap" where
  "node_addrs_of s = hm_collect (map (\<lambda>n. (ni_node_id n, ''http://'' @ ni_addr n)) (map snd (nodes s)))"

definition placement_to_block_loc :: "block_idx \<Rightarrow> block_placement \<Rightarrow> block_loc" where
  "placement_to_block_loc idx p = \<lparr> bl_block_idx = raw_idx idx, bl_primary = as_str (primary p),
     bl_replicas = map as_str (replicas p) \<rparr>"

definition not_found :: status where
  "not_found = st_not_found ''inode not found''"

fun kind_u32 :: "inode_kind \<Rightarrow> u32" where
  "kind_u32 File = 1"
| "kind_u32 Dir = 2"
| "kind_u32 Symlink = 3"

definition node_info_to_proto :: "node_info \<Rightarrow> proto_node_info" where
  "node_info_to_proto ni = \<lparr> pn_node_id = as_str (ni_node_id ni), pn_addr = ni_addr ni,
     pn_status = (case ni_status ni of Up \<Rightarrow> PUp | Down \<Rightarrow> PDown),
     pn_used_bytes = ni_ram_used ni, pn_capacity_bytes = ni_ram_total ni,
     pn_last_heartbeat_s = 0 \<rparr>"

text \<open>
  \<open>entry s p n\<close> is \<^verbatim>\<open>s.dirs.get(&p).and_then(|d| d.get(&n)).copied()\<close>,
  \<open>with_dir\<close> a mutation behind \<^verbatim>\<open>s.dirs.get_mut(&p)\<close>, \<open>modify_inode\<close> one
  behind \<^verbatim>\<open>if let Some(i) = s.inodes.get_mut(&p)\<close>.
\<close>

definition entry :: "meta_state \<Rightarrow> inode_id \<Rightarrow> string \<Rightarrow> inode_id option" where
  "entry s p n = (case dirs s p of None \<Rightarrow> None | Some d \<Rightarrow> bt_get d n)"

definition with_dir :: "inode_id \<Rightarrow> (dir \<Rightarrow> dir) \<Rightarrow> meta_state \<Rightarrow> meta_state option" where
  "with_dir p f s = (case dirs s p of None \<Rightarrow> None | Some d \<Rightarrow> Some (s\<lparr>dirs := (dirs s)(p \<mapsto> f d)\<rparr>))"

definition put_inode :: "inode_id \<Rightarrow> inode \<Rightarrow> meta_state \<Rightarrow> meta_state" where
  "put_inode i n s = s\<lparr>inodes := (inodes s)(i \<mapsto> n)\<rparr>"

definition remove_inode :: "inode_id \<Rightarrow> meta_state \<Rightarrow> meta_state" where
  "remove_inode i s = s\<lparr>inodes := (inodes s)(i := None)\<rparr>"

definition modify_inode :: "inode_id \<Rightarrow> (inode \<Rightarrow> inode) \<Rightarrow> meta_state \<Rightarrow> meta_state" where
  "modify_inode i f s = (case inodes s i of None \<Rightarrow> s | Some n \<Rightarrow> put_inode i (f n) s)"

definition nlink_dec :: "inode \<Rightarrow> inode" where
  "nlink_dec n = n\<lparr>i_nlink := saturating_sub (i_nlink n) 1\<rparr>"

definition nlink_inc :: "inode \<Rightarrow> inode" where
  "nlink_inc n = n\<lparr>i_nlink := i_nlink n + 1\<rparr>"

section \<open>Lookup and attributes\<close>

definition meta_lookup :: "lookup_req \<Rightarrow> meta_state \<Rightarrow> attr option reply" where
  "meta_lookup r s =
     (case entry s (InodeId (lk_parent_ino r)) (lk_name r) of
        None \<Rightarrow> Err not_found
      | Some child_ino \<Rightarrow>
          (case inodes s child_ino of
             None \<Rightarrow> Err not_found
           | Some n \<Rightarrow> Ok (Some (build_attr n))))"

definition meta_get_attr :: "u64 \<Rightarrow> meta_state \<Rightarrow> attr reply" where
  "meta_get_attr ino s =
     (case inodes s (InodeId ino) of None \<Rightarrow> Err not_found | Some n \<Rightarrow> Ok (build_attr n))"

text \<open>\<^verbatim>\<open>if let Some(v) = r.f { inode.f = v }\<close>\<close>

definition set_opt :: "'a option \<Rightarrow> ('a \<Rightarrow> 'b \<Rightarrow> 'b) \<Rightarrow> 'b \<Rightarrow> 'b" where
  "set_opt v upd n = (case v of None \<Rightarrow> n | Some x \<Rightarrow> upd x n)"

text \<open>The time an optional field asks for: \<open>None\<close> when the clock addition panics.\<close>

definition set_time :: "i64 option \<Rightarrow> u32 option \<Rightarrow> (system_time \<Rightarrow> inode \<Rightarrow> inode) \<Rightarrow> inode \<Rightarrow> inode option"
where
  "set_time sec ns upd n = (case sec of
      None \<Rightarrow> Some n
    | Some s_val \<Rightarrow>
        (case unix_time s_val (unwrap_or ns 0) of None \<Rightarrow> None | Some t \<Rightarrow> Some (upd t n)))"

definition meta_block_size :: u64 where
  "meta_block_size = push_bit 20 1"

definition truncate_last_idx :: "u64 \<Rightarrow> u64" where
  "truncate_last_idx new_size =
     (if new_size = 0 then 0 else (new_size - 1) div meta_block_size)"

definition set_size :: "u64 \<Rightarrow> inode \<Rightarrow> inode \<times> (block_idx \<times> block_placement) list" where
  "set_size new_size n =
     (if new_size < i_size n then
        let last_idx = truncate_last_idx new_size;
            dropped = filter (\<lambda>(k, v). raw_idx k > last_idx) (i_blocks n);
            n' = n\<lparr>i_blocks := bt_retain (\<lambda>k. raw_idx k \<le> last_idx) (i_blocks n)\<rparr>
        in (n'\<lparr>i_size := new_size\<rparr>, dropped)
      else (n\<lparr>i_size := new_size\<rparr>, []))"

definition meta_set_attr ::
  "string \<Rightarrow> system_time \<Rightarrow> set_attr_req \<Rightarrow> meta_state
     \<Rightarrow> meta_state \<times> delete_task list \<times> attr option reply" where
  "meta_set_attr token now r s =
     (let ino = InodeId (sa_ino r) in
      case inodes s ino of
        None \<Rightarrow> (s, [], Err not_found)
      | Some n0 \<Rightarrow>
          let n1 = set_opt (sa_mode r) (\<lambda>v n. n\<lparr>i_mode := v\<rparr>) n0;
              n2 = set_opt (sa_uid r) (\<lambda>v n. n\<lparr>i_uid := v\<rparr>) n1;
              n3 = set_opt (sa_gid r) (\<lambda>v n. n\<lparr>i_gid := v\<rparr>) n2
          in case set_time (sa_atime_s r) (sa_atime_ns r) (\<lambda>t n. n\<lparr>i_atime := t\<rparr>) n3 of
               None \<Rightarrow> (put_inode ino n3 s, [], Panic)
             | Some n4 \<Rightarrow>
                 (case set_time (sa_mtime_s r) (sa_mtime_ns r) (\<lambda>t n. n\<lparr>i_mtime := t\<rparr>) n4 of
                    None \<Rightarrow> (put_inode ino n4 s, [], Panic)
                  | Some n5 \<Rightarrow>
                      let (n6, dropped) =
                            (case sa_size r of None \<Rightarrow> (n5, []) | Some sz \<Rightarrow> set_size sz n5);
                          n7 = n6\<lparr>i_ctime := now\<rparr>;
                          s' = put_inode ino n7 s;
                          tasks = (if dropped = [] then []
                                   else fire_delete_blocks dropped (node_addrs_of s') ino token)
                      in (s', tasks, Ok (Some (build_attr n7)))))"

section \<open>Creating and removing entries\<close>

definition new_file_inode :: "system_time \<Rightarrow> inode_id \<Rightarrow> create_req \<Rightarrow> inode" where
  "new_file_inode now ino r = \<lparr> i_ino = ino, i_kind = File,
     i_mode = 32768 OR (cr_mode r AND 4095), i_uid = cr_uid r, i_gid = cr_gid r,
     i_size = 0, i_nlink = 1, i_atime = now, i_mtime = now, i_ctime = now,
     i_generation = Generation 0, i_blocks = [], i_symlink_target = None \<rparr>"

definition meta_create ::
  "system_time \<Rightarrow> create_req \<Rightarrow> meta_state \<Rightarrow> meta_state \<times> create_resp reply" where
  "meta_create now r s =
     (let parent_ino = InodeId (cr_parent_ino r) in
      case dirs s parent_ino of
        None \<Rightarrow> (s, Err (st_not_found ''parent not found''))
      | Some dir \<Rightarrow>
          if bt_contains dir (cr_name r) then (s, Err (st_already_exists ''entry already exists''))
          else
            let (ino, s1) = alloc_ino s;
                n = new_file_inode now ino r;
                s2 = put_inode ino n s1
            in case with_dir parent_ino (bt_insert (cr_name r) ino) s2 of
                 None \<Rightarrow> (s2, Panic)
               | Some s3 \<Rightarrow>
                   let (fh, s4) = alloc_fh s3;
                       h = \<lparr> oh_fh = fh, oh_ino = ino, oh_flags = 0,
                             oh_generation_at_open = Generation 0 \<rparr>
                   in (s4\<lparr>open_handles := (open_handles s4)(fh \<mapsto> h)\<rparr>,
                       Ok \<lparr> crr_attr = Some (build_attr n), crr_fh = fh, crr_block_map = [] \<rparr>))"

definition new_dir_inode :: "system_time \<Rightarrow> inode_id \<Rightarrow> mkdir_req \<Rightarrow> inode" where
  "new_dir_inode now ino r = \<lparr> i_ino = ino, i_kind = Dir,
     i_mode = 16384 OR (mk_mode r AND 4095), i_uid = mk_uid r, i_gid = mk_gid r,
     i_size = 4096, i_nlink = 2, i_atime = now, i_mtime = now, i_ctime = now,
     i_generation = Generation 0, i_blocks = [], i_symlink_target = None \<rparr>"

definition meta_mkdir ::
  "system_time \<Rightarrow> mkdir_req \<Rightarrow> meta_state \<Rightarrow> meta_state \<times> attr reply" where
  "meta_mkdir now r s =
     (let parent_ino = InodeId (mk_parent_ino r) in
      case dirs s parent_ino of
        None \<Rightarrow> (s, Err (st_not_found ''parent not found''))
      | Some dir \<Rightarrow>
          if bt_contains dir (mk_name r) then (s, Err (st_already_exists ''entry already exists''))
          else
            let (ino, s1) = alloc_ino s;
                n = new_dir_inode now ino r;
                s2 = put_inode ino n s1;
                s3 = s2\<lparr>dirs := (dirs s2)(ino \<mapsto> [])\<rparr>
            in case with_dir parent_ino (bt_insert (mk_name r) ino) s3 of
                 None \<Rightarrow> (s3, Panic)
               | Some s4 \<Rightarrow> (modify_inode parent_ino nlink_inc s4, Ok (build_attr n)))"

definition meta_unlink ::
  "string \<Rightarrow> unlink_req \<Rightarrow> meta_state \<Rightarrow> meta_state \<times> delete_task list \<times> unit reply" where
  "meta_unlink token r s =
     (let parent_ino = InodeId (ul_parent_ino r) in
      case entry s parent_ino (ul_name r) of
        None \<Rightarrow> (s, [], Err not_found)
      | Some child_ino \<Rightarrow>
          (case inodes s child_ino of
             None \<Rightarrow> (s, [], Err not_found)
           | Some n \<Rightarrow>
               if i_kind n = Dir then (s, [], Err (st_invalid_argument ''is a directory''))
               else
                 let file_blocks = i_blocks n in
                 case with_dir parent_ino (bt_remove (ul_name r)) s of
                   None \<Rightarrow> (s, [], Panic)
                 | Some s1 \<Rightarrow>
                     let s2 = remove_inode child_ino s1;
                         tasks = (if file_blocks = [] then []
                                  else fire_delete_blocks file_blocks (node_addrs_of s2)
                                         child_ino token)
                     in (s2, tasks, Ok ())))"

definition meta_rmdir :: "rmdir_req \<Rightarrow> meta_state \<Rightarrow> meta_state \<times> unit reply" where
  "meta_rmdir r s =
     (let parent_ino = InodeId (rd_parent_ino r) in
      case entry s parent_ino (rd_name r) of
        None \<Rightarrow> (s, Err not_found)
      | Some child_ino \<Rightarrow>
          (case dirs s child_ino of
             None \<Rightarrow> (s, Err (st_invalid_argument ''not a directory''))
           | Some child_dir \<Rightarrow>
               if child_dir \<noteq> [] then (s, Err (st_failed_precondition ''directory not empty''))
               else
                 let s1 = s\<lparr>dirs := (dirs s)(child_ino := None)\<rparr>;
                     s2 = remove_inode child_ino s1
                 in case with_dir parent_ino (bt_remove (rd_name r)) s2 of
                      None \<Rightarrow> (s2, Panic)
                    | Some s3 \<Rightarrow> (modify_inode parent_ino nlink_dec s3, Ok ())))"

text \<open>
  \<^verbatim>\<open>rename\<close> first removes an existing destination: \<open>rename_drop_dst\<close> is that part
  of the handler, with the blocks to delete and the inode they belong to as its value.
\<close>

definition rename_finish_dst ::
  "inode_id \<Rightarrow> string \<Rightarrow> inode_id \<Rightarrow> 'a \<Rightarrow> meta_state \<Rightarrow> meta_state \<times> 'a reply" where
  "rename_finish_dst dst_parent dst_name dst_ino v s =
     (let s1 = remove_inode dst_ino s in
      case with_dir dst_parent (bt_remove dst_name) s1 of
        None \<Rightarrow> (s1, Panic)
      | Some s2 \<Rightarrow> (s2, Ok v))"

definition rename_drop_dst ::
  "inode_id \<Rightarrow> string \<Rightarrow> meta_state
     \<Rightarrow> meta_state \<times> ((block_idx \<times> block_placement) list \<times> inode_id option) reply" where
  "rename_drop_dst dst_parent dst_name s =
     (case entry s dst_parent dst_name of
        None \<Rightarrow> (s, Ok ([], None))
      | Some dst_ino \<Rightarrow>
          (case inodes s dst_ino of
             None \<Rightarrow> (s, Err not_found)
           | Some n \<Rightarrow>
               (case i_kind n of
                  Dir \<Rightarrow>
                    if \<not> (case dirs s dst_ino of None \<Rightarrow> True | Some d \<Rightarrow> d = [])
                    then (s, Err (st_failed_precondition ''destination directory not empty''))
                    else
                      let s1 = s\<lparr>dirs := (dirs s)(dst_ino := None)\<rparr>;
                          s2 = modify_inode dst_parent nlink_dec s1
                      in rename_finish_dst dst_parent dst_name dst_ino ([], None) s2
                | File \<Rightarrow>
                    rename_finish_dst dst_parent dst_name dst_ino (i_blocks n, Some dst_ino) s
                | Symlink \<Rightarrow>
                    rename_finish_dst dst_parent dst_name dst_ino ([], None) s)))"

definition meta_rename ::
  "string \<Rightarrow> rename_req \<Rightarrow> meta_state \<Rightarrow> meta_state \<times> delete_task list \<times> unit reply" where
  "meta_rename token r s =
     (let src_parent = InodeId (rn_src_parent_ino r);
          dst_parent = InodeId (rn_dst_parent_ino r)
      in case entry s src_parent (rn_src_name r) of
        None \<Rightarrow> (s, [], Err not_found)
      | Some src_ino \<Rightarrow>
          (case rename_drop_dst dst_parent (rn_dst_name r) s of
             (s1, Err e) \<Rightarrow> (s1, [], Err e)
           | (s1, Panic) \<Rightarrow> (s1, [], Panic)
           | (s1, Ok (dst_file_blocks, dst_file_ino)) \<Rightarrow>
               (case with_dir src_parent (bt_remove (rn_src_name r)) s1 of
                  None \<Rightarrow> (s1, [], Panic)
                | Some s2 \<Rightarrow>
                    (case with_dir dst_parent (bt_insert (rn_dst_name r) src_ino) s2 of
                       None \<Rightarrow> (s2, [], Err (st_not_found ''dst parent not found''))
                     | Some s3 \<Rightarrow>
                         let s4 =
                               (if map_option i_kind (inodes s3 src_ino) = Some Dir
                                   \<and> src_parent \<noteq> dst_parent
                                then modify_inode dst_parent nlink_inc
                                       (modify_inode src_parent nlink_dec s3)
                                else s3);
                             tasks =
                               (if dst_file_blocks = [] then []
                                else case dst_file_ino of
                                       None \<Rightarrow> []
                                     | Some ino \<Rightarrow> fire_delete_blocks dst_file_blocks
                                                     (node_addrs_of s4) ino token)
                         in (s4, tasks, Ok ())))))"

section \<open>Reading directories\<close>

definition usize_max :: nat where
  "usize_max = 2 ^ 64 - 1"

definition dir_entry_of :: "meta_state \<Rightarrow> string \<times> inode_id \<Rightarrow> dir_entry" where
  "dir_entry_of s e = \<lparr> de_name = fst e, de_ino = raw (snd e),
     de_kind = kind_u32 (unwrap_or (map_option i_kind (inodes s (snd e))) File) \<rparr>"

definition meta_read_dir :: "read_dir_req \<Rightarrow> meta_state \<Rightarrow> read_dir_resp reply" where
  "meta_read_dir r s =
     (case dirs s (InodeId (rq_ino r)) of
        None \<Rightarrow> Err (st_not_found ''directory not found'')
      | Some dir \<Rightarrow>
          let cookie_str = unwrap_or (from_utf8 (rq_cookie r)) [];
              mx = (if rq_max_entries r = 0 then usize_max else unat (rq_max_entries r));
              it = (if cookie_str = [] then dir else bt_after cookie_str dir);
              entries = map (dir_entry_of s) (take mx it);
              eof = length entries < mx;
              next_cookie = (if entries = [] then [] else de_name (last entries))
          in Ok \<lparr> rr_entries = entries, rr_next_cookie = next_cookie, rr_eof = eof \<rparr>)"

section \<open>Open handles\<close>

text \<open>
  \<^verbatim>\<open>open\<close> reads under the read lock, releases it, and registers the handle under the
  write lock.  The two critical sections are separate definitions, because another
  handler may run between them; \<open>meta_open\<close> runs them back to back.
\<close>

definition open_read :: "open_req \<Rightarrow> meta_state \<Rightarrow> (attr \<times> generation \<times> block_loc list) reply" where
  "open_read r s =
     (case inodes s (InodeId (op_ino r)) of
        None \<Rightarrow> Err not_found
      | Some n \<Rightarrow>
          if i_kind n \<noteq> File then Err (st_invalid_argument ''not a file'')
          else Ok (build_attr n, i_generation n,
                   map (\<lambda>(idx, p). placement_to_block_loc idx p) (i_blocks n)))"

definition open_register :: "open_req \<Rightarrow> generation \<Rightarrow> meta_state \<Rightarrow> u64 \<times> meta_state" where
  "open_register r g s =
     (let (fh, s1) = alloc_fh s;
          h = \<lparr> oh_fh = fh, oh_ino = InodeId (op_ino r), oh_flags = op_flags r,
                oh_generation_at_open = g \<rparr>
      in (fh, s1\<lparr>open_handles := (open_handles s1)(fh \<mapsto> h)\<rparr>))"

definition meta_open :: "open_req \<Rightarrow> meta_state \<Rightarrow> meta_state \<times> open_resp reply" where
  "meta_open r s =
     (case open_read r s of
        Err e \<Rightarrow> (s, Err e)
      | Panic \<Rightarrow> (s, Panic)
      | Ok (a, g, block_map) \<Rightarrow>
          let (fh, s') = open_register r g s
          in (s', Ok \<lparr> opr_attr = Some a, opr_fh = fh, opr_block_map = block_map \<rparr>))"

definition close_apply ::
  "system_time \<Rightarrow> system_time \<Rightarrow> close_req \<Rightarrow> inode \<Rightarrow> inode" where
  "close_apply now new_mtime r n = n\<lparr>i_generation := bump (i_generation n),
     i_size := cl_new_size r, i_mtime := new_mtime, i_ctime := now\<rparr>"

definition meta_close ::
  "system_time \<Rightarrow> close_req \<Rightarrow> meta_state \<Rightarrow> meta_state \<times> attr option reply" where
  "meta_close now r s =
     (case open_handles s (cl_fh r) of
        None \<Rightarrow> (s, Err (st_not_found ''file handle not found''))
      | Some handle \<Rightarrow>
          let s1 = s\<lparr>open_handles := (open_handles s)(cl_fh r := None)\<rparr>;
              ino = oh_ino handle
          in case inodes s1 ino of
               None \<Rightarrow> (s1, Err not_found)
             | Some n \<Rightarrow>
                 if cl_written_block_idxs r = [] then (s1, Ok (Some (build_attr n)))
                 else if i_generation n \<noteq> Generation (cl_expected_generation r)
                 then (s1, Err (st_failed_precondition ''generation mismatch''))
                 else
                   (case (unix_time (cl_mtime_s r) (cl_mtime_ns r),
                          time_sub now (60 * nanos_per_sec)) of
                      (Some req_mtime, Some floor) \<Rightarrow>
                        let n' = close_apply now (max req_mtime floor) r n
                        in (put_inode ino n' s1, Ok (Some (build_attr n')))
                    | _ \<Rightarrow> (s1, Panic)))"

section \<open>Blocks and nodes\<close>

text \<open>
  One round of the loop of \<^verbatim>\<open>allocate_blocks\<close>.  The \<^verbatim>\<open>unwrap\<close> in it cannot
  fail: the handler has looked the inode up under the same lock, and no round removes it.
\<close>

definition alloc_step ::
  "(string \<Rightarrow> u64 \<Rightarrow> u64) \<Rightarrow> inode_id \<Rightarrow> block_idx \<Rightarrow> meta_state \<times> block_loc list
     \<Rightarrow> meta_state \<times> block_loc list" where
  "alloc_step xxh3 ino idx st =
     (case st of (s, block_map) \<Rightarrow>
      case Option.bind (inodes s ino) (\<lambda>n. bt_get (i_blocks n) idx) of
        Some p \<Rightarrow> (s, block_map @ [placement_to_block_loc idx p])
      | None \<Rightarrow>
          fold (\<lambda>(new_idx, placement) (s', bm).
              (modify_inode ino (\<lambda>n. n\<lparr>i_blocks := bt_insert new_idx placement (i_blocks n)\<rparr>) s',
               bm @ [placement_to_block_loc new_idx placement]))
            (state_allocate_blocks xxh3 ino [idx] s) (s, block_map))"

definition meta_allocate_blocks ::
  "(string \<Rightarrow> u64 \<Rightarrow> u64) \<Rightarrow> alloc_req \<Rightarrow> meta_state \<Rightarrow> meta_state \<times> block_loc list reply" where
  "meta_allocate_blocks xxh3 r s =
     (let ino = InodeId (al_ino r) in
      if inodes s ino = None then (s, Err not_found)
      else
        let idxs = map BlockIdx (al_block_idxs r);
            (s', block_map) = fold (alloc_step xxh3 ino) idxs (s, [])
        in (s', Ok block_map))"

definition meta_heartbeat_node ::
  "instant \<Rightarrow> heartbeat_req \<Rightarrow> meta_state \<Rightarrow> meta_state \<times> proto_node_info list reply" where
  "meta_heartbeat_node now r s =
     (let nid = NodeId (hb_node_id r);
          ni = \<lparr> ni_node_id = nid, ni_addr = hb_addr r, ni_ram_used = hb_used_bytes r,
                 ni_ram_total = hb_capacity_bytes r, ni_status = Up \<rparr>;
          s' = s\<lparr>nodes := hm_insert nid ni (nodes s),
                 last_heartbeat := hm_insert nid now (last_heartbeat s)\<rparr>
      in (s', Ok (map node_info_to_proto (map snd (nodes s')))))"

definition meta_list_nodes :: "meta_state \<Rightarrow> proto_node_info list reply" where
  "meta_list_nodes s =
     Ok (map node_info_to_proto (filter (\<lambda>n. ni_status n = Up) (map snd (nodes s))))"

end
