(* ===== verification/Namespace.thy ===== *)
theory Namespace
  imports Ids
begin

text \<open>
  The abstract namespace that the metadata server promises to its clients: which
  inodes exist and of which kind, and which directory entries lead to them.  The
  abstract operations add an entry with a fresh inode, delete an entry with its
  childless inode, and move an entry.  The invariant says that the entries form a
  tree: only directories have entries, every entry leads to an existing inode, no
  inode has two entries, the root has none, and every inode is reachable from the root.

  On top of these stand the requests of the namespace: \<open>ns_serve\<close> relates a request
  and its reply to the namespace before and after, \<open>ns_run\<close> does so for a sequence of
  requests.  The locale \<open>ns_refinement\<close> is the contract between this specification and
  a server state machine: whatever implements it keeps the tree in every run, and the
  requests it serves with the replies it gives are a run of the specification.
\<close>

record namespace =
  kinds :: "inode_id \<rightharpoonup> inode_kind"
  edges :: "inode_id \<times> string \<rightharpoonup> inode_id"

definition ns_init :: namespace where
  "ns_init = \<lparr> kinds = [ROOT \<mapsto> Dir], edges = Map.empty \<rparr>"

definition ns_add :: "inode_id \<Rightarrow> string \<Rightarrow> inode_id \<Rightarrow> inode_kind \<Rightarrow> namespace \<Rightarrow> namespace" where
  "ns_add p n c k a = a\<lparr>kinds := (kinds a)(c \<mapsto> k), edges := (edges a)((p, n) \<mapsto> c)\<rparr>"

definition ns_del :: "inode_id \<Rightarrow> string \<Rightarrow> inode_id \<Rightarrow> namespace \<Rightarrow> namespace" where
  "ns_del p n c a = a\<lparr>kinds := (kinds a)(c := None), edges := (edges a)((p, n) := None)\<rparr>"

definition ns_move ::
  "inode_id \<Rightarrow> string \<Rightarrow> inode_id \<Rightarrow> string \<Rightarrow> inode_id \<Rightarrow> namespace \<Rightarrow> namespace" where
  "ns_move sp sn dp dn c a = a\<lparr>edges := (edges a)((sp, sn) := None, (dp, dn) \<mapsto> c)\<rparr>"

inductive ns_below :: "namespace \<Rightarrow> inode_id \<Rightarrow> inode_id \<Rightarrow> bool" for a c where
  below_refl: "ns_below a c c"
| below_step: "ns_below a c p \<Longrightarrow> edges a (p, n) = Some x \<Longrightarrow> ns_below a c x"

definition ns_ok :: "namespace \<Rightarrow> bool" where
  "ns_ok a \<longleftrightarrow> kinds a ROOT = Some Dir
     \<and> (\<forall>p n c. edges a (p, n) = Some c \<longrightarrow> kinds a p = Some Dir \<and> kinds a c \<noteq> None \<and> c \<noteq> ROOT)
     \<and> (\<forall>e e' c. edges a e = Some c \<longrightarrow> edges a e' = Some c \<longrightarrow> e = e')
     \<and> (\<forall>c. kinds a c \<noteq> None \<longrightarrow> ns_below a ROOT c)"

lemmas ns_op_defs = ns_add_def ns_del_def ns_move_def

section \<open>The tree invariant\<close>

lemma ns_okD:
  assumes "ns_ok a"
  shows ns_ok_root: "kinds a ROOT = Some Dir"
    and ns_ok_edge: "edges a (p, n) = Some c \<Longrightarrow> kinds a p = Some Dir \<and> kinds a c \<noteq> None \<and> c \<noteq> ROOT"
    and ns_ok_unique: "edges a e = Some c \<Longrightarrow> edges a e' = Some c \<Longrightarrow> e = e'"
    and ns_ok_reach: "kinds a c \<noteq> None \<Longrightarrow> ns_below a ROOT c"
  using assms unfolding ns_ok_def by blast+

lemma ns_okI:
  assumes "kinds a ROOT = Some Dir"
    and "\<And>p n c. edges a (p, n) = Some c \<Longrightarrow> kinds a p = Some Dir \<and> kinds a c \<noteq> None \<and> c \<noteq> ROOT"
    and "\<And>e e' c. edges a e = Some c \<Longrightarrow> edges a e' = Some c \<Longrightarrow> e = e'"
    and "\<And>c. kinds a c \<noteq> None \<Longrightarrow> ns_below a ROOT c"
  shows "ns_ok a"
  using assms unfolding ns_ok_def by blast

lemma ns_below_mono:
  assumes "ns_below a c x" and "\<And>p n y. edges a (p, n) = Some y \<Longrightarrow> edges b (p, n) = Some y"
  shows "ns_below b c x"
  using assms(1) by induction (auto intro: ns_below.intros assms(2))

lemma ns_below_leaf: "ns_below a c x \<Longrightarrow> (\<And>m. edges a (c, m) = None) \<Longrightarrow> x = c"
  by (induction rule: ns_below.induct) auto

lemma ns_ok_init: "ns_ok ns_init"
  by (auto simp: ns_ok_def ns_init_def intro: ns_below.intros)

lemma ns_ok_add:
  assumes ok: "ns_ok a" and p: "kinds a p = Some Dir" and free: "edges a (p, n) = None"
    and fresh: "kinds a c = None"
  shows "ns_ok (ns_add p n c k a)"
proof -
  let ?b = "ns_add p n c k a"
  have no_c: "edges a e \<noteq> Some c" for e
    using ns_ok_edge [OF ok, of "fst e" "snd e" c] fresh by auto
  have mono: "ns_below a ROOT x \<Longrightarrow> ns_below ?b ROOT x" for x
    by (erule ns_below_mono) (use free in \<open>auto simp: ns_op_defs\<close>)
  have "ns_below ?b ROOT p"
    by (rule mono [OF ns_ok_reach [OF ok]]) (simp add: p)
  then have "ns_below ?b ROOT c"
    by (rule below_step [where n = n]) (simp add: ns_op_defs)
  then have reach: "ns_below ?b ROOT x" if "kinds ?b x \<noteq> None" for x
    using that mono [OF ns_ok_reach [OF ok, of x]] by (auto simp: ns_op_defs split: if_splits)
  have ne: "c \<noteq> ROOT" "p \<noteq> c"
    using ns_ok_root [OF ok] p fresh by auto
  show ?thesis
  proof (rule ns_okI)
    show "kinds ?b ROOT = Some Dir"
      using ns_ok_root [OF ok] ne by (simp add: ns_op_defs)
  next
    fix q m x
    assume "edges ?b (q, m) = Some x"
    then have "q = p \<and> x = c \<or> edges a (q, m) = Some x"
      by (simp add: ns_op_defs split: if_splits)
    then show "kinds ?b q = Some Dir \<and> kinds ?b x \<noteq> None \<and> x \<noteq> ROOT"
      using p ne fresh ns_ok_edge [OF ok, of q m x] by (auto simp: ns_add_def)
  next
    fix e1 e2 x
    assume "edges ?b e1 = Some x" and "edges ?b e2 = Some x"
    then show "e1 = e2"
      using no_c ns_ok_unique [OF ok, of e1 x e2] by (auto simp: ns_op_defs split: if_splits)
  next
    fix x
    assume "kinds ?b x \<noteq> None"
    then show "ns_below ?b ROOT x" by (rule reach)
  qed
qed

lemma ns_ok_del:
  assumes ok: "ns_ok a" and e: "edges a (p, n) = Some c" and leaf: "\<And>m. edges a (c, m) = None"
  shows "ns_ok (ns_del p n c a)"
proof -
  let ?b = "ns_del p n c a"
  have only: "edges a (q, m) = Some c \<Longrightarrow> q = p \<and> m = n" for q m
    using ns_ok_unique [OF ok e] by auto
  have mono: "ns_below a ROOT x \<Longrightarrow> x \<noteq> c \<Longrightarrow> ns_below ?b ROOT x" for x
  proof (induction rule: ns_below.induct)
    case below_refl
    show ?case by (rule ns_below.below_refl)
  next
    case (below_step q m x)
    have "q \<noteq> c" using below_step.hyps(2) leaf by auto
    moreover have "edges ?b (q, m) = Some x"
      using below_step.hyps(2) below_step.prems e by (auto simp: ns_op_defs)
    ultimately show ?case
      using below_step.IH by (blast intro: ns_below.below_step)
  qed
  have "c \<noteq> ROOT" using ns_ok_edge [OF ok e] by simp
  have old: "edges a (q, m) = Some x \<and> q \<noteq> c \<and> x \<noteq> c" if "edges ?b (q, m) = Some x" for q m x
    using that leaf only by (auto simp: ns_op_defs split: if_splits)
  show ?thesis
  proof (rule ns_okI)
    show "kinds ?b ROOT = Some Dir"
      using ns_ok_root [OF ok] \<open>c \<noteq> ROOT\<close> by (simp add: ns_op_defs)
  next
    fix q m x
    assume "edges ?b (q, m) = Some x"
    then show "kinds ?b q = Some Dir \<and> kinds ?b x \<noteq> None \<and> x \<noteq> ROOT"
      using old [of q m x] ns_ok_edge [OF ok, of q m x] by (simp add: ns_del_def)
  next
    fix e1 e2 x
    assume "edges ?b e1 = Some x" and "edges ?b e2 = Some x"
    with old [of "fst e1" "snd e1" x] old [of "fst e2" "snd e2" x] show "e1 = e2"
      using ns_ok_unique [OF ok, of e1 x e2] by simp
  next
    fix x
    assume "kinds ?b x \<noteq> None"
    then show "ns_below ?b ROOT x"
      using mono [OF ns_ok_reach [OF ok, of x]] by (simp add: ns_del_def split: if_splits)
  qed
qed

text \<open>
  After a move, what was not below the moved inode is reached as before, the moved
  inode through its new parent, and what is below it through it.
\<close>

lemma ns_move_reach:
  assumes ok: "ns_ok a" and e: "edges a (sp, sn) = Some c" and dp: "kinds a dp = Some Dir"
    and free: "edges a (dp, dn) = None" and acyclic: "\<not> ns_below a c dp"
    and x: "ns_below a ROOT x"
  shows "ns_below (ns_move sp sn dp dn c a) ROOT x"
proof -
  let ?b = "ns_move sp sn dp dn c a"
  have keep: "edges a (q, m) = Some y \<Longrightarrow> y \<noteq> c \<Longrightarrow> edges ?b (q, m) = Some y" for q m y
    using e free by (auto simp: ns_op_defs)
  have outside: "ns_below a ROOT y \<Longrightarrow> \<not> ns_below a c y \<Longrightarrow> ns_below ?b ROOT y" for y
  proof (induction rule: ns_below.induct)
    case below_refl
    show ?case by (rule ns_below.below_refl)
  next
    case (below_step q m y)
    have "\<not> ns_below a c q"
      using below_step.hyps(2) below_step.prems by (blast intro: ns_below.below_step)
    moreover have "y \<noteq> c" using below_step.prems by (blast intro: ns_below.below_refl)
    ultimately show ?case
      using below_step.IH keep [OF below_step.hyps(2)] by (blast intro: ns_below.below_step)
  qed
  have "ns_below ?b ROOT dp"
    using outside [OF ns_ok_reach [OF ok]] dp acyclic by simp
  then have c: "ns_below ?b ROOT c"
    by (rule below_step [where n = dn]) (simp add: ns_op_defs)
  have inside: "ns_below a c y \<Longrightarrow> ns_below ?b ROOT y" for y
  proof (induction rule: ns_below.induct)
    case below_refl
    show ?case by (rule c)
  next
    case (below_step q m y)
    then show ?case
      using c keep [OF below_step.hyps(2)] by (cases "y = c") (blast intro: ns_below.below_step)+
  qed
  show ?thesis using inside outside [OF x] by blast
qed

lemma ns_ok_move:
  assumes ok: "ns_ok a" and e: "edges a (sp, sn) = Some c" and dp: "kinds a dp = Some Dir"
    and free: "edges a (dp, dn) = None" and acyclic: "\<not> ns_below a c dp"
  shows "ns_ok (ns_move sp sn dp dn c a)"
proof -
  have c: "kinds a c \<noteq> None" "c \<noteq> ROOT"
    using ns_ok_edge [OF ok e] by simp_all
  have only: "edges a e' = Some c \<Longrightarrow> e' = (sp, sn)" for e'
    using ns_ok_unique [OF ok _ e] by blast
  let ?b = "ns_move sp sn dp dn c a"
  have old: "e' = (dp, dn) \<and> x = c \<or> e' \<noteq> (dp, dn) \<and> edges a e' = Some x \<and> x \<noteq> c"
    if "edges ?b e' = Some x" for e' x
    using that only by (cases e') (auto simp: ns_op_defs split: if_splits)
  show ?thesis
  proof (rule ns_okI)
    show "kinds ?b ROOT = Some Dir"
      using ns_ok_root [OF ok] by (simp add: ns_op_defs)
  next
    fix q m x
    assume "edges ?b (q, m) = Some x"
    then show "kinds ?b q = Some Dir \<and> kinds ?b x \<noteq> None \<and> x \<noteq> ROOT"
      using old [of "(q, m)" x] dp c ns_ok_edge [OF ok, of q m x] by (auto simp: ns_move_def)
  next
    fix e1 e2 x
    assume "edges ?b e1 = Some x" and "edges ?b e2 = Some x"
    then show "e1 = e2"
      using old [of e1 x] old [of e2 x] ns_ok_unique [OF ok, of e1 x e2] by blast
  next
    fix x
    assume "kinds ?b x \<noteq> None"
    then have "ns_below a ROOT x"
      using ns_ok_reach [OF ok, of x] by (simp add: ns_move_def)
    then show "ns_below ?b ROOT x"
      by (rule ns_move_reach [OF ok e dp free acyclic])
  qed
qed

section \<open>Requests, replies and runs\<close>

text \<open>
  What a client sees of the namespace: the request it sends, with the parent and the
  name it gives, and the reply.  \<open>ns_serve\<close> says which reply a request gets in a
  namespace and what the namespace is afterwards.  A refused request changes nothing,
  and a request is refused only for the reason given.  The three conditions of the
  \<open>rename\<close> rule on the destination directory are the caller's part.
\<close>

datatype ns_request =
    NsMake inode_id string inode_kind
  | NsUnlink inode_id string
  | NsRmdir inode_id string
  | NsRename inode_id string inode_id string
  | NsOther

datatype ns_reply = Made inode_id | Fine | Refused | Aborted

definition ns_leaf :: "namespace \<Rightarrow> inode_id \<Rightarrow> bool" where
  "ns_leaf a c \<longleftrightarrow> (\<forall>m. edges a (c, m) = None)"

definition ns_replace :: "inode_id \<Rightarrow> string \<Rightarrow> namespace \<Rightarrow> namespace" where
  "ns_replace p n a = (case edges a (p, n) of None \<Rightarrow> a | Some x \<Rightarrow> ns_del p n x a)"

inductive ns_serve :: "namespace \<Rightarrow> ns_request \<times> ns_reply \<Rightarrow> namespace \<Rightarrow> bool" where
  make: "kinds a p = Some Dir \<Longrightarrow> edges a (p, n) = None \<Longrightarrow> kinds a c = None
    \<Longrightarrow> ns_serve a (NsMake p n k, Made c) (ns_add p n c k a)"
| make_refused: "kinds a p \<noteq> Some Dir \<or> edges a (p, n) \<noteq> None \<Longrightarrow> ns_serve a (NsMake p n k, Refused) a"
| unlink: "edges a (p, n) = Some c \<Longrightarrow> kinds a c \<noteq> Some Dir
    \<Longrightarrow> ns_serve a (NsUnlink p n, Fine) (ns_del p n c a)"
| unlink_refused: "(\<And>c. edges a (p, n) = Some c \<Longrightarrow> kinds a c = Some Dir)
    \<Longrightarrow> ns_serve a (NsUnlink p n, Refused) a"
| rmdir: "edges a (p, n) = Some c \<Longrightarrow> kinds a c = Some Dir \<Longrightarrow> ns_leaf a c
    \<Longrightarrow> ns_serve a (NsRmdir p n, Fine) (ns_del p n c a)"
| rmdir_refused: "(\<And>c. edges a (p, n) = Some c \<Longrightarrow> kinds a c \<noteq> Some Dir \<or> \<not> ns_leaf a c)
    \<Longrightarrow> ns_serve a (NsRmdir p n, Refused) a"
| rename: "edges a (sp, sn) = Some c \<Longrightarrow> (\<And>x. edges a (dp, dn) = Some x \<Longrightarrow> ns_leaf a x)
    \<Longrightarrow> kinds a dp = Some Dir \<Longrightarrow> (sp, sn) \<noteq> (dp, dn) \<Longrightarrow> \<not> ns_below a c dp
    \<Longrightarrow> ns_serve a (NsRename sp sn dp dn, Fine) (ns_move sp sn dp dn c (ns_replace dp dn a))"
| rename_refused: "edges a (sp, sn) = None \<or> (\<exists>x. edges a (dp, dn) = Some x \<and> \<not> ns_leaf a x)
    \<Longrightarrow> ns_serve a (NsRename sp sn dp dn, Refused) a"
| other: "ns_serve a (NsOther, Fine) a"

primrec ns_run :: "namespace \<Rightarrow> (ns_request \<times> ns_reply) list \<Rightarrow> namespace \<Rightarrow> bool" where
  "ns_run a [] b \<longleftrightarrow> a = b"
| "ns_run a (l # ls) b \<longleftrightarrow> (\<exists>a'. ns_serve a l a' \<and> ns_run a' ls b)"

lemma ns_below_del: "ns_below (ns_del p n c a) x y \<Longrightarrow> ns_below a x y"
  by (erule ns_below_mono) (simp add: ns_del_def split: if_splits)

text \<open>A file has no entries below it, so what an unlink or a rename removes is a leaf.\<close>

lemma ns_leaf_file: "ns_ok a \<Longrightarrow> kinds a c \<noteq> Some Dir \<Longrightarrow> ns_leaf a c"
  using ns_ok_edge [of a c] unfolding ns_leaf_def by fastforce

lemma ns_ok_leaf_del: "ns_ok a \<Longrightarrow> edges a (p, n) = Some c \<Longrightarrow> ns_leaf a c \<Longrightarrow> ns_ok (ns_del p n c a)"
  by (rule ns_ok_del) (simp_all add: ns_leaf_def)

lemma ns_ok_rename:
  assumes ok: "ns_ok a" and e: "edges a (sp, sn) = Some c"
    and leaf: "\<And>x. edges a (dp, dn) = Some x \<Longrightarrow> ns_leaf a x"
    and dp: "kinds a dp = Some Dir" and ne: "(sp, sn) \<noteq> (dp, dn)" and ac: "\<not> ns_below a c dp"
  shows "ns_ok (ns_move sp sn dp dn c (ns_replace dp dn a))"
proof (cases "edges a (dp, dn)")
  case None
  then show ?thesis using ns_ok_move [OF ok e dp None ac] by (simp add: ns_replace_def)
next
  case (Some x)
  have "ns_leaf a x" using leaf Some by blast
  then have "dp \<noteq> x" using Some by (auto simp: ns_leaf_def)
  then have "kinds (ns_del dp dn x a) dp = Some Dir" "edges (ns_del dp dn x a) (sp, sn) = Some c"
    "edges (ns_del dp dn x a) (dp, dn) = None"
    using dp e ne by (auto simp: ns_del_def)
  moreover have "ns_ok (ns_del dp dn x a)" by (rule ns_ok_leaf_del [OF ok Some \<open>ns_leaf a x\<close>])
  moreover have "\<not> ns_below (ns_del dp dn x a) c dp" using ac ns_below_del by blast
  ultimately show ?thesis using ns_ok_move [of "ns_del dp dn x a" sp sn c dp dn] Some by (simp add: ns_replace_def)
qed

lemma ns_serve_ok: "ns_serve a l b \<Longrightarrow> ns_ok a \<Longrightarrow> ns_ok b"
  by (induction rule: ns_serve.induct)
    (simp_all add: ns_ok_add ns_ok_leaf_del ns_leaf_file ns_ok_rename)

lemma ns_run_append: "ns_run a (xs @ ys) b \<longleftrightarrow> (\<exists>c. ns_run a xs c \<and> ns_run c ys b)"
  by (induction xs arbitrary: a) auto

inductive_simps ns_serve_simps:
  "ns_serve a (NsMake p n k, Made c) b" "ns_serve a (NsMake p n k, Refused) b"
  "ns_serve a (NsUnlink p n, Fine) b" "ns_serve a (NsRmdir p n, Fine) b"
  "ns_serve a (NsRename sp sn dp dn, Fine) b" "ns_serve a (NsOther, l) b"

section \<open>The contract of an implementation\<close>

text \<open>
  An implementation gives every operation the label \<open>lab\<close>: the abstract request it
  stands for and the reply it sends.
\<close>

locale ns_refinement =
  fixes abs_ns :: "'s \<Rightarrow> namespace"
    and wf :: "'s \<Rightarrow> bool"
    and exec :: "'o \<Rightarrow> 's \<Rightarrow> 's"
    and safe :: "'o \<Rightarrow> 's \<Rightarrow> bool"
    and lab :: "'o \<Rightarrow> 's \<Rightarrow> ns_request \<times> ns_reply"
  assumes refines:
      "wf s \<Longrightarrow> ns_ok (abs_ns s) \<Longrightarrow> safe oper s \<Longrightarrow> ns_serve (abs_ns s) (lab oper s) (abs_ns (exec oper s))"
    and wf_exec: "wf s \<Longrightarrow> ns_ok (abs_ns s) \<Longrightarrow> safe oper s \<Longrightarrow> wf (exec oper s)"
begin

fun safe_run :: "'o list \<Rightarrow> 's \<Rightarrow> bool" where
  "safe_run [] s \<longleftrightarrow> True"
| "safe_run (x # xs) s \<longleftrightarrow> safe x s \<and> safe_run xs (exec x s)"

fun labels :: "'o list \<Rightarrow> 's \<Rightarrow> (ns_request \<times> ns_reply) list" where
  "labels [] s = []"
| "labels (x # xs) s = lab x s # labels xs (exec x s)"

lemma exec_ok: "wf s \<Longrightarrow> ns_ok (abs_ns s) \<Longrightarrow> safe oper s \<Longrightarrow> ns_ok (abs_ns (exec oper s))"
  by (rule ns_serve_ok [OF refines])

lemma run_invariant:
  "wf s \<Longrightarrow> ns_ok (abs_ns s) \<Longrightarrow> safe_run ops s
     \<Longrightarrow> wf (fold exec ops s) \<and> ns_ok (abs_ns (fold exec ops s))"
  by (induction ops arbitrary: s) (simp_all add: wf_exec exec_ok)

lemma run_simulates:
  "wf s \<Longrightarrow> ns_ok (abs_ns s) \<Longrightarrow> safe_run ops s
     \<Longrightarrow> ns_run (abs_ns s) (labels ops s) (abs_ns (fold exec ops s))"
proof (induction ops arbitrary: s)
  case Nil
  then show ?case by simp
next
  case (Cons x xs)
  then have "ns_serve (abs_ns s) (lab x s) (abs_ns (exec x s))"
    and "ns_run (abs_ns (exec x s)) (labels xs (exec x s)) (abs_ns (fold exec xs (exec x s)))"
    by (simp_all add: refines wf_exec exec_ok)
  then show ?case by auto
qed

end

end
