(* ===== verification/Meta_Inv.thy ===== *)
theory Meta_Inv
  imports Meta_Service Namespace
begin

text \<open>
  The invariant of the metadata server and the refinement of its namespace
  operations to the abstract namespace.  \<open>abs_ns\<close> reads the abstract namespace off a
  server state; \<open>meta_wf\<close> is what the concrete tables keep among themselves: inodes
  filed under their own number and below the allocator, a directory table exactly for
  the directory inodes, ordered directories and block maps, handles filed under their
  own number, a well formed node table.
\<close>

definition abs_ns :: "meta_state \<Rightarrow> namespace" where
  "abs_ns s = \<lparr> kinds = (\<lambda>i. map_option i_kind (inodes s i)), edges = (\<lambda>(p, n). entry s p n) \<rparr>"

definition inodes_wf :: "meta_state \<Rightarrow> bool" where
  "inodes_wf s \<longleftrightarrow>
     (\<forall>i n. inodes s i = Some n \<longrightarrow> i_ino n = i \<and> raw i < next_ino s \<and> bt_wf (i_blocks n))"

definition dirs_wf :: "meta_state \<Rightarrow> bool" where
  "dirs_wf s \<longleftrightarrow>
     (\<forall>i. dirs s i \<noteq> None \<longleftrightarrow> map_option i_kind (inodes s i) = Some Dir)
     \<and> (\<forall>p d. dirs s p = Some d \<longrightarrow> bt_wf d)"

definition handles_wf :: "meta_state \<Rightarrow> bool" where
  "handles_wf s \<longleftrightarrow> (\<forall>fh h. open_handles s fh = Some h \<longrightarrow> oh_fh h = fh \<and> fh < next_fh s)"

definition meta_wf :: "meta_state \<Rightarrow> bool" where
  "meta_wf s \<longleftrightarrow> inodes_wf s \<and> dirs_wf s \<and> handles_wf s \<and> nodes_wf s"

text \<open>The mutating requests of the server, with the clock readings they take.\<close>

datatype meta_op =
    OpSetAttr system_time set_attr_req
  | OpCreate system_time create_req
  | OpMkdir system_time mkdir_req
  | OpUnlink unlink_req
  | OpRmdir rmdir_req
  | OpRename rename_req
  | OpRegister open_req generation
  | OpClose system_time close_req
  | OpAllocate alloc_req
  | OpHeartbeat instant heartbeat_req
  | OpTick instant duration

fun meta_exec :: "(string \<Rightarrow> u64 \<Rightarrow> u64) \<Rightarrow> string \<Rightarrow> meta_op \<Rightarrow> meta_state \<Rightarrow> meta_state" where
  "meta_exec xxh3 token (OpSetAttr now r) s = fst (meta_set_attr token now r s)"
| "meta_exec xxh3 token (OpCreate now r) s = fst (meta_create now r s)"
| "meta_exec xxh3 token (OpMkdir now r) s = fst (meta_mkdir now r s)"
| "meta_exec xxh3 token (OpUnlink r) s = fst (meta_unlink token r s)"
| "meta_exec xxh3 token (OpRmdir r) s = fst (meta_rmdir r s)"
| "meta_exec xxh3 token (OpRename r) s = fst (meta_rename token r s)"
| "meta_exec xxh3 token (OpRegister r g) s = snd (open_register r g s)"
| "meta_exec xxh3 token (OpClose now r) s = fst (meta_close now r s)"
| "meta_exec xxh3 token (OpAllocate r) s = fst (meta_allocate_blocks xxh3 r s)"
| "meta_exec xxh3 token (OpHeartbeat now r) s = fst (meta_heartbeat_node now r s)"
| "meta_exec xxh3 token (OpTick now dead_after) s = heartbeat_tick now dead_after s"

text \<open>
  What a request asks of the namespace and what the reply says of it, read off the
  request and off the value the handler returns: the label of the request in the
  abstract run.
\<close>

fun reply_label :: "('a \<Rightarrow> ns_reply) \<Rightarrow> 'a reply \<Rightarrow> ns_reply" where
  "reply_label f (Ok v) = f v"
| "reply_label f (Err e) = Refused"
| "reply_label f Panic = Aborted"

fun made_by :: "attr option \<Rightarrow> ns_reply" where
  "made_by (Some a) = Made (InodeId (at_ino a))"
| "made_by None = Fine"

fun meta_label :: "string \<Rightarrow> meta_op \<Rightarrow> meta_state \<Rightarrow> ns_request \<times> ns_reply" where
  "meta_label token (OpCreate now r) s =
     (NsMake (InodeId (cr_parent_ino r)) (cr_name r) File,
      reply_label (\<lambda>v. made_by (crr_attr v)) (snd (meta_create now r s)))"
| "meta_label token (OpMkdir now r) s =
     (NsMake (InodeId (mk_parent_ino r)) (mk_name r) Dir,
      reply_label (\<lambda>a. made_by (Some a)) (snd (meta_mkdir now r s)))"
| "meta_label token (OpUnlink r) s =
     (NsUnlink (InodeId (ul_parent_ino r)) (ul_name r),
      reply_label (\<lambda>_. Fine) (snd (snd (meta_unlink token r s))))"
| "meta_label token (OpRmdir r) s =
     (NsRmdir (InodeId (rd_parent_ino r)) (rd_name r), reply_label (\<lambda>_. Fine) (snd (meta_rmdir r s)))"
| "meta_label token (OpRename r) s =
     (NsRename (InodeId (rn_src_parent_ino r)) (rn_src_name r) (InodeId (rn_dst_parent_ino r)) (rn_dst_name r),
      reply_label (\<lambda>_. Fine) (snd (snd (meta_rename token r s))))"
| "meta_label token oper s = (NsOther, Fine)"

text \<open>
  Two things the server does not check itself.  Counters must not have wrapped, and a
  rename must name an existing destination directory, must not name its own source,
  and must not move a directory below itself.
\<close>

definition rename_safe :: "rename_req \<Rightarrow> meta_state \<Rightarrow> bool" where
  "rename_safe r s \<longleftrightarrow>
     dirs s (InodeId (rn_dst_parent_ino r)) \<noteq> None
     \<and> (rn_src_parent_ino r, rn_src_name r) \<noteq> (rn_dst_parent_ino r, rn_dst_name r)
     \<and> (\<forall>c. entry s (InodeId (rn_src_parent_ino r)) (rn_src_name r) = Some c
          \<longrightarrow> \<not> ns_below (abs_ns s) c (InodeId (rn_dst_parent_ino r)))"

definition counters_ok :: "meta_state \<Rightarrow> bool" where
  "counters_ok s \<longleftrightarrow> Suc (unat (next_ino s)) < 2 ^ 64 \<and> Suc (unat (next_fh s)) < 2 ^ 64"

fun meta_safe :: "meta_op \<Rightarrow> meta_state \<Rightarrow> bool" where
  "meta_safe (OpRename r) s \<longleftrightarrow> counters_ok s \<and> rename_safe r s"
| "meta_safe oper s \<longleftrightarrow> counters_ok s"

section \<open>Reading the namespace off updated states\<close>

lemma kinds_abs_ns [ns_simps]: "kinds (abs_ns s) i = map_option i_kind (inodes s i)"
  by (simp add: abs_ns_def)

lemma edges_abs_ns [ns_simps]: "edges (abs_ns s) (p, n) = entry s p n"
  by (simp add: abs_ns_def)

lemma abs_ns_cong: "inodes s = inodes t \<Longrightarrow> dirs s = dirs t \<Longrightarrow> abs_ns s = abs_ns t"
  by (simp add: abs_ns_def entry_def [abs_def])

lemma namespace_eqI:
  assumes "\<And>i. kinds a i = kinds b i" and "\<And>p n. edges a (p, n) = edges b (p, n)"
  shows "a = (b :: namespace)"
  using assms by (cases a, cases b) (auto simp: fun_eq_iff)

lemma with_dir_iff:
  "with_dir p f s = Some t \<longleftrightarrow> (\<exists>d. dirs s p = Some d \<and> t = s\<lparr>dirs := (dirs s)(p \<mapsto> f d)\<rparr>)"
  by (auto simp: with_dir_def split: option.splits)

lemma with_dir_None: "with_dir p f s = None \<longleftrightarrow> dirs s p = None"
  by (simp add: with_dir_def split: option.splits)

lemma entry_put_inode [ns_simps]: "entry (put_inode i n s) = entry s"
  by (simp add: put_inode_def entry_def [abs_def])

lemma entry_remove_inode [ns_simps]: "entry (remove_inode i s) = entry s"
  by (simp add: remove_inode_def entry_def [abs_def])

lemma entry_modify_inode [ns_simps]: "entry (modify_inode i f s) = entry s"
  by (simp add: modify_inode_def ns_simps split: option.split)

lemma inodes_put_inode [ns_simps]: "inodes (put_inode i n s) = (inodes s)(i \<mapsto> n)"
  by (simp add: put_inode_def)

lemma inodes_remove_inode [ns_simps]: "inodes (remove_inode i s) = (inodes s)(i := None)"
  by (simp add: remove_inode_def)

lemma inodes_modify_inode [ns_simps]:
  "inodes (modify_inode i f s) j = (if j = i then map_option f (inodes s i) else inodes s j)"
  by (simp add: modify_inode_def put_inode_def split: option.split)

lemma inode_updates_frame [simp]:
  "dirs (put_inode i n s) = dirs s" "dirs (remove_inode i s) = dirs s"
  "dirs (modify_inode i f s) = dirs s"
  "next_ino (put_inode i n s) = next_ino s" "next_ino (remove_inode i s) = next_ino s"
  "next_ino (modify_inode i f s) = next_ino s"
  "open_handles (put_inode i n s) = open_handles s"
  "open_handles (remove_inode i s) = open_handles s"
  "open_handles (modify_inode i f s) = open_handles s"
  "next_fh (put_inode i n s) = next_fh s" "next_fh (remove_inode i s) = next_fh s"
  "next_fh (modify_inode i f s) = next_fh s"
  "nodes (put_inode i n s) = nodes s" "nodes (remove_inode i s) = nodes s"
  "nodes (modify_inode i f s) = nodes s"
  "last_heartbeat (put_inode i n s) = last_heartbeat s"
  "last_heartbeat (remove_inode i s) = last_heartbeat s"
  "last_heartbeat (modify_inode i f s) = last_heartbeat s"
  "replication_factor (put_inode i n s) = replication_factor s"
  "replication_factor (remove_inode i s) = replication_factor s"
  "replication_factor (modify_inode i f s) = replication_factor s"
  by (simp_all add: put_inode_def remove_inode_def modify_inode_def split: option.split)

lemma i_kind_nlink [simp]: "i_kind (nlink_dec n) = i_kind n" "i_kind (nlink_inc n) = i_kind n"
  by (simp_all add: nlink_dec_def nlink_inc_def)

lemma nlink_frame [simp]:
  "i_ino (nlink_dec n) = i_ino n" "i_ino (nlink_inc n) = i_ino n"
  "i_blocks (nlink_dec n) = i_blocks n" "i_blocks (nlink_inc n) = i_blocks n"
  by (simp_all add: nlink_dec_def nlink_inc_def)

lemma abs_ns_modify_inode:
  "(\<And>n. i_kind (f n) = i_kind n) \<Longrightarrow> abs_ns (modify_inode i f s) = abs_ns s"
  by (rule namespace_eqI) (auto simp: ns_simps option.map_comp comp_def)

lemma entry_dirs_upd [ns_simps]:
  "entry (s\<lparr>dirs := (dirs s)(p \<mapsto> d)\<rparr>) q n = (if q = p then bt_get d n else entry s q n)"
  by (simp add: entry_def)

lemma entry_dirs_drop [ns_simps]:
  "entry (s\<lparr>dirs := (dirs s)(p := None)\<rparr>) q n = (if q = p then None else entry s q n)"
  by (simp add: entry_def)

lemma entry_frame [simp]:
  "entry (s\<lparr>next_ino := x\<rparr>) = entry s" "entry (s\<lparr>next_fh := x\<rparr>) = entry s"
  "entry (s\<lparr>open_handles := h\<rparr>) = entry s" "entry (s\<lparr>inodes := m\<rparr>) = entry s"
  by (simp_all add: entry_def [abs_def])

lemma entry_SomeD: "entry s p n = Some c \<Longrightarrow> \<exists>d. dirs s p = Some d \<and> bt_get d n = Some c \<and> d \<noteq> []"
  by (auto simp: entry_def split: option.splits)

lemma entry_empty_dir: "dirs s p = Some [] \<Longrightarrow> entry s p n = None"
  by (simp add: entry_def)

section \<open>Tables that agree\<close>

lemma meta_wfD:
  assumes "meta_wf s"
  shows meta_wf_inodes: "inodes_wf s" and meta_wf_dirs: "dirs_wf s"
    and meta_wf_handles: "handles_wf s" and meta_wf_nodes: "nodes_wf s"
  using assms by (simp_all add: meta_wf_def)

lemma inodes_wfD:
  "inodes_wf s \<Longrightarrow> inodes s i = Some n \<Longrightarrow> i_ino n = i \<and> raw i < next_ino s \<and> bt_wf (i_blocks n)"
  by (simp add: inodes_wf_def)

lemma dirs_wf_iff:
  "dirs_wf s \<Longrightarrow> dirs s i \<noteq> None \<longleftrightarrow> map_option i_kind (inodes s i) = Some Dir"
  by (simp add: dirs_wf_def)

lemma dirs_wf_bt: "dirs_wf s \<Longrightarrow> dirs s p = Some d \<Longrightarrow> bt_wf d"
  by (simp add: dirs_wf_def)

lemma inodes_wf_put:
  "inodes_wf s \<Longrightarrow> i_ino n = i \<Longrightarrow> raw i < next_ino s \<Longrightarrow> bt_wf (i_blocks n)
     \<Longrightarrow> inodes_wf (put_inode i n s)"
  by (simp add: inodes_wf_def ns_simps)

lemma inodes_wf_remove: "inodes_wf s \<Longrightarrow> inodes_wf (remove_inode i s)"
  by (simp add: inodes_wf_def ns_simps)

lemma inodes_wf_modify:
  "inodes_wf s \<Longrightarrow> (\<And>n. i_ino (f n) = i_ino n) \<Longrightarrow> (\<And>n. bt_wf (i_blocks n) \<Longrightarrow> bt_wf (i_blocks (f n)))
     \<Longrightarrow> inodes_wf (modify_inode i f s)"
  by (auto simp: inodes_wf_def ns_simps)

lemma inodes_wf_cong: "inodes s = inodes t \<Longrightarrow> next_ino s = next_ino t \<Longrightarrow> inodes_wf s = inodes_wf t"
  by (simp add: inodes_wf_def)

lemma dirs_wf_modify:
  "dirs_wf s \<Longrightarrow> (\<And>n. i_kind (f n) = i_kind n) \<Longrightarrow> dirs_wf (modify_inode i f s)"
  by (auto simp: dirs_wf_def ns_simps option.map_comp comp_def)

lemma dirs_wf_put_same_kind:
  "dirs_wf s \<Longrightarrow> map_option i_kind (inodes s i) = Some (i_kind n) \<Longrightarrow> dirs_wf (put_inode i n s)"
  by (auto simp: dirs_wf_def ns_simps)

lemma dirs_wf_with_dir:
  "dirs_wf s \<Longrightarrow> dirs s p = Some d \<Longrightarrow> bt_wf d' \<Longrightarrow> dirs_wf (s\<lparr>dirs := (dirs s)(p \<mapsto> d')\<rparr>)"
  by (auto simp: dirs_wf_def)

lemma meta_wf_modify:
  "meta_wf s \<Longrightarrow> (\<And>n. i_kind (f n) = i_kind n) \<Longrightarrow> (\<And>n. i_ino (f n) = i_ino n)
     \<Longrightarrow> (\<And>n. bt_wf (i_blocks n) \<Longrightarrow> bt_wf (i_blocks (f n))) \<Longrightarrow> meta_wf (modify_inode i f s)"
  by (simp add: meta_wf_def inodes_wf_modify dirs_wf_modify handles_wf_def nodes_wf_def)

lemma meta_wf_put_same:
  assumes "meta_wf s" and "inodes s i = Some n" and "i_kind n' = i_kind n" and "i_ino n' = i"
    and "bt_wf (i_blocks n')"
  shows "meta_wf (put_inode i n' s)"
  using assms inodes_wfD [OF meta_wf_inodes [OF assms(1)] assms(2)]
  by (simp add: meta_wf_def inodes_wf_put dirs_wf_put_same_kind handles_wf_def nodes_wf_def)

lemma abs_ns_put_same:
  assumes "inodes s i = Some n" and "i_kind n' = i_kind n"
  shows "abs_ns (put_inode i n' s) = abs_ns s"
  by (rule namespace_eqI) (use assms in \<open>auto simp: ns_simps\<close>)

lemma meta_wf_with_dir:
  assumes "meta_wf s" and "dirs s p = Some d" and "bt_wf d'"
  shows "meta_wf (s\<lparr>dirs := (dirs s)(p \<mapsto> d')\<rparr>)"
  using assms dirs_wf_with_dir [OF _ assms(2,3)]
  by (simp add: meta_wf_def inodes_wf_def handles_wf_def nodes_wf_def)

lemma fresh_ino: "inodes_wf s \<Longrightarrow> inodes s (InodeId (next_ino s)) = None"
  using inodes_wfD [of s "InodeId (next_ino s)"] by (cases "inodes s (InodeId (next_ino s))") auto

end
