(* ===== verification/Meta_Refine.thy ===== *)
theory Meta_Refine
  imports Meta_Inv
begin

text \<open>
  Handler by handler: the effect on every branch, the abstract namespace step it
  refines, and the preservation of \<open>meta_wf\<close>.  The theory ends with the
  interpretation of \<open>ns_refinement\<close> by the metadata server.
\<close>

section \<open>Create and mkdir\<close>

lemma fresh_dir: "meta_wf s \<Longrightarrow> dirs s (InodeId (next_ino s)) = None"
  using dirs_wf_iff [OF meta_wf_dirs, of s "InodeId (next_ino s)"] fresh_ino [OF meta_wf_inodes, of s]
  by auto

lemma meta_create_no_parent:
  "dirs s (InodeId (cr_parent_ino r)) = None
     \<Longrightarrow> meta_create now r s = (s, Err (st_not_found ''parent not found''))"
  by (simp add: meta_create_def)

lemma meta_create_exists:
  "dirs s (InodeId (cr_parent_ino r)) = Some d \<Longrightarrow> bt_contains d (cr_name r)
     \<Longrightarrow> meta_create now r s = (s, Err (st_already_exists ''entry already exists''))"
  by (simp add: meta_create_def)

lemma meta_create_ok:
  assumes "dirs s (InodeId (cr_parent_ino r)) = Some d" and "\<not> bt_contains d (cr_name r)"
  shows "meta_create now r s =
    (let ino = InodeId (next_ino s); n = new_file_inode now ino r; fh = next_fh s in
     (s\<lparr>inodes := (inodes s)(ino \<mapsto> n),
        dirs := (dirs s)(InodeId (cr_parent_ino r) \<mapsto> bt_insert (cr_name r) ino d),
        next_ino := next_ino s + 1,
        open_handles := (open_handles s)(fh \<mapsto> \<lparr> oh_fh = fh, oh_ino = ino, oh_flags = 0,
          oh_generation_at_open = Generation 0 \<rparr>),
        next_fh := fh + 1\<rparr>,
      Ok \<lparr> crr_attr = Some (build_attr n), crr_fh = fh, crr_block_map = [] \<rparr>))"
  using assms by (simp add: meta_create_def Let_def alloc_ino_def alloc_fh_def with_dir_def put_inode_def)

lemma meta_create_cases:
  obtains (fail) e where "meta_create now r s = (s, Err e)"
      "dirs s (InodeId (cr_parent_ino r)) = None \<or> entry s (InodeId (cr_parent_ino r)) (cr_name r) \<noteq> None"
  | (ok) d where "dirs s (InodeId (cr_parent_ino r)) = Some d" "\<not> bt_contains d (cr_name r)"
proof (cases "dirs s (InodeId (cr_parent_ino r))")
  case None
  then show ?thesis using fail meta_create_no_parent by blast
next
  case (Some d)
  show ?thesis
  proof (cases "bt_contains d (cr_name r)")
    case True
    then have "entry s (InodeId (cr_parent_ino r)) (cr_name r) \<noteq> None"
      using Some by (simp add: entry_def bt_contains_def)
    then show ?thesis using fail meta_create_exists [OF Some True] by blast
  qed (rule ok [OF Some])
qed

lemma abs_create:
  assumes "inodes_wf s" and d: "dirs s (InodeId (cr_parent_ino r)) = Some d"
    and new: "\<not> bt_contains d (cr_name r)"
  shows "abs_ns (fst (meta_create now r s)) =
    ns_add (InodeId (cr_parent_ino r)) (cr_name r) (InodeId (next_ino s)) File (abs_ns s)"
  unfolding meta_create_ok [OF d new]
  by (rule namespace_eqI) (use d in \<open>auto simp: ns_simps Let_def ns_add_def new_file_inode_def entry_def\<close>)

lemma meta_wf_create:
  assumes wf: "meta_wf s" and c: "counters_ok s"
  shows "meta_wf (fst (meta_create now r s))"
proof (cases rule: meta_create_cases [of now r s])
  case (fail e)
  then show ?thesis using wf by simp
next
  case (ok d)
  have less: "v < next_ino s + 1 \<longleftrightarrow> v < next_ino s \<or> v = next_ino s"
    "v < next_fh s + 1 \<longleftrightarrow> v < next_fh s \<or> v = next_fh s" for v
    using c by (simp_all add: counters_ok_def less_succ_u64)
  have d: "bt_wf d"
    using dirs_wf_bt [OF meta_wf_dirs [OF wf] ok(1)] .
  note fresh = fresh_ino [OF meta_wf_inodes [OF wf]] fresh_dir [OF wf]
  have ne: "cr_parent_ino r \<noteq> next_ino s"
    using ok(1) fresh by auto
  show ?thesis
    unfolding meta_create_ok [OF ok] Let_def fst_conv meta_wf_def
  proof (intro conjI, goal_cases)
    case 1
    then show ?case using meta_wf_inodes [OF wf] by (auto simp: inodes_wf_def less new_file_inode_def)
  next
    case 2
    then show ?case using meta_wf_dirs [OF wf] fresh ne d
      by (auto simp: dirs_wf_def new_file_inode_def ok(1) bt_wf_insert)
  next
    case 3
    then show ?case using meta_wf_handles [OF wf] by (auto simp: handles_wf_def less)
  next
    case 4
    then show ?case using meta_wf_nodes [OF wf] by (simp add: nodes_wf_def)
  qed
qed

lemma meta_mkdir_no_parent:
  "dirs s (InodeId (mk_parent_ino r)) = None
     \<Longrightarrow> meta_mkdir now r s = (s, Err (st_not_found ''parent not found''))"
  by (simp add: meta_mkdir_def)

lemma meta_mkdir_exists:
  "dirs s (InodeId (mk_parent_ino r)) = Some d \<Longrightarrow> bt_contains d (mk_name r)
     \<Longrightarrow> meta_mkdir now r s = (s, Err (st_already_exists ''entry already exists''))"
  by (simp add: meta_mkdir_def)

lemma meta_mkdir_ok:
  assumes "dirs s (InodeId (mk_parent_ino r)) = Some d" and "\<not> bt_contains d (mk_name r)"
    and "dirs s (InodeId (next_ino s)) = None"
  shows "meta_mkdir now r s =
    (let ino = InodeId (next_ino s); n = new_dir_inode now ino r in
     (modify_inode (InodeId (mk_parent_ino r)) nlink_inc
       (s\<lparr>next_ino := next_ino s + 1, inodes := (inodes s)(ino \<mapsto> n),
          dirs := (dirs s)(ino \<mapsto> [], InodeId (mk_parent_ino r) \<mapsto> bt_insert (mk_name r) ino d)\<rparr>),
      Ok (build_attr n)))"
proof -
  have "mk_parent_ino r \<noteq> next_ino s" using assms by auto
  then show ?thesis
    using assms by (simp add: meta_mkdir_def Let_def alloc_ino_def with_dir_def put_inode_def)
qed

lemma meta_mkdir_cases:
  obtains (fail) e where "meta_mkdir now r s = (s, Err e)"
      "dirs s (InodeId (mk_parent_ino r)) = None \<or> entry s (InodeId (mk_parent_ino r)) (mk_name r) \<noteq> None"
  | (ok) d where "dirs s (InodeId (mk_parent_ino r)) = Some d" "\<not> bt_contains d (mk_name r)"
proof (cases "dirs s (InodeId (mk_parent_ino r))")
  case None
  then show ?thesis using fail meta_mkdir_no_parent by blast
next
  case (Some d)
  show ?thesis
  proof (cases "bt_contains d (mk_name r)")
    case True
    then have "entry s (InodeId (mk_parent_ino r)) (mk_name r) \<noteq> None"
      using Some by (simp add: entry_def bt_contains_def)
    then show ?thesis using fail meta_mkdir_exists [OF Some True] by blast
  qed (rule ok [OF Some])
qed

lemma abs_mkdir:
  assumes wf: "meta_wf s" and d: "dirs s (InodeId (mk_parent_ino r)) = Some d"
    and new: "\<not> bt_contains d (mk_name r)"
  shows "abs_ns (fst (meta_mkdir now r s)) =
    ns_add (InodeId (mk_parent_ino r)) (mk_name r) (InodeId (next_ino s)) Dir (abs_ns s)"
proof -
  have "mk_parent_ino r \<noteq> next_ino s" using d fresh_dir [OF wf] by auto
  then show ?thesis
    unfolding meta_mkdir_ok [OF d new fresh_dir [OF wf]] Let_def fst_conv
      abs_ns_modify_inode [where f = nlink_inc, OF i_kind_nlink(2)]
    by (intro namespace_eqI)
      (use d fresh_dir [OF wf] in \<open>auto simp: ns_simps ns_add_def new_dir_inode_def entry_def\<close>)
qed

lemma meta_wf_mkdir:
  assumes wf: "meta_wf s" and c: "counters_ok s"
  shows "meta_wf (fst (meta_mkdir now r s))"
proof (cases rule: meta_mkdir_cases [of now r s])
  case (fail e)
  then show ?thesis using wf by simp
next
  case (ok d)
  have less: "v < next_ino s + 1 \<longleftrightarrow> v < next_ino s \<or> v = next_ino s" for v
    using c by (simp add: counters_ok_def less_succ_u64)
  have d: "bt_wf d"
    using dirs_wf_bt [OF meta_wf_dirs [OF wf] ok(1)] .
  note fresh = fresh_ino [OF meta_wf_inodes [OF wf]] fresh_dir [OF wf]
  have ne: "mk_parent_ino r \<noteq> next_ino s" using ok(1) fresh by auto
  let ?ino = "InodeId (next_ino s)"
  have "meta_wf (s\<lparr>next_ino := next_ino s + 1, inodes := (inodes s)(?ino \<mapsto> new_dir_inode now ?ino r),
    dirs := (dirs s)(?ino \<mapsto> [], InodeId (mk_parent_ino r) \<mapsto> bt_insert (mk_name r) ?ino d)\<rparr>)"
    unfolding meta_wf_def
  proof (intro conjI, goal_cases)
    case 1
    then show ?case using meta_wf_inodes [OF wf] by (auto simp: inodes_wf_def less new_dir_inode_def)
  next
    case 2
    then show ?case using meta_wf_dirs [OF wf] fresh ne d
      by (auto simp: dirs_wf_def new_dir_inode_def ok(1) bt_wf_insert)
  next
    case 3
    then show ?case using meta_wf_handles [OF wf] by (simp add: handles_wf_def)
  next
    case 4
    then show ?case using meta_wf_nodes [OF wf] by (simp add: nodes_wf_def)
  qed
  then show ?thesis
    unfolding meta_mkdir_ok [OF ok fresh_dir [OF wf]] Let_def fst_conv
    by (rule meta_wf_modify) simp_all
qed

section \<open>Removing an entry with its inode\<close>

text \<open>
  Unlink, rmdir and the replacing half of rename leave the same change behind: the
  entry, the inode and, for a directory, its empty table are gone.
\<close>

definition detach :: "inode_id \<Rightarrow> string \<Rightarrow> dir \<Rightarrow> inode_id \<Rightarrow> meta_state \<Rightarrow> meta_state" where
  "detach p n d c s = s\<lparr>inodes := (inodes s)(c := None), dirs := (dirs s)(c := None, p \<mapsto> bt_remove n d)\<rparr>"

lemma detach_frame [simp]:
  "next_ino (detach p n d c s) = next_ino s" "open_handles (detach p n d c s) = open_handles s"
  "next_fh (detach p n d c s) = next_fh s" "nodes (detach p n d c s) = nodes s"
  "last_heartbeat (detach p n d c s) = last_heartbeat s"
  "replication_factor (detach p n d c s) = replication_factor s"
  by (simp_all add: detach_def)

lemma entry_parent_neq:
  assumes "entry s p n = Some c" and "dirs s c \<in> {None, Some []}"
  shows "p \<noteq> c"
  using assms entry_SomeD by fastforce

lemma abs_detach:
  assumes "entry s p n = Some c" and "dirs s p = Some d" and "dirs s c \<in> {None, Some []}"
  shows "abs_ns (detach p n d c s) = ns_del p n c (abs_ns s)"
  using entry_parent_neq [OF assms(1,3)] assms(2,3)
  by (intro namespace_eqI) (auto simp: abs_ns_def ns_del_def detach_def entry_def)

lemma meta_wf_detach:
  assumes wf: "meta_wf s" and d: "dirs s p = Some d" and "p \<noteq> c"
  shows "meta_wf (detach p n d c s)"
  unfolding meta_wf_def
proof (intro conjI, goal_cases)
  case 1
  then show ?case using meta_wf_inodes [OF wf] by (auto simp: inodes_wf_def detach_def)
next
  case 2
  then show ?case using meta_wf_dirs [OF wf] d \<open>p \<noteq> c\<close>
    by (auto simp: dirs_wf_def detach_def bt_wf_remove)
next
  case 3
  then show ?case using meta_wf_handles [OF wf] by (simp add: handles_wf_def)
next
  case 4
  then show ?case using meta_wf_nodes [OF wf] by (simp add: nodes_wf_def)
qed

lemma empty_dir_leaf: "dirs s c \<in> {None, Some []} \<Longrightarrow> ns_leaf (abs_ns s) c"
  by (auto simp: ns_leaf_def ns_simps entry_def)

lemma dir_leaf_iff: "dirs s c = Some d \<Longrightarrow> dirs_wf s \<Longrightarrow> ns_leaf (abs_ns s) c \<longleftrightarrow> d = []"
  by (cases d) (auto simp: ns_leaf_def ns_simps entry_def bt_get_def)

lemma ns_ok_detach:
  assumes "ns_ok (abs_ns s)" and "entry s p n = Some c" and "dirs s p = Some d" and "dirs s c \<in> {None, Some []}"
  shows "ns_ok (abs_ns (detach p n d c s))"
  unfolding abs_detach [OF assms(2-4)]
  by (rule ns_ok_leaf_del) (use assms in \<open>simp_all add: ns_simps empty_dir_leaf\<close>)

lemma non_dir_no_table:
  "meta_wf s \<Longrightarrow> inodes s c = Some n \<Longrightarrow> i_kind n \<noteq> Dir \<Longrightarrow> dirs s c = None"
  using dirs_wf_iff [OF meta_wf_dirs, of s c] by auto

lemma fire_delete_blocks_Nil [simp]: "fire_delete_blocks [] addrs ino token = []"
  by (simp add: fire_delete_blocks_def)

lemma node_addrs_of_cong: "nodes s = nodes t \<Longrightarrow> node_addrs_of s = node_addrs_of t"
  by (simp add: node_addrs_of_def)

subsection \<open>Unlink\<close>

lemma meta_unlink_missing:
  "entry s (InodeId (ul_parent_ino r)) (ul_name r) = None \<Longrightarrow> meta_unlink token r s = (s, [], Err not_found)"
  by (simp add: meta_unlink_def)

lemma meta_unlink_dangling:
  "entry s (InodeId (ul_parent_ino r)) (ul_name r) = Some c \<Longrightarrow> inodes s c = None
     \<Longrightarrow> meta_unlink token r s = (s, [], Err not_found)"
  by (simp add: meta_unlink_def)

lemma meta_unlink_dir:
  "entry s (InodeId (ul_parent_ino r)) (ul_name r) = Some c \<Longrightarrow> inodes s c = Some n \<Longrightarrow> i_kind n = Dir
     \<Longrightarrow> meta_unlink token r s = (s, [], Err (st_invalid_argument ''is a directory''))"
  by (simp add: meta_unlink_def)

lemma meta_unlink_ok:
  assumes wf: "meta_wf s" and e: "entry s (InodeId (ul_parent_ino r)) (ul_name r) = Some c"
    and d: "dirs s (InodeId (ul_parent_ino r)) = Some d"
    and n: "inodes s c = Some n" and k: "i_kind n \<noteq> Dir"
  shows "meta_unlink token r s =
    (detach (InodeId (ul_parent_ino r)) (ul_name r) d c s,
     fire_delete_blocks (i_blocks n) (node_addrs_of s) c token, Ok ())"
proof -
  have "(dirs s)(c := None) = dirs s"
    using non_dir_no_table [OF wf n k] by auto
  then show ?thesis
    using assms by (simp add: meta_unlink_def with_dir_def remove_inode_def detach_def Let_def node_addrs_of_def)
qed

lemma meta_unlink_cases:
  obtains (fail) e where "meta_unlink token r s = (s, [], Err e)"
      "\<And>c n. entry s (InodeId (ul_parent_ino r)) (ul_name r) = Some c \<Longrightarrow> inodes s c = Some n \<Longrightarrow> i_kind n = Dir"
  | (ok) c d n where "entry s (InodeId (ul_parent_ino r)) (ul_name r) = Some c"
      "dirs s (InodeId (ul_parent_ino r)) = Some d" "inodes s c = Some n" "i_kind n \<noteq> Dir"
proof (cases "entry s (InodeId (ul_parent_ino r)) (ul_name r)")
  case None
  then show ?thesis using meta_unlink_missing by (intro fail) simp_all
next
  case (Some c)
  obtain d where d: "dirs s (InodeId (ul_parent_ino r)) = Some d"
    using entry_SomeD [OF Some] by blast
  show ?thesis
  proof (cases "inodes s c")
    case None
    show ?thesis by (rule fail [OF meta_unlink_dangling [OF Some None]]) (use Some None in simp)
  next
    case n: (Some n)
    show ?thesis
    proof (cases "i_kind n = Dir")
      case True
      show ?thesis by (rule fail [OF meta_unlink_dir [OF Some n True]]) (use Some n True in simp)
    qed (rule ok [OF Some d n])
  qed
qed

lemma unlink_refines:
  assumes wf: "meta_wf s" and ns: "ns_ok (abs_ns s)"
  shows "ns_serve (abs_ns s) (meta_label token (OpUnlink r) s) (abs_ns (fst (meta_unlink token r s)))"
proof (cases rule: meta_unlink_cases [of token r s])
  case (fail e)
  have "kinds (abs_ns s) c = Some Dir" if "edges (abs_ns s) (InodeId (ul_parent_ino r), ul_name r) = Some c" for c
    using ns_ok_edge [OF ns that] fail(2) [of c] that by (auto simp: ns_simps)
  then show ?thesis using fail(1) by (simp add: ns_serve.unlink_refused)
next
  case (ok c d n)
  then show ?thesis
    using non_dir_no_table [OF wf ok(3,4)] abs_detach [OF ok(1,2)]
    by (simp add: meta_unlink_ok [OF wf ok]) (rule ns_serve.unlink, simp_all add: ns_simps)
qed

lemma meta_wf_unlink:
  assumes "meta_wf s"
  shows "meta_wf (fst (meta_unlink token r s))"
proof (cases rule: meta_unlink_cases [of token r s])
  case (fail e)
  then show ?thesis using assms by simp
next
  case (ok c d n)
  then have "InodeId (ul_parent_ino r) \<noteq> c"
    using non_dir_no_table [OF assms ok(3,4)] by auto
  then show ?thesis
    by (simp add: meta_unlink_ok [OF assms ok] meta_wf_detach [OF assms ok(2)])
qed

subsection \<open>Rmdir\<close>

lemma meta_rmdir_missing:
  "entry s (InodeId (rd_parent_ino r)) (rd_name r) = None \<Longrightarrow> meta_rmdir r s = (s, Err not_found)"
  by (simp add: meta_rmdir_def)

lemma meta_rmdir_not_dir:
  "entry s (InodeId (rd_parent_ino r)) (rd_name r) = Some c \<Longrightarrow> dirs s c = None
     \<Longrightarrow> meta_rmdir r s = (s, Err (st_invalid_argument ''not a directory''))"
  by (simp add: meta_rmdir_def)

lemma meta_rmdir_not_empty:
  "entry s (InodeId (rd_parent_ino r)) (rd_name r) = Some c \<Longrightarrow> dirs s c = Some cd \<Longrightarrow> cd \<noteq> []
     \<Longrightarrow> meta_rmdir r s = (s, Err (st_failed_precondition ''directory not empty''))"
  by (simp add: meta_rmdir_def)

lemma meta_rmdir_ok:
  assumes e: "entry s (InodeId (rd_parent_ino r)) (rd_name r) = Some c"
    and d: "dirs s (InodeId (rd_parent_ino r)) = Some d" and c: "dirs s c = Some []"
  shows "meta_rmdir r s =
    (modify_inode (InodeId (rd_parent_ino r)) nlink_dec
       (detach (InodeId (rd_parent_ino r)) (rd_name r) d c s), Ok ())"
proof -
  have "InodeId (rd_parent_ino r) \<noteq> c"
    using entry_parent_neq [OF e] c by simp
  then show ?thesis
    using assms by (simp add: meta_rmdir_def with_dir_def remove_inode_def detach_def Let_def)
qed

lemma meta_rmdir_cases:
  obtains (fail) e where "meta_rmdir r s = (s, Err e)"
      "\<And>c. entry s (InodeId (rd_parent_ino r)) (rd_name r) = Some c \<Longrightarrow> dirs s c \<noteq> Some []"
  | (ok) c d where "entry s (InodeId (rd_parent_ino r)) (rd_name r) = Some c"
      "dirs s (InodeId (rd_parent_ino r)) = Some d" "dirs s c = Some []"
proof (cases "entry s (InodeId (rd_parent_ino r)) (rd_name r)")
  case None
  then show ?thesis using meta_rmdir_missing by (intro fail) simp_all
next
  case (Some c)
  obtain d where d: "dirs s (InodeId (rd_parent_ino r)) = Some d"
    using entry_SomeD [OF Some] by blast
  show ?thesis
  proof (cases "dirs s c")
    case None
    show ?thesis by (rule fail [OF meta_rmdir_not_dir [OF Some None]]) (use Some None in simp)
  next
    case cd: (Some cd)
    show ?thesis
    proof (cases "cd = []")
      case False
      show ?thesis by (rule fail [OF meta_rmdir_not_empty [OF Some cd False]]) (use Some cd False in simp)
    qed (use ok [OF Some d] cd in simp)
  qed
qed

lemma rmdir_refines:
  assumes wf: "meta_wf s"
  shows "ns_serve (abs_ns s) (meta_label token (OpRmdir r) s) (abs_ns (fst (meta_rmdir r s)))"
proof (cases rule: meta_rmdir_cases [of r s])
  case (fail e)
  have "kinds (abs_ns s) c \<noteq> Some Dir \<or> \<not> ns_leaf (abs_ns s) c"
    if "edges (abs_ns s) (InodeId (rd_parent_ino r), rd_name r) = Some c" for c
    using fail(2) [of c] that dirs_wf_iff [OF meta_wf_dirs [OF wf], of c] dir_leaf_iff [OF _ meta_wf_dirs [OF wf], of c]
    by (cases "dirs s c") (auto simp: ns_simps)
  then show ?thesis using fail(1) by (simp add: ns_serve.rmdir_refused)
next
  case (ok c d)
  have "kinds (abs_ns s) c = Some Dir"
    using dirs_wf_iff [OF meta_wf_dirs [OF wf], of c] ok(3) by (simp add: ns_simps)
  then show ?thesis
    using ok abs_detach [OF ok(1,2)] empty_dir_leaf [of s c]
    by (simp add: meta_rmdir_ok [OF ok] abs_ns_modify_inode) (rule ns_serve.rmdir, simp_all add: ns_simps)
qed

lemma meta_wf_rmdir:
  assumes "meta_wf s"
  shows "meta_wf (fst (meta_rmdir r s))"
proof (cases rule: meta_rmdir_cases [of r s])
  case (fail e)
  then show ?thesis using assms by simp
next
  case (ok c d)
  then have "InodeId (rd_parent_ino r) \<noteq> c"
    using entry_parent_neq [OF ok(1)] by simp
  then show ?thesis
    by (simp add: meta_rmdir_ok [OF ok] meta_wf_modify meta_wf_detach [OF assms ok(2)])
qed

subsection \<open>Rename\<close>

text \<open>An inode without its link count, the only inode field that rename changes.\<close>

definition strip_nlink :: "inode option \<Rightarrow> inode option" where
  "strip_nlink v = map_option (\<lambda>n. n\<lparr>i_nlink := 0\<rparr>) v"

lemma strip_nlink_None [simp]: "strip_nlink None = None"
  by (simp add: strip_nlink_def)

lemma strip_nlink_modify [simp]:
  "strip_nlink (inodes (modify_inode i nlink_dec s) j) = strip_nlink (inodes s j)"
  "strip_nlink (inodes (modify_inode i nlink_inc s) j) = strip_nlink (inodes s j)"
  by (cases "inodes s i"; simp add: strip_nlink_def ns_simps nlink_dec_def nlink_inc_def)+

lemma strip_nlink_detach:
  "strip_nlink (inodes (detach p n d c s) j) = (if j = c then None else strip_nlink (inodes s j))"
  by (simp add: detach_def)

lemma detach_modify:
  "dirs s p = Some d \<Longrightarrow> c \<noteq> p \<Longrightarrow>
   with_dir p (bt_remove n) (remove_inode c (modify_inode p f (s\<lparr>dirs := (dirs s)(c := None)\<rparr>)))
     = Some (detach p n d c (modify_inode p f s))"
  by (simp add: with_dir_def remove_inode_def modify_inode_def put_inode_def detach_def
      split: option.split)

lemma detach_no_table:
  "dirs s p = Some d \<Longrightarrow> dirs s c = None \<Longrightarrow>
   with_dir p (bt_remove n) (remove_inode c s) = Some (detach p n d c s)"
proof -
  assume d: "dirs s p = Some d" and c: "dirs s c = None"
  have "(dirs s)(c := None) = dirs s" using c by auto
  with d show ?thesis by (simp add: with_dir_def remove_inode_def detach_def)
qed

lemma rename_drop_dst_free:
  "entry s dp dn = None \<Longrightarrow> rename_drop_dst dp dn s = (s, Ok ([], None))"
  by (simp add: rename_drop_dst_def)

lemma rename_drop_dst_not_empty:
  "entry s dp dn = Some c \<Longrightarrow> inodes s c = Some n \<Longrightarrow> i_kind n = Dir \<Longrightarrow> dirs s c = Some cd \<Longrightarrow> cd \<noteq> []
     \<Longrightarrow> rename_drop_dst dp dn s = (s, Err (st_failed_precondition ''destination directory not empty''))"
  by (simp add: rename_drop_dst_def)

lemma rename_drop_dst_dir:
  assumes "entry s dp dn = Some c" and "inodes s c = Some n" and "i_kind n = Dir"
    and "dirs s c = Some []" and "dirs s dp = Some d"
  shows "rename_drop_dst dp dn s = (detach dp dn d c (modify_inode dp nlink_dec s), Ok ([], None))"
  using assms entry_parent_neq [OF assms(1)]
  by (simp add: rename_drop_dst_def rename_finish_dst_def detach_modify)

lemma rename_drop_dst_file:
  assumes "meta_wf s" and "entry s dp dn = Some c" and "inodes s c = Some n" and "i_kind n \<noteq> Dir"
    and "dirs s dp = Some d"
  shows "rename_drop_dst dp dn s =
    (detach dp dn d c s, Ok (if i_kind n = File then (i_blocks n, Some c) else ([], None)))"
  using assms non_dir_no_table [OF assms(1,3,4)]
  by (cases "i_kind n") (simp_all add: rename_drop_dst_def rename_finish_dst_def detach_no_table)

text \<open>
  When the tables agree the first half of rename either leaves the state alone or
  detaches the destination (after adjusting the link count of its parent).
\<close>

lemma rename_drop_dst_cases:
  assumes wf: "meta_wf s"
  obtains (free) "entry s dp dn = None" "rename_drop_dst dp dn s = (s, Ok ([], None))"
  | (dangling) x where "entry s dp dn = Some x" "inodes s x = None" "rename_drop_dst dp dn s = (s, Err not_found)"
  | (fail) e x d where "rename_drop_dst dp dn s = (s, Err e)" "entry s dp dn = Some x" "dirs s x = Some d" "d \<noteq> []"
  | (drop) c d s0 n where "entry s dp dn = Some c" "dirs s dp = Some d" "dirs s c \<in> {None, Some []}"
      "abs_ns s0 = abs_ns s" "dirs s0 = dirs s" "meta_wf s0"
      "rename_drop_dst dp dn s =
         (detach dp dn d c s0, Ok (if i_kind n = File then (i_blocks n, Some c) else ([], None)))"
      "inodes s c = Some n" "nodes s0 = nodes s"
      "\<And>j. strip_nlink (inodes s0 j) = strip_nlink (inodes s j)"
      "s0 = (if i_kind n = Dir then modify_inode dp nlink_dec s else s)"
proof (cases "entry s dp dn")
  case None
  then show ?thesis using free rename_drop_dst_free by blast
next
  case (Some c)
  obtain d where d: "dirs s dp = Some d" using entry_SomeD [OF Some] by blast
  show ?thesis
  proof (cases "inodes s c")
    case None
    then show ?thesis using dangling [OF Some None] Some by (simp add: rename_drop_dst_def)
  next
    case n: (Some n)
    show ?thesis
    proof (cases "i_kind n = Dir")
      case True
      then obtain cd where cd: "dirs s c = Some cd"
        using dirs_wf_iff [OF meta_wf_dirs [OF wf], of c] n by auto
      show ?thesis
      proof (cases "cd = []")
        case True
        with cd rename_drop_dst_dir [OF Some n \<open>i_kind n = Dir\<close> _ d] show ?thesis
          by (intro drop [of c d "modify_inode dp nlink_dec s" n])
            (simp_all add: Some d n \<open>i_kind n = Dir\<close> abs_ns_modify_inode meta_wf_modify wf)
      next
        case False
        then show ?thesis
          using fail [OF _ Some cd] rename_drop_dst_not_empty [OF Some n \<open>i_kind n = Dir\<close> cd] by blast
      qed
    next
      case False
      with non_dir_no_table [OF wf n] rename_drop_dst_file [OF wf Some n _ d] wf show ?thesis
        by (intro drop [of c d s n]) (simp_all add: Some d n)
    qed
  qed
qed

lemma abs_move:
  assumes sd: "dirs s sp = Some d" and dd: "((dirs s)(sp \<mapsto> bt_remove sn d)) dp = Some d'"
  shows "abs_ns (s\<lparr>dirs := (dirs s)(sp \<mapsto> bt_remove sn d, dp \<mapsto> bt_insert dn c d')\<rparr>)
    = ns_move sp sn dp dn c (abs_ns s)"
  by (rule namespace_eqI)
    (use assms in \<open>auto simp: abs_ns_def ns_move_def entry_def split: if_splits\<close>)

lemma meta_wf_move:
  assumes wf: "meta_wf s" and sd: "dirs s sp = Some d"
    and dd: "((dirs s)(sp \<mapsto> bt_remove sn d)) dp = Some d'"
  shows "meta_wf (s\<lparr>dirs := (dirs s)(sp \<mapsto> bt_remove sn d, dp \<mapsto> bt_insert dn c d')\<rparr>)"
proof -
  have t: "meta_wf (s\<lparr>dirs := (dirs s)(sp \<mapsto> bt_remove sn d)\<rparr>)" (is "meta_wf ?t")
    using dirs_wf_bt [OF meta_wf_dirs [OF wf] sd] by (intro meta_wf_with_dir [OF wf sd] bt_wf_remove)
  have "bt_wf d'"
    using dirs_wf_bt [OF meta_wf_dirs [OF t], of dp d'] dd by simp
  then have "meta_wf (?t\<lparr>dirs := (dirs ?t)(dp \<mapsto> bt_insert dn c d')\<rparr>)"
    using dd by (intro meta_wf_with_dir [OF t, of dp d'] bt_wf_insert) simp_all
  then show ?thesis by simp
qed

text \<open>
  The second half of rename, run on any state in which the source entry is present and
  the destination is a directory with the name free.
\<close>

definition rename_move ::
  "inode_id \<Rightarrow> string \<Rightarrow> dir \<Rightarrow> inode_id \<Rightarrow> string \<Rightarrow> dir \<Rightarrow> inode_id \<Rightarrow> meta_state \<Rightarrow> meta_state" where
  "rename_move sp sn d dp dn d' c s =
     (let s3 = s\<lparr>dirs := (dirs s)(sp \<mapsto> bt_remove sn d, dp \<mapsto> bt_insert dn c d')\<rparr>
      in if map_option i_kind (inodes s3 c) = Some Dir \<and> sp \<noteq> dp
         then modify_inode dp nlink_inc (modify_inode sp nlink_dec s3) else s3)"

lemma nodes_rename_move [simp]: "nodes (rename_move sp sn d dp dn d' c s) = nodes s"
  by (simp add: rename_move_def Let_def)

lemma meta_rename_eq:
  assumes e: "entry s (InodeId (rn_src_parent_ino r)) (rn_src_name r) = Some c"
    and drop: "rename_drop_dst (InodeId (rn_dst_parent_ino r)) (rn_dst_name r) s = (s1, Ok (blks, fino))"
    and sd: "dirs s1 (InodeId (rn_src_parent_ino r)) = Some d"
    and dd: "((dirs s1)(InodeId (rn_src_parent_ino r) \<mapsto> bt_remove (rn_src_name r) d))
               (InodeId (rn_dst_parent_ino r)) = Some d'"
  shows "meta_rename token r s =
    (rename_move (InodeId (rn_src_parent_ino r)) (rn_src_name r) d
       (InodeId (rn_dst_parent_ino r)) (rn_dst_name r) d' c s1,
     (case fino of None \<Rightarrow> [] | Some ino \<Rightarrow> fire_delete_blocks blks (node_addrs_of s1) ino token), Ok ())"
proof -
  have "with_dir (InodeId (rn_src_parent_ino r)) (bt_remove (rn_src_name r)) s1 =
      Some (s1\<lparr>dirs := (dirs s1)(InodeId (rn_src_parent_ino r) \<mapsto> bt_remove (rn_src_name r) d)\<rparr>)" (is "_ = Some ?s2")
    using sd by (simp add: with_dir_def)
  moreover have "with_dir (InodeId (rn_dst_parent_ino r)) (bt_insert (rn_dst_name r) c) ?s2 =
      Some (s1\<lparr>dirs := (dirs s1)(InodeId (rn_src_parent_ino r) \<mapsto> bt_remove (rn_src_name r) d,
        InodeId (rn_dst_parent_ino r) \<mapsto> bt_insert (rn_dst_name r) c d')\<rparr>)"
    using dd by (simp add: with_dir_def)
  ultimately show ?thesis
    by (cases fino) (simp_all add: meta_rename_def e drop rename_move_def Let_def node_addrs_of_def)
qed

lemma abs_rename_move:
  assumes "dirs s sp = Some d" and "((dirs s)(sp \<mapsto> bt_remove sn d)) dp = Some d'"
  shows "abs_ns (rename_move sp sn d dp dn d' c s) = ns_move sp sn dp dn c (abs_ns s)"
  unfolding rename_move_def Let_def
  by (simp add: abs_move [OF assms] abs_ns_modify_inode del: fun_upd_apply)

lemma meta_wf_rename_move:
  assumes "meta_wf s" and "dirs s sp = Some d" and "((dirs s)(sp \<mapsto> bt_remove sn d)) dp = Some d'"
  shows "meta_wf (rename_move sp sn d dp dn d' c s)"
  unfolding rename_move_def Let_def
  by (simp add: meta_wf_move [OF assms] meta_wf_modify del: fun_upd_apply)

lemma rename_after_drop:
  assumes wf1: "meta_wf s1" and e: "entry s (InodeId (rn_src_parent_ino r)) (rn_src_name r) = Some c"
    and drop: "rename_drop_dst (InodeId (rn_dst_parent_ino r)) (rn_dst_name r) s = (s1, Ok v)"
    and e1: "entry s1 (InodeId (rn_src_parent_ino r)) (rn_src_name r) = Some c"
    and dd: "dirs s1 (InodeId (rn_dst_parent_ino r)) \<noteq> None"
  shows "meta_wf (fst (meta_rename token r s)) \<and> snd (snd (meta_rename token r s)) = Ok ()
    \<and> abs_ns (fst (meta_rename token r s)) = ns_move (InodeId (rn_src_parent_ino r)) (rn_src_name r)
          (InodeId (rn_dst_parent_ino r)) (rn_dst_name r) c (abs_ns s1)
    \<and> (\<forall>j. strip_nlink (inodes (fst (meta_rename token r s)) j) = strip_nlink (inodes s1 j))
    \<and> fst (snd (meta_rename token r s)) =
        (case snd v of None \<Rightarrow> [] | Some ino \<Rightarrow> fire_delete_blocks (fst v) (node_addrs_of s1) ino token)"
proof -
  obtain d where d: "dirs s1 (InodeId (rn_src_parent_ino r)) = Some d"
    using entry_SomeD [OF e1] by blast
  obtain d' where d': "((dirs s1)(InodeId (rn_src_parent_ino r) \<mapsto> bt_remove (rn_src_name r) d))
      (InodeId (rn_dst_parent_ino r)) = Some d'"
    using dd by (cases "rn_src_parent_ino r = rn_dst_parent_ino r") auto
  obtain blks fino where v: "v = (blks, fino)" by (cases v)
  note eq = meta_rename_eq [OF e drop [unfolded v] d d', of token]
  have "strip_nlink (inodes (rename_move sp sn d dp dn d' c s1) j) = strip_nlink (inodes s1 j)" for sp sn dp dn j
    by (simp add: rename_move_def Let_def)
  then show ?thesis
    by (cases fino)
      (simp_all add: eq v abs_rename_move [OF d d'] meta_wf_rename_move [OF wf1 d d'] del: fun_upd_apply)
qed

text \<open>
  Whatever a rename names, the tables agree afterwards, and a delete task it spawns is for
  an inode that existed.
\<close>

lemma meta_wf_with: "meta_wf s \<Longrightarrow> with_dir p f s = Some t \<Longrightarrow> (\<And>d. bt_wf d \<Longrightarrow> bt_wf (f d)) \<Longrightarrow> meta_wf t"
  using dirs_wf_bt [OF meta_wf_dirs] meta_wf_with_dir by (auto simp: with_dir_iff)

lemma rename_second_half:
  assumes wf: "meta_wf s1" and drop: "rename_drop_dst (InodeId (rn_dst_parent_ino r)) (rn_dst_name r) s = (s1, v)"
  shows "meta_wf (fst (meta_rename token r s)) \<or> fst (meta_rename token r s) = s"
proof -
  have step: "meta_wf t" if "with_dir p (bt_remove n) s1 = Some t" for p n t
    using meta_wf_with [OF wf that] bt_wf_remove by blast
  have step2: "meta_wf u" if "with_dir p (bt_remove n) s1 = Some t" "with_dir q (bt_insert m c) t = Some u" for p n t q m c u
    by (rule meta_wf_with [OF step [OF that(1)] that(2)]) (rule bt_wf_insert)
  show ?thesis
    unfolding meta_rename_def Let_def drop
    by (auto simp: wf intro!: meta_wf_modify intro: step step2 split: option.split result.split)
qed

lemma rename_any:
  assumes wf: "meta_wf s"
  shows "meta_wf (fst (meta_rename token r s))"
    and "t \<in> set (fst (snd (meta_rename token r s))) \<Longrightarrow>
      \<exists>x n bs addrs. inodes s x = Some n \<and> t \<in> set (fire_delete_blocks bs addrs x token)"
proof -
  let ?dp = "InodeId (rn_dst_parent_ino r)"
  obtain s1 v where d: "rename_drop_dst ?dp (rn_dst_name r) s = (s1, v)" by fastforce
  have 1: "meta_wf s1 \<and> (\<forall>bs x. v = Ok (bs, Some x) \<longrightarrow> inodes s x \<noteq> None)"
    using wf
  proof (cases rule: rename_drop_dst_cases [of s ?dp "rn_dst_name r"])
    case (drop c dd s0 n)
    have "meta_wf (detach ?dp (rn_dst_name r) dd c s0)"
      using meta_wf_detach [OF drop(6) _ entry_parent_neq [OF drop(1,3)]] drop(2,5) by simp
    then show ?thesis using d drop(7,8) by (auto split: if_splits)
  qed (use wf d in auto)
  then show "meta_wf (fst (meta_rename token r s))"
    using rename_second_half [OF _ d, of token] wf by auto
  show "\<exists>x n bs addrs. inodes s x = Some n \<and> t \<in> set (fire_delete_blocks bs addrs x token)"
    if t: "t \<in> set (fst (snd (meta_rename token r s)))"
  proof -
    obtain bs x addrs where "v = Ok (bs, Some x)" "t \<in> set (fire_delete_blocks bs addrs x token)"
      using t by (cases v) (auto simp: meta_rename_def d Let_def split: option.splits if_splits)
    then show ?thesis using 1 by blast
  qed
qed

text \<open>
  The whole of a safe rename whose source exists: either the destination is refused and
  nothing changes, or the namespace makes the two abstract steps and inodes keep
  everything but their link counts.
\<close>

lemma rename_cases:
  assumes wf: "meta_wf s" and ns: "ns_ok (abs_ns s)" and safe: "rename_safe r s"
    and e: "entry s (InodeId (rn_src_parent_ino r)) (rn_src_name r) = Some c"
  obtains (fail) err x d where "meta_rename token r s = (s, [], Err err)"
    "entry s (InodeId (rn_dst_parent_ino r)) (rn_dst_name r) = Some x" "dirs s x = Some d" "d \<noteq> []"
  | (move) s' tasks where "meta_rename token r s = (s', tasks, Ok ())" "meta_wf s'"
    "\<And>x. entry s (InodeId (rn_dst_parent_ino r)) (rn_dst_name r) = Some x \<Longrightarrow> dirs s x \<in> {None, Some []}"
    "abs_ns s' = ns_move (InodeId (rn_src_parent_ino r)) (rn_src_name r)
       (InodeId (rn_dst_parent_ino r)) (rn_dst_name r) c
       (ns_replace (InodeId (rn_dst_parent_ino r)) (rn_dst_name r) (abs_ns s))"
    "\<And>j. strip_nlink (inodes s' j) =
       (if entry s (InodeId (rn_dst_parent_ino r)) (rn_dst_name r) = Some j then None
        else strip_nlink (inodes s j))"
    "tasks = (case entry s (InodeId (rn_dst_parent_ino r)) (rn_dst_name r) of None \<Rightarrow> []
       | Some x \<Rightarrow> (case inodes s x of None \<Rightarrow> [] | Some n \<Rightarrow>
           if i_kind n = File then fire_delete_blocks (i_blocks n) (node_addrs_of s) x token else []))"
proof -
  let ?sp = "InodeId (rn_src_parent_ino r)" and ?dp = "InodeId (rn_dst_parent_ino r)"
  have dd: "dirs s ?dp \<noteq> None" and ne: "(?sp, rn_src_name r) \<noteq> (?dp, rn_dst_name r)"
    using safe e by (auto simp: rename_safe_def)
  from wf show ?thesis
  proof (cases rule: rename_drop_dst_cases [of s ?dp "rn_dst_name r"])
    case (dangling x)
    then show ?thesis using ns_ok_edge [OF ns, of ?dp "rn_dst_name r" x] by (simp add: ns_simps)
  next
    case free
    obtain s' tasks u where eq: "meta_rename token r s = (s', tasks, u)" by (metis prod_cases3)
    show ?thesis
      using rename_after_drop [OF wf e free(2) e dd, of token] free(1) eq
      by (intro move [of s' tasks]) (auto simp: ns_replace_def ns_simps)
  next
    case (fail err x d)
    then show ?thesis using that(1) [of err x d] e by (simp add: meta_rename_def)
  next
    case (drop c' d s0 n)
    let ?s1 = "detach ?dp (rn_dst_name r) d c' s0"
    have ents: "entry s0 = entry s" using drop(5) by (simp add: entry_def [abs_def])
    have dp: "?dp \<noteq> c'" using entry_parent_neq [OF drop(1,3)] .
    have abs1: "abs_ns ?s1 = ns_del ?dp (rn_dst_name r) c' (abs_ns s)"
      using abs_detach [of s0 ?dp "rn_dst_name r" c' d] drop ents by simp
    have wf1: "meta_wf ?s1"
      using meta_wf_detach [OF drop(6) _ dp] drop by simp
    have "entry ?s1 p m = edges (abs_ns ?s1) (p, m)" for p m
      by (simp add: ns_simps)
    then have e1: "entry ?s1 ?sp (rn_src_name r) = Some c"
      using e ne by (auto simp: abs1 ns_del_def ns_simps)
    have dd1: "dirs ?s1 ?dp \<noteq> None" by (simp add: detach_def)
    have addrs: "node_addrs_of ?s1 = node_addrs_of s"
      using drop(9) by (intro node_addrs_of_cong) simp
    obtain s' tasks u where eq: "meta_rename token r s = (s', tasks, u)" by (metis prod_cases3)
    note after = rename_after_drop [OF wf1 e drop(7) e1 dd1, of token, unfolded eq]
    show ?thesis
      by (rule move [of s' tasks])
        (use eq after drop(1,3,8,10) abs1 addrs in \<open>auto simp: strip_nlink_detach ns_replace_def ns_simps\<close>)
  qed
qed

lemma rename_refines:
  assumes wf: "meta_wf s" and ns: "ns_ok (abs_ns s)" and safe: "rename_safe r s"
  shows "ns_serve (abs_ns s) (meta_label token (OpRename r) s) (abs_ns (fst (meta_rename token r s)))"
proof (cases "entry s (InodeId (rn_src_parent_ino r)) (rn_src_name r)")
  case None
  then show ?thesis by (simp add: meta_rename_def ns_serve.rename_refused ns_simps)
next
  case (Some c)
  let ?sp = "InodeId (rn_src_parent_ino r)" and ?dp = "InodeId (rn_dst_parent_ino r)"
  from wf ns safe Some show ?thesis
  proof (cases rule: rename_cases [of s r c token])
    case (fail err x d)
    then have "\<not> ns_leaf (abs_ns s) x" using dir_leaf_iff [OF _ meta_wf_dirs [OF wf]] by blast
    then have "ns_serve (abs_ns s) (NsRename ?sp (rn_src_name r) ?dp (rn_dst_name r), Refused) (abs_ns s)"
      using fail(2) by (intro ns_serve.rename_refused) (auto simp: ns_simps)
    then show ?thesis using fail(1) by simp
  next
    case (move s' tasks)
    have "kinds (abs_ns s) ?dp = Some Dir" and "(?sp, rn_src_name r) \<noteq> (?dp, rn_dst_name r)"
      and "\<not> ns_below (abs_ns s) c ?dp"
      using safe Some dirs_wf_iff [OF meta_wf_dirs [OF wf], of ?dp] by (auto simp: rename_safe_def ns_simps)
    moreover have "ns_leaf (abs_ns s) x" if "edges (abs_ns s) (?dp, rn_dst_name r) = Some x" for x
      using move(3) [of x] that by (intro empty_dir_leaf) (simp add: ns_simps)
    ultimately have "ns_serve (abs_ns s) (NsRename ?sp (rn_src_name r) ?dp (rn_dst_name r), Fine) (abs_ns s')"
      unfolding move(4) using Some by (intro ns_serve.rename) (simp_all add: ns_simps)
    then show ?thesis using move(1) by simp
  qed
qed

section \<open>Handlers that keep the namespace\<close>

text \<open>An inode update that keeps kind, number and link count and leaves an ordered block map.\<close>

definition same_core :: "inode \<Rightarrow> inode \<Rightarrow> bool" where
  "same_core n n' \<longleftrightarrow> i_kind n' = i_kind n \<and> i_ino n' = i_ino n \<and> i_nlink n' = i_nlink n
     \<and> (bt_wf (i_blocks n) \<longrightarrow> bt_wf (i_blocks n'))"

lemma same_core_refl [simp]: "same_core n n"
  by (simp add: same_core_def)

lemma same_core_trans: "same_core a b \<Longrightarrow> same_core b c \<Longrightarrow> same_core a c"
  by (simp add: same_core_def)

lemma same_core_set_opt: "(\<And>v. same_core n (upd v n)) \<Longrightarrow> same_core n (set_opt v upd n)"
  by (simp add: set_opt_def split: option.split)

lemma same_core_set_time:
  "set_time sec ns upd n = Some n' \<Longrightarrow> (\<And>t. same_core n (upd t n)) \<Longrightarrow> same_core n n'"
  by (auto simp: set_time_def split: option.splits)

lemma same_core_set_size: "same_core n (fst (set_size sz n))"
  by (simp add: set_size_def same_core_def Let_def bt_wf_retain)

lemma meta_wf_put_core:
  assumes wf: "meta_wf s" and n: "inodes s i = Some n" and core: "same_core n n'"
  shows "meta_wf (put_inode i n' s)" and "abs_ns (put_inode i n' s) = abs_ns s"
  using inodes_wfD [OF meta_wf_inodes [OF wf] n] core
    meta_wf_put_same [OF wf n, of n'] abs_ns_put_same [OF n, of n']
  by (simp_all add: same_core_def)

lemma meta_set_attr_core:
  assumes n: "inodes s (InodeId (sa_ino r)) = Some n"
  shows "\<exists>n'. same_core n n' \<and> fst (meta_set_attr token now r s) = put_inode (InodeId (sa_ino r)) n' s"
proof -
  let ?n1 = "set_opt (sa_mode r) (\<lambda>v n. n\<lparr>i_mode := v\<rparr>) n"
  let ?n2 = "set_opt (sa_uid r) (\<lambda>v n. n\<lparr>i_uid := v\<rparr>) ?n1"
  let ?n3 = "set_opt (sa_gid r) (\<lambda>v n. n\<lparr>i_gid := v\<rparr>) ?n2"
  have c1: "same_core n ?n1" by (rule same_core_set_opt) (simp add: same_core_def)
  have c2: "same_core ?n1 ?n2" by (rule same_core_set_opt) (simp add: same_core_def)
  have c3: "same_core ?n2 ?n3" by (rule same_core_set_opt) (simp add: same_core_def)
  have c: "same_core n ?n3" by (rule same_core_trans [OF same_core_trans [OF c1 c2] c3])
  show ?thesis
  proof (cases "set_time (sa_atime_s r) (sa_atime_ns r) (\<lambda>t n. n\<lparr>i_atime := t\<rparr>) ?n3")
    case None
    with n c show ?thesis by (auto simp: meta_set_attr_def Let_def)
  next
    case (Some n4)
    have c4: "same_core n n4"
      by (rule same_core_trans [OF c same_core_set_time [OF Some]]) (simp add: same_core_def)
    show ?thesis
    proof (cases "set_time (sa_mtime_s r) (sa_mtime_ns r) (\<lambda>t n. n\<lparr>i_mtime := t\<rparr>) n4")
      case None
      with n c4 Some show ?thesis by (auto simp: meta_set_attr_def Let_def)
    next
      case (Some n5)
      have c5: "same_core n n5"
        by (rule same_core_trans [OF c4 same_core_set_time [OF Some]]) (simp add: same_core_def)
      obtain n6 dropped where n6: "(case sa_size r of None \<Rightarrow> (n5, []) | Some sz \<Rightarrow> set_size sz n5) = (n6, dropped)"
        by fastforce
      have "same_core n5 n6"
        using n6 same_core_set_size [of n5] by (cases "sa_size r") (auto simp: prod_eq_iff)
      then have "same_core n (n6\<lparr>i_ctime := now\<rparr>)"
        using c5 by (simp add: same_core_def)
      with n n6 Some \<open>set_time _ _ _ ?n3 = Some n4\<close> show ?thesis
        by (auto simp: meta_set_attr_def Let_def)
    qed
  qed
qed

lemma set_attr_refines:
  assumes "meta_wf s"
  shows "abs_ns (fst (meta_set_attr token now r s)) = abs_ns s
    \<and> meta_wf (fst (meta_set_attr token now r s))"
proof (cases "inodes s (InodeId (sa_ino r))")
  case None
  then show ?thesis using assms by (simp add: meta_set_attr_def)
next
  case (Some n)
  then show ?thesis
    using meta_set_attr_core [OF Some, of token now] meta_wf_put_core [OF assms Some] by auto
qed

lemma meta_wf_open_handles:
  assumes "meta_wf s"
    and "\<And>fh h. m fh = Some h \<Longrightarrow> oh_fh h = fh \<and> fh < x"
  shows "meta_wf (s\<lparr>open_handles := m, next_fh := x\<rparr>)"
  using assms by (simp add: meta_wf_def inodes_wf_def dirs_wf_def handles_wf_def nodes_wf_def)

lemma meta_wf_drop_handle: "meta_wf s \<Longrightarrow> meta_wf (s\<lparr>open_handles := (open_handles s)(fh := None)\<rparr>)"
  by (simp add: meta_wf_def inodes_wf_def dirs_wf_def handles_wf_def nodes_wf_def)

lemma abs_ns_handles [simp]:
  "abs_ns (s\<lparr>open_handles := m\<rparr>) = abs_ns s" "abs_ns (s\<lparr>next_fh := x\<rparr>) = abs_ns s"
  by (rule abs_ns_cong; simp)+

lemma register_refines:
  assumes wf: "meta_wf s" and c: "counters_ok s"
  shows "abs_ns (snd (open_register r g s)) = abs_ns s \<and> meta_wf (snd (open_register r g s))"
proof -
  have "v < next_fh s + 1 \<longleftrightarrow> v < next_fh s \<or> v = next_fh s" for v
    using c by (simp add: counters_ok_def less_succ_u64)
  then show ?thesis
    using wf by (simp add: open_register_def alloc_fh_def Let_def meta_wf_def inodes_wf_def dirs_wf_def
        handles_wf_def nodes_wf_def)
qed

lemma same_core_close_apply: "same_core n (close_apply now t r n)"
  by (simp add: same_core_def close_apply_def)

lemma close_refines:
  assumes wf: "meta_wf s"
  shows "abs_ns (fst (meta_close now r s)) = abs_ns s \<and> meta_wf (fst (meta_close now r s))"
proof -
  let ?s1 = "s\<lparr>open_handles := (open_handles s)(cl_fh r := None)\<rparr>"
  have wf1: "meta_wf ?s1" by (rule meta_wf_drop_handle [OF wf])
  have put: "abs_ns (put_inode i (close_apply now t r n) ?s1) = abs_ns s
      \<and> meta_wf (put_inode i (close_apply now t r n) ?s1)" if "inodes s i = Some n" for i n t
    using meta_wf_put_core [OF wf1 _ same_core_close_apply, of i n] that by simp
  have "fst (meta_close now r s) \<in> {s, ?s1} \<or>
      (\<exists>i n t. inodes s i = Some n \<and> fst (meta_close now r s) = put_inode i (close_apply now t r n) ?s1)"
    unfolding meta_close_def Let_def by (simp split: option.splits) blast
  then show ?thesis using wf wf1 put by auto
qed

lemma alloc_step_eq:
  "alloc_step xxh3 ino idx (s, bm) =
     (case Option.bind (inodes s ino) (\<lambda>n. bt_get (i_blocks n) idx) of
        Some p \<Rightarrow> (s, bm @ [placement_to_block_loc idx p])
      | None \<Rightarrow>
          let p = place_block xxh3 (live_nodes s) (replication_factor s) ino idx
          in (modify_inode ino (\<lambda>n. n\<lparr>i_blocks := bt_insert idx p (i_blocks n)\<rparr>) s,
              bm @ [placement_to_block_loc idx p]))"
  by (simp add: alloc_step_def state_allocate_blocks_def Let_def split: option.split)

lemma alloc_step_refines:
  assumes "meta_wf (fst st)"
  shows "meta_wf (fst (alloc_step xxh3 ino idx st)) \<and> abs_ns (fst (alloc_step xxh3 ino idx st)) = abs_ns (fst st)"
  using assms
  by (cases st) (auto simp: alloc_step_eq Let_def intro!: meta_wf_modify abs_ns_modify_inode bt_wf_insert
      split: option.split)

lemma alloc_steps_refine:
  "meta_wf (fst st) \<Longrightarrow> meta_wf (fst (fold (alloc_step xxh3 ino) idxs st))
     \<and> abs_ns (fst (fold (alloc_step xxh3 ino) idxs st)) = abs_ns (fst st)"
  by (induction idxs arbitrary: st) (simp_all add: alloc_step_refines)

lemma allocate_refines:
  "meta_wf s \<Longrightarrow> abs_ns (fst (meta_allocate_blocks xxh3 r s)) = abs_ns s
     \<and> meta_wf (fst (meta_allocate_blocks xxh3 r s))"
  using alloc_steps_refine [of "(s, [])" xxh3 "InodeId (al_ino r)" "map BlockIdx (al_block_idxs r)"]
  by (auto simp: meta_allocate_blocks_def Let_def split: prod.splits)

lemma heartbeat_refines:
  assumes "meta_wf s"
  shows "abs_ns (fst (meta_heartbeat_node now r s)) = abs_ns s \<and> meta_wf (fst (meta_heartbeat_node now r s))"
proof -
  have "abs_ns (fst (meta_heartbeat_node now r s)) = abs_ns s"
    by (rule abs_ns_cong) (simp_all add: meta_heartbeat_node_def Let_def)
  moreover have "nodes_wf (fst (meta_heartbeat_node now r s))"
    using meta_wf_nodes [OF assms] by (simp add: nodes_wf_def meta_heartbeat_node_def Let_def hm_wf_insert)
  ultimately show ?thesis
    using assms by (simp add: meta_wf_def inodes_wf_def dirs_wf_def handles_wf_def meta_heartbeat_node_def Let_def)
qed

lemma tick_refines:
  assumes "meta_wf s"
  shows "abs_ns (heartbeat_tick now d s) = abs_ns s \<and> meta_wf (heartbeat_tick now d s)"
proof -
  have "abs_ns (heartbeat_tick now d s) = abs_ns s"
    by (rule abs_ns_cong) simp_all
  then show ?thesis
    using assms heartbeat_tick_nodes_wf [of s now d]
    by (simp add: meta_wf_def inodes_wf_def dirs_wf_def handles_wf_def)
qed

section \<open>The server implements the namespace\<close>

lemma kinds_dir_iff: "meta_wf s \<Longrightarrow> kinds (abs_ns s) i = Some Dir \<longleftrightarrow> dirs s i \<noteq> None"
  using dirs_wf_iff [OF meta_wf_dirs, of s i] by (simp add: ns_simps)

lemma kinds_fresh: "meta_wf s \<Longrightarrow> kinds (abs_ns s) (InodeId (next_ino s)) = None"
  using fresh_ino [OF meta_wf_inodes] by (simp add: ns_simps)

lemma create_refines:
  assumes wf: "meta_wf s"
  shows "ns_serve (abs_ns s) (meta_label token (OpCreate now r) s) (abs_ns (fst (meta_create now r s)))"
proof (cases rule: meta_create_cases [of now r s])
  case (fail e)
  then show ?thesis
    using kinds_dir_iff [OF wf, of "InodeId (cr_parent_ino r)"]
    by (simp, intro ns_serve.make_refused) (auto simp: ns_simps)
next
  case (ok d)
  have "meta_label token (OpCreate now r) s
      = (NsMake (InodeId (cr_parent_ino r)) (cr_name r) File, Made (InodeId (next_ino s)))"
    by (simp add: meta_create_ok [OF ok] Let_def build_attr_def new_file_inode_def split: prod.split)
  then show ?thesis
    unfolding abs_create [OF meta_wf_inodes [OF wf] ok]
    using kinds_dir_iff [OF wf, of "InodeId (cr_parent_ino r)"] kinds_fresh [OF wf] ok
    by simp (rule ns_serve.make, simp_all add: ns_simps entry_def bt_contains_def)
qed

lemma mkdir_refines:
  assumes wf: "meta_wf s"
  shows "ns_serve (abs_ns s) (meta_label token (OpMkdir now r) s) (abs_ns (fst (meta_mkdir now r s)))"
proof (cases rule: meta_mkdir_cases [of now r s])
  case (fail e)
  then show ?thesis
    using kinds_dir_iff [OF wf, of "InodeId (mk_parent_ino r)"]
    by (simp, intro ns_serve.make_refused) (auto simp: ns_simps)
next
  case (ok d)
  have "meta_label token (OpMkdir now r) s
      = (NsMake (InodeId (mk_parent_ino r)) (mk_name r) Dir, Made (InodeId (next_ino s)))"
    by (simp add: meta_mkdir_ok [OF ok fresh_dir [OF wf]] Let_def build_attr_def new_dir_inode_def split: prod.split)
  then show ?thesis
    unfolding abs_mkdir [OF wf ok]
    using kinds_dir_iff [OF wf, of "InodeId (mk_parent_ino r)"] kinds_fresh [OF wf] ok
    by simp (rule ns_serve.make, simp_all add: ns_simps entry_def bt_contains_def)
qed

lemmas handler_refines =
  set_attr_refines register_refines close_refines allocate_refines heartbeat_refines tick_refines

lemmas handler_wf = meta_wf_create meta_wf_mkdir meta_wf_unlink meta_wf_rmdir rename_any(1)

lemma meta_safe_counters: "meta_safe oper s \<Longrightarrow> counters_ok s"
  by (cases oper) simp_all

lemma exec_refines:
  assumes wf: "meta_wf s" and ns: "ns_ok (abs_ns s)" and safe: "meta_safe oper s"
  shows "ns_serve (abs_ns s) (meta_label token oper s) (abs_ns (meta_exec xxh3 token oper s))"
proof (cases oper)
  case (OpCreate now r)
  then show ?thesis using create_refines [OF wf] by simp
next
  case (OpMkdir now r)
  then show ?thesis using mkdir_refines [OF wf] by simp
next
  case (OpUnlink r)
  then show ?thesis using unlink_refines [OF wf ns] by simp
next
  case (OpRmdir r)
  then show ?thesis using rmdir_refines [OF wf] by simp
next
  case (OpRename r)
  then show ?thesis using rename_refines [OF wf ns, of r token] safe by simp
qed (use handler_refines [OF wf] meta_safe_counters [OF safe] in \<open>simp_all add: ns_serve.other\<close>)

interpretation meta: ns_refinement abs_ns meta_wf "meta_exec xxh3 token" meta_safe "meta_label token" for xxh3 token
proof
  fix s oper
  assume wf: "meta_wf s" and ns: "ns_ok (abs_ns s)" and safe: "meta_safe oper s"
  show "ns_serve (abs_ns s) (meta_label token oper s) (abs_ns (meta_exec xxh3 token oper s))"
    by (rule exec_refines [OF wf ns safe])
  show "meta_wf (meta_exec xxh3 token oper s)"
    using handler_refines [OF wf] handler_wf [OF wf] meta_safe_counters [OF safe] safe
    by (cases oper) simp_all
qed

lemma meta_wf_new: "meta_wf (meta_new now rf)"
proof -
  have "ROOT \<noteq> i \<Longrightarrow> raw i \<noteq> 1" for i by (cases i) (simp add: ROOT_def)
  then show ?thesis
    by (simp add: meta_wf_def inodes_wf_def dirs_wf_def handles_wf_def nodes_wf_def meta_new_def
        root_inode_def ROOT_def)
qed

lemma abs_ns_new: "abs_ns (meta_new now rf) = ns_init"
  by (rule namespace_eqI)
    (auto simp: abs_ns_def ns_init_def meta_new_def root_inode_def entry_def)

end
