(* ===== verification/Meta_Props.thy ===== *)
theory Meta_Props
  imports Meta_Refine
begin

text \<open>
  The properties of the metadata server: the namespace stays a tree in every run, what
  each request does on success and on failure, the generation check of Close, the
  stability of block placements, and node liveness; with the requests for which the
  server does not keep its promises stated next to them.
\<close>

section \<open>Runs\<close>

text \<open>
  Requests are executed one after another.  Of the conditions on a rename, the server
  checks none itself, so a run lists them for every rename at the state it meets.
\<close>

fun renames_safe :: "(string \<Rightarrow> u64 \<Rightarrow> u64) \<Rightarrow> string \<Rightarrow> meta_op list \<Rightarrow> meta_state \<Rightarrow> bool" where
  "renames_safe xxh3 token [] s \<longleftrightarrow> True"
| "renames_safe xxh3 token (x # xs) s \<longleftrightarrow>
     (case x of OpRename r \<Rightarrow> rename_safe r s | _ \<Rightarrow> True)
     \<and> renames_safe xxh3 token xs (meta_exec xxh3 token x s)"

definition meta_run :: "(string \<Rightarrow> u64 \<Rightarrow> u64) \<Rightarrow> string \<Rightarrow> meta_op list \<Rightarrow> meta_state \<Rightarrow> meta_state" where
  "meta_run xxh3 token ops s = fold (meta_exec xxh3 token) ops s"

text \<open>The labels of a run: each request as an abstract request, with the reply it got.\<close>

fun meta_labels ::
  "(string \<Rightarrow> u64 \<Rightarrow> u64) \<Rightarrow> string \<Rightarrow> meta_op list \<Rightarrow> meta_state \<Rightarrow> (ns_request \<times> ns_reply) list" where
  "meta_labels xxh3 token [] s = []"
| "meta_labels xxh3 token (x # xs) s = meta_label token x s # meta_labels xxh3 token xs (meta_exec xxh3 token x s)"

lemma labels_meta: "meta.labels xxh3 token ops s = meta_labels xxh3 token ops s"
  by (induction ops arbitrary: s) simp_all

definition counters_step :: "meta_state \<Rightarrow> meta_state \<Rightarrow> bool" where
  "counters_step s t \<longleftrightarrow> next_ino t \<in> {next_ino s, next_ino s + 1} \<and> next_fh t \<in> {next_fh s, next_fh s + 1}"

lemma counters_refl [simp]: "counters_step s s"
  by (simp add: counters_step_def)

lemma counters_create: "counters_step s (fst (meta_create now r s))"
  by (cases rule: meta_create_cases [of now r s])
    (auto simp: meta_create_ok Let_def counters_step_def)

lemma counters_mkdir: "counters_step s (fst (meta_mkdir now r s))"
  by (auto simp: meta_mkdir_def Let_def alloc_ino_def with_dir_def counters_step_def split: option.split)

lemma counters_unlink: "counters_step s (fst (meta_unlink token r s))"
  by (auto simp: meta_unlink_def Let_def with_dir_def counters_step_def split: option.split)

lemma counters_rmdir: "counters_step s (fst (meta_rmdir r s))"
  by (auto simp: meta_rmdir_def Let_def with_dir_def counters_step_def split: option.split)

lemma counters_drop_dst:
  "next_ino (fst (rename_drop_dst dp dn s)) = next_ino s \<and> next_fh (fst (rename_drop_dst dp dn s)) = next_fh s"
  by (auto simp: rename_drop_dst_def rename_finish_dst_def with_dir_def Let_def
      split: option.split inode_kind.split)

lemma counters_rename: "counters_step s (fst (meta_rename token r s))"
proof -
  obtain s1 v where s1: "rename_drop_dst (InodeId (rn_dst_parent_ino r)) (rn_dst_name r) s = (s1, v)"
    by fastforce
  have "next_ino s1 = next_ino s" "next_fh s1 = next_fh s"
    using counters_drop_dst [of "InodeId (rn_dst_parent_ino r)" "rn_dst_name r" s] s1 by simp_all
  then show ?thesis
    by (cases v) (auto simp: meta_rename_def s1 Let_def with_dir_def counters_step_def
        split: option.split prod.split)
qed

lemma counters_close: "counters_step s (fst (meta_close now r s))"
  by (auto simp: meta_close_def Let_def counters_step_def split: option.split)

lemma counters_set_attr: "counters_step s (fst (meta_set_attr token now r s))"
proof (cases "inodes s (InodeId (sa_ino r))")
  case None
  then show ?thesis by (simp add: meta_set_attr_def)
next
  case (Some n)
  then show ?thesis
    using meta_set_attr_core [OF Some, of token now] by (auto simp: counters_step_def)
qed

lemma counters_alloc_step:
  "next_ino (fst (alloc_step xxh3 ino idx st)) = next_ino (fst st)
   \<and> next_fh (fst (alloc_step xxh3 ino idx st)) = next_fh (fst st)"
  by (cases st) (simp add: alloc_step_eq Let_def split: option.split)

lemma counters_allocate: "counters_step s (fst (meta_allocate_blocks xxh3 r s))"
proof -
  have "next_ino (fst (fold (alloc_step xxh3 ino) idxs st)) = next_ino (fst st)
      \<and> next_fh (fst (fold (alloc_step xxh3 ino) idxs st)) = next_fh (fst st)" for ino idxs st
    by (induction idxs arbitrary: st) (simp_all add: counters_alloc_step)
  from this [of "InodeId (al_ino r)" "map BlockIdx (al_block_idxs r)" "(s, [])"] show ?thesis
    by (auto simp: meta_allocate_blocks_def Let_def counters_step_def split: prod.splits)
qed

lemmas counters_handlers = counters_create counters_mkdir counters_unlink counters_rmdir counters_rename
  counters_close counters_set_attr counters_allocate

lemma counters_exec: "counters_step s (meta_exec xxh3 token x s)"
  by (cases x) (simp_all add: counters_handlers, simp_all add: counters_step_def open_register_def alloc_fh_def
      meta_heartbeat_node_def Let_def)

lemma unat_counter_step: "(v :: u64) \<in> {w, w + 1} \<Longrightarrow> Suc (unat w) < 2 ^ 64 \<Longrightarrow> unat v \<le> Suc (unat w)"
  by (auto simp: unat_succ_u64)

lemma safe_run_of_renames:
  assumes "renames_safe xxh3 token ops s" and "unat (next_ino s) + length ops < 2 ^ 64"
    and "unat (next_fh s) + length ops < 2 ^ 64"
  shows "ns_refinement.safe_run (meta_exec xxh3 token) meta_safe ops s"
  using assms
proof (induction ops arbitrary: s)
  case Nil
  then show ?case by simp
next
  case (Cons x xs)
  have c: "counters_ok s" using Cons.prems by (simp add: counters_ok_def)
  have "unat (next_ino (meta_exec xxh3 token x s)) \<le> Suc (unat (next_ino s))"
    and "unat (next_fh (meta_exec xxh3 token x s)) \<le> Suc (unat (next_fh s))"
    using counters_exec [of s xxh3 token x] c unat_counter_step
    unfolding counters_step_def counters_ok_def by blast+
  then have "ns_refinement.safe_run (meta_exec xxh3 token) meta_safe xs (meta_exec xxh3 token x s)"
    using Cons by simp
  moreover have "meta_safe x s" using Cons.prems(1) c by (cases x) simp_all
  ultimately show ?case by simp
qed

text \<open>
  C4. The namespace is a tree in every run.  Start a metadata server and let it handle
  any sequence of requests, heartbeats and watcher ticks, failing ones included, in
  which each rename meets its conditions: afterwards only directories have entries,
  every entry leads to an existing inode, no inode has two names, the root has none and
  every inode can be reached from the root; and the server's tables agree with each
  other.  The bound on the length says that the 64 bit counters have not wrapped.
\<close>

theorem meta_namespace_invariant:
  assumes "renames_safe xxh3 token ops (meta_new now rf)" and "length ops < 2 ^ 64 - 2"
  shows "ns_ok (abs_ns (meta_run xxh3 token ops (meta_new now rf)))
    \<and> meta_wf (meta_run xxh3 token ops (meta_new now rf))"
proof -
  have "ns_refinement.safe_run (meta_exec xxh3 token) meta_safe ops (meta_new now rf)"
    using assms by (intro safe_run_of_renames) (simp_all add: meta_new_def)
  from meta.run_invariant [OF meta_wf_new _ this] show ?thesis
    by (simp add: abs_ns_new ns_ok_init meta_run_def)
qed

abbreviation sample_ops :: "meta_op list" where
  "sample_ops \<equiv>
     [OpMkdir 0 \<lparr> mk_parent_ino = 1, mk_name = ''d'', mk_mode = 493, mk_uid = 0, mk_gid = 0 \<rparr>,
      OpCreate 0 \<lparr> cr_parent_ino = 1, cr_name = ''f'', cr_mode = 420, cr_uid = 0, cr_gid = 0 \<rparr>,
      OpRmdir \<lparr> rd_parent_ino = 1, rd_name = ''d'' \<rparr>]"

theorem meta_namespace_invariant_witness:
  "length sample_ops < 2 ^ 64 - 2
   \<and> ns_ok (abs_ns (meta_run (\<lambda>_ _. 0) [] sample_ops (meta_new 0 2)))"
  using meta_namespace_invariant [of "\<lambda>_ _. 0" "[]" sample_ops 0 2] by simp

text \<open>What a Lookup answers is the entry of the abstract namespace.\<close>

lemma lookup_edge:
  assumes "meta_wf s" and "ns_ok (abs_ns s)"
  shows "(case meta_lookup \<lparr> lk_parent_ino = p, lk_name = n \<rparr> s of Ok (Some a) \<Rightarrow> Some (InodeId (at_ino a)) | _ \<Rightarrow> None)
    = edges (abs_ns s) (InodeId p, n)"
proof (cases "entry s (InodeId p) n")
  case None
  then show ?thesis by (simp add: meta_lookup_def not_found_def ns_simps)
next
  case (Some c)
  then obtain i where i: "inodes s c = Some i"
    using ns_ok_edge [OF assms(2), of "InodeId p" n c] by (auto simp: ns_simps)
  then have "i_ino i = c" using inodes_wfD [OF meta_wf_inodes [OF assms(1)]] by blast
  then show ?thesis using Some i by (cases c) (simp add: meta_lookup_def build_attr_def ns_simps split: prod.split)
qed

text \<open>
  C5. Refinement, request by request.  In every run in which each rename meets its
  conditions, the requests that change the namespace, with the parents and names they
  carry and the replies they get, are, one for one, a run of the abstract namespace that
  ends in the abstraction of the server's final state.  So a create or mkdir that
  replies with an inode has added exactly the entry it names, leading to the inode of
  the reply, which did not exist before; an unlink or rmdir that replies Ok has removed
  exactly the entry it names with its inode; a rename that replies Ok has removed what
  was at the destination and moved the source entry there; every other request, and
  every refused one, has changed nothing; a request is refused exactly when the parent is
  no directory, the name is taken, missing or of the wrong kind, or a directory to be
  removed is not empty; and no handler panics.  A Lookup in the final state answers with
  the inode of the abstract entry, or with an error where there is none.
\<close>

theorem meta_refines_namespace:
  assumes "renames_safe xxh3 token ops (meta_new now rf)" and "length ops < 2 ^ 64 - 2"
    and "s = meta_run xxh3 token ops (meta_new now rf)"
  shows "ns_run ns_init (meta_labels xxh3 token ops (meta_new now rf)) (abs_ns s)
    \<and> (\<forall>p n. (case meta_lookup \<lparr> lk_parent_ino = p, lk_name = n \<rparr> s of
           Ok (Some a) \<Rightarrow> Some (InodeId (at_ino a)) | _ \<Rightarrow> None) = edges (abs_ns s) (InodeId p, n))"
proof -
  have safe: "ns_refinement.safe_run (meta_exec xxh3 token) meta_safe ops (meta_new now rf)"
    using assms by (intro safe_run_of_renames) (simp_all add: meta_new_def)
  have "meta_wf s" and "ns_ok (abs_ns s)"
    using meta.run_invariant [OF meta_wf_new _ safe] assms(3) by (simp_all add: abs_ns_new ns_ok_init meta_run_def)
  then show ?thesis
    using meta.run_simulates [OF meta_wf_new _ safe] assms(3) lookup_edge
    by (simp add: abs_ns_new ns_ok_init meta_run_def labels_meta)
qed

theorem meta_refines_namespace_witness:
  "ns_run ns_init [(NsMake ROOT ''d'' Dir, Made (InodeId 2)), (NsMake ROOT ''f'' File, Made (InodeId 3)),
     (NsRmdir ROOT ''d'', Fine)] (abs_ns (meta_run (\<lambda>_ _. 0) [] sample_ops (meta_new 0 2)))"
proof -
  have "meta_labels (\<lambda>_ _. 0) [] sample_ops (meta_new 0 2) =
      [(NsMake ROOT ''d'' Dir, Made (InodeId 2)), (NsMake ROOT ''f'' File, Made (InodeId 3)), (NsRmdir ROOT ''d'', Fine)]"
    by (simp add: meta_new_def meta_mkdir_def meta_create_def meta_rmdir_def Let_def alloc_ino_def alloc_fh_def with_dir_def
        ROOT_def bt_contains_def bt_get_def entry_def modify_inode_def put_inode_def remove_inode_def root_inode_def
        new_dir_inode_def new_file_inode_def build_attr_def split: prod.split)
  then show ?thesis
    using meta_refines_namespace [of "\<lambda>_ _. 0" "[]" sample_ops 0 2, OF _ _ refl] by simp
qed

section \<open>Namespace requests\<close>

text \<open>
  Create and lookup.  Create in an existing directory under a free name replies with
  the attributes of a fresh empty regular file and a handle that was not in use; Lookup
  of that name then returns the same attributes, every other entry of every directory is
  as before, and the handle is registered for the new inode.
\<close>

theorem create_then_lookup:
  assumes "meta_wf s" and "dirs s (InodeId p) = Some d" and "bt_get d name = None"
  shows "\<exists>s' resp a. meta_create now \<lparr> cr_parent_ino = p, cr_name = name, cr_mode = mode, cr_uid = uid, cr_gid = gid \<rparr> s = (s', Ok resp)
    \<and> crr_attr resp = Some a \<and> at_size a = 0 \<and> at_mode a = 32768 OR (mode AND 4095) \<and> at_uid a = uid \<and> at_gid a = gid
    \<and> inodes s (InodeId (at_ino a)) = None \<and> open_handles s (crr_fh resp) = None
    \<and> map_option oh_ino (open_handles s' (crr_fh resp)) = Some (InodeId (at_ino a))
    \<and> meta_lookup \<lparr> lk_parent_ino = p, lk_name = name \<rparr> s' = Ok (Some a)
    \<and> (\<forall>q n. (q, n) \<noteq> (InodeId p, name) \<longrightarrow> entry s' q n = entry s q n)"
proof -
  have d: "dirs s (InodeId (cr_parent_ino \<lparr> cr_parent_ino = p, cr_name = name, cr_mode = mode, cr_uid = uid, cr_gid = gid \<rparr>)) = Some d"
    and new: "\<not> bt_contains d (cr_name \<lparr> cr_parent_ino = p, cr_name = name, cr_mode = mode, cr_uid = uid, cr_gid = gid \<rparr>)"
    using assms(2,3) by (simp_all add: bt_contains_def)
  have fh: "open_handles s (next_fh s) = None"
    using meta_wf_handles [OF assms(1)] unfolding handles_wf_def
    by (cases "open_handles s (next_fh s)") auto
  have ino: "inodes s (InodeId (next_ino s)) = None"
    using fresh_ino [OF meta_wf_inodes [OF assms(1)]] .
  show ?thesis
    unfolding meta_create_ok [OF d new] using fh ino assms(2)
    by (auto simp: Let_def meta_lookup_def entry_def build_attr_def new_file_inode_def
        split: prod.split option.split)
qed

theorem create_then_lookup_witness:
  "\<exists>s' resp a. meta_create 0 \<lparr> cr_parent_ino = 1, cr_name = ''f'', cr_mode = 420, cr_uid = 5, cr_gid = 6 \<rparr> (meta_new 0 2) = (s', Ok resp)
    \<and> crr_attr resp = Some a \<and> meta_lookup \<lparr> lk_parent_ino = 1, lk_name = ''f'' \<rparr> s' = Ok (Some a)"
proof -
  have "dirs (meta_new 0 2) (InodeId 1) = Some []" by (simp add: meta_new_def ROOT_def)
  from create_then_lookup [OF meta_wf_new this, of "''f''" 0 420 5 6] show ?thesis by auto
qed

text \<open>
  C28. Rename.  A rename that meets its conditions, whose source exists and whose
  destination is absent, a file or an empty directory, replies Ok.  Afterwards the
  destination name leads to the moved inode, the source name is gone, every other entry
  is as before; the replaced inode no longer exists, every other inode keeps all its
  fields but the link count; and the delete tasks are exactly those for the blocks of a
  replaced file.  The kinds of the two need not agree: a file replaces an empty directory
  and a directory a file, where \<^verbatim>\<open>docs/LLD.md\<close> asks for IsADirectory and
  NotADirectory; and the moved inode keeps its ctime, which the listing there sets.
\<close>

theorem rename_effect:
  assumes "meta_wf s" and "ns_ok (abs_ns s)" and "rename_safe r s"
    and "sp = InodeId (rn_src_parent_ino r)" and "dp = InodeId (rn_dst_parent_ino r)"
    and "entry s sp (rn_src_name r) = Some c"
    and "\<forall>x. entry s dp (rn_dst_name r) = Some x \<longrightarrow> dirs s x \<in> {None, Some []}"
  shows "\<exists>s' tasks. meta_rename token r s = (s', tasks, Ok ())
    \<and> (\<forall>p n. entry s' p n = (if (p, n) = (dp, rn_dst_name r) then Some c
         else if (p, n) = (sp, rn_src_name r) then None else entry s p n))
    \<and> (\<forall>i. strip_nlink (inodes s' i) =
         (if entry s dp (rn_dst_name r) = Some i then None else strip_nlink (inodes s i)))
    \<and> tasks = (case entry s dp (rn_dst_name r) of None \<Rightarrow> []
         | Some x \<Rightarrow> (case inodes s x of None \<Rightarrow> [] | Some n \<Rightarrow>
             if i_kind n = File then fire_delete_blocks (i_blocks n) (node_addrs_of s) x token else []))"
proof -
  have e: "entry s (InodeId (rn_src_parent_ino r)) (rn_src_name r) = Some c"
    using assms(4,6) by simp
  from assms(1-3) e show ?thesis
  proof (cases rule: rename_cases [of s r c token])
    case (fail err x d)
    then show ?thesis using assms(5,7) by simp
  next
    case (move s' tasks)
    have "entry s' p n = edges (abs_ns s') (p, n)" for p n by (simp add: ns_simps)
    then have "entry s' p n = (if (p, n) = (dp, rn_dst_name r) then Some c
         else if (p, n) = (sp, rn_src_name r) then None else entry s p n)" for p n
      unfolding move(4) using assms(4,5)
      by (auto simp: ns_move_def ns_replace_def ns_del_def ns_simps split: option.split)
    then show ?thesis
      using move(1,5,6) assms(4,5) by blast
  qed
qed

text \<open>A server that has handled one Create, as a concrete state for the examples.\<close>

definition sample_state :: meta_state where
  "sample_state = fst (meta_create 0
     \<lparr> cr_parent_ino = 1, cr_name = ''f'', cr_mode = 420, cr_uid = 0, cr_gid = 0 \<rparr> (meta_new 0 2))"

lemma sample_state_ok: "meta_wf sample_state \<and> ns_ok (abs_ns sample_state)"
proof -
  have "counters_ok (meta_new 0 2)" by (simp add: counters_ok_def meta_new_def)
  then show ?thesis
    unfolding sample_state_def
    using meta_wf_create [OF meta_wf_new] ns_serve_ok [OF create_refines [OF meta_wf_new]]
    by (simp add: abs_ns_new ns_ok_init)
qed

lemma sample_dirs: "dirs sample_state = [InodeId 1 \<mapsto> [(''f'', InodeId 2)]]"
  by (simp add: sample_state_def meta_create_def Let_def meta_new_def ROOT_def alloc_ino_def alloc_fh_def
      with_dir_def bt_contains_def)

lemma sample_entry: "entry sample_state p n = (if p = InodeId 1 \<and> n = ''f'' then Some (InodeId 2) else None)"
  by (simp add: entry_def sample_dirs bt_get_def)

lemma sample_rename_safe:
  "rename_safe \<lparr> rn_src_parent_ino = 1, rn_src_name = ''f'', rn_dst_parent_ino = 1, rn_dst_name = ''g'' \<rparr> sample_state"
proof -
  have "\<not> ns_below (abs_ns sample_state) (InodeId 2) (InodeId 1)"
    using ns_below_leaf [of "abs_ns sample_state" "InodeId 2" "InodeId 1"] by (auto simp: ns_simps sample_entry)
  then show ?thesis by (simp add: rename_safe_def sample_entry sample_dirs)
qed

theorem rename_effect_witness:
  "\<exists>s' tasks. meta_rename ''t'' \<lparr> rn_src_parent_ino = 1, rn_src_name = ''f'', rn_dst_parent_ino = 1, rn_dst_name = ''g'' \<rparr>
      sample_state = (s', tasks, Ok ()) \<and> entry s' (InodeId 1) ''g'' = Some (InodeId 2)"
proof -
  let ?r = "\<lparr> rn_src_parent_ino = 1, rn_src_name = ''f'', rn_dst_parent_ino = 1, rn_dst_name = ''g'' \<rparr>"
  have ok: "meta_wf sample_state" "ns_ok (abs_ns sample_state)" using sample_state_ok by simp_all
  have src: "entry sample_state (InodeId 1) (rn_src_name ?r) = Some (InodeId 2)"
    and dst: "\<forall>x. entry sample_state (InodeId 1) (rn_dst_name ?r) = Some x \<longrightarrow> dirs sample_state x \<in> {None, Some []}"
    by (simp_all add: sample_entry)
  have par: "InodeId 1 = InodeId (rn_src_parent_ino ?r)" "InodeId 1 = InodeId (rn_dst_parent_ino ?r)"
    by simp_all
  obtain s' tasks where eq: "meta_rename ''t'' ?r sample_state = (s', tasks, Ok ())"
    and ent: "\<forall>p n. entry s' p n = (if (p, n) = (InodeId 1, rn_dst_name ?r) then Some (InodeId 2)
         else if (p, n) = (InodeId 1, rn_src_name ?r) then None else entry sample_state p n)"
    using rename_effect [OF ok sample_rename_safe par src dst, of "''t''"] by blast
  have "entry s' (InodeId 1) ''g'' = Some (InodeId 2)" using ent by simp
  with eq show ?thesis by blast
qed

end
