(* ===== verification/Meta_Links.thy ===== *)
theory Meta_Links
  imports Meta_Props
begin

text \<open>
  The link count of a directory.  \<^verbatim>\<open>mkdir\<close>, \<^verbatim>\<open>rmdir\<close> and \<^verbatim>\<open>rename\<close> adjust it
  by hand; in every run it is two more than the number of its subdirectories.
\<close>

section \<open>Subdirectories of the abstract namespace\<close>

definition subdirs :: "namespace \<Rightarrow> inode_id \<Rightarrow> string set" where
  "subdirs a p = {n. \<exists>c. edges a (p, n) = Some c \<and> kinds a c = Some Dir}"

lemma subdirs_iff: "n \<in> subdirs a p \<longleftrightarrow> (case edges a (p, n) of None \<Rightarrow> False | Some c \<Rightarrow> kinds a c = Some Dir)"
  by (simp add: subdirs_def split: option.split)

lemma subdirs_add:
  assumes "ns_ok a" and "edges a (p, n) = None" and "kinds a c = None"
  shows "subdirs (ns_add p n c k a) q = (if q = p \<and> k = Dir then insert n (subdirs a q) else subdirs a q)"
proof -
  have "edges a (q, m) \<noteq> Some c" for m using ns_ok_edge [OF assms(1), of q m c] assms(3) by auto
  then show ?thesis
    using assms(2) by (intro set_eqI) (auto simp: subdirs_iff ns_add_def split: option.splits if_splits)
qed

lemma subdirs_del:
  assumes "ns_ok a" and "edges a (p, n) = Some c"
  shows "subdirs (ns_del p n c a) q = (if q = p then subdirs a q - {n} else subdirs a q)"
proof (rule set_eqI)
  fix x
  have "c' = c \<longleftrightarrow> q = p \<and> x = n" if "edges a (q, x) = Some c'" for c'
    using that assms(2) ns_ok_unique [OF assms(1) assms(2), of "(q, x)"] by auto
  then show "x \<in> subdirs (ns_del p n c a) q \<longleftrightarrow> x \<in> (if q = p then subdirs a q - {n} else subdirs a q)"
    by (cases "edges a (q, x)") (auto simp: subdirs_iff ns_del_def)
qed

lemma subdirs_move:
  assumes "edges a (sp, sn) = Some c" and "edges a (dp, dn) = None"
  shows "subdirs (ns_move sp sn dp dn c a) q =
    (if q = dp \<and> kinds a c = Some Dir then {dn} else {}) \<union> (if q = sp then subdirs a q - {sn} else subdirs a q)"
  using assms by (intro set_eqI) (auto simp: subdirs_iff ns_move_def split: option.splits if_splits)

lemma finite_subdirs: "finite (subdirs (abs_ns m) p)"
proof (cases "dirs m p")
  case (Some d)
  then have "subdirs (abs_ns m) p \<subseteq> dom (map_of d)"
    by (auto simp: subdirs_def ns_simps entry_def bt_get_def)
  then show ?thesis using finite_dom_map_of finite_subset by blast
qed (simp add: subdirs_def ns_simps entry_def)

text \<open>There are fewer subdirectories than inode numbers handed out.\<close>

lemma card_subdirs_le:
  assumes "meta_wf m" and "ns_ok (abs_ns m)"
  shows "card (subdirs (abs_ns m) p) \<le> unat (next_ino m)"
proof -
  let ?f = "\<lambda>n. unat (raw (the (entry m p n)))"
  have "inj_on ?f (subdirs (abs_ns m) p)"
  proof (rule inj_onI)
    fix x y
    assume "x \<in> subdirs (abs_ns m) p" "y \<in> subdirs (abs_ns m) p" "?f x = ?f y"
    then obtain c c' where "entry m p x = Some c" "entry m p y = Some c'" "unat (raw c) = unat (raw c')"
      by (auto simp: subdirs_def ns_simps)
    moreover from this have "c = c'" by (cases c; cases c') (simp add: word_unat_eq_iff)
    ultimately show "x = y"
      using ns_ok_unique [OF assms(2), of "(p, x)" c "(p, y)"] by (simp add: ns_simps)
  qed
  moreover have "?f ` subdirs (abs_ns m) p \<subseteq> {..< unat (next_ino m)}"
    using inodes_wfD [OF meta_wf_inodes [OF assms(1)]] by (auto simp: subdirs_def ns_simps word_less_nat_alt)
  ultimately show ?thesis
    using card_inj_on_le [of ?f "subdirs (abs_ns m) p" "{..< unat (next_ino m)}"] by simp
qed

section \<open>The invariant\<close>

definition links_ok :: "meta_state \<Rightarrow> bool" where
  "links_ok m \<longleftrightarrow> (\<forall>i n. inodes m i = Some n \<longrightarrow> i_kind n = Dir \<longrightarrow> unat (i_nlink n) = 2 + card (subdirs (abs_ns m) i))"

definition links_room :: "meta_state \<Rightarrow> bool" where
  "links_room m \<longleftrightarrow> unat (next_ino m) + 3 < 2 ^ 32"

lemma links_okD: "links_ok m \<Longrightarrow> inodes m i = Some n \<Longrightarrow> i_kind n = Dir \<Longrightarrow> unat (i_nlink n) = 2 + card (subdirs (abs_ns m) i)"
  by (simp add: links_ok_def)

lemma unat_nlink_inc: "unat (i_nlink n) + 1 < 2 ^ 32 \<Longrightarrow> unat (i_nlink (nlink_inc n)) = unat (i_nlink n) + 1"
  by (simp add: nlink_inc_def unat_word_ariths)

lemma unat_nlink_dec: "unat (i_nlink (nlink_dec n)) = unat (i_nlink n) - 1"
  by (simp add: nlink_dec_def)

text \<open>A change that keeps the namespace, and kind and link count of every inode.\<close>

lemma links_ok_same:
  assumes "links_ok m" and "abs_ns m' = abs_ns m"
    and "\<And>i n'. inodes m' i = Some n' \<Longrightarrow> \<exists>n. inodes m i = Some n \<and> i_kind n' = i_kind n \<and> i_nlink n' = i_nlink n"
  shows "links_ok m'"
  unfolding links_ok_def
proof (intro allI impI)
  fix i n'
  assume "inodes m' i = Some n'" and "i_kind n' = Dir"
  with assms(3) [of i n'] obtain n where "inodes m i = Some n" "i_kind n = Dir" "i_nlink n' = i_nlink n" by auto
  then show "unat (i_nlink n') = 2 + card (subdirs (abs_ns m') i)" using links_okD [OF assms(1)] assms(2) by simp
qed

section \<open>Handlers\<close>

lemma links_create:
  assumes "meta_wf m" and "ns_ok (abs_ns m)" and "links_ok m"
  shows "links_ok (fst (meta_create now r m))"
proof (cases rule: meta_create_cases [of now r m])
  case (ok d)
  have "entry m (InodeId (cr_parent_ino r)) (cr_name r) = None" using ok by (simp add: entry_def bt_contains_def)
  moreover have "inodes m (InodeId (next_ino m)) = None" using fresh_ino [OF meta_wf_inodes [OF assms(1)]] .
  ultimately have sub: "subdirs (abs_ns (fst (meta_create now r m))) q = subdirs (abs_ns m) q" for q
    unfolding abs_create [OF meta_wf_inodes [OF assms(1)] ok] by (subst subdirs_add [OF assms(2)]) (simp_all add: ns_simps)
  have ino: "inodes (fst (meta_create now r m)) = (inodes m)(InodeId (next_ino m) \<mapsto> new_file_inode now (InodeId (next_ino m)) r)"
    by (simp add: meta_create_ok [OF ok] Let_def)
  show ?thesis
    unfolding links_ok_def sub ino using links_okD [OF assms(3)] by (auto simp: new_file_inode_def split: if_splits)
qed (use assms in simp)

lemma links_mkdir:
  assumes "meta_wf m" and "ns_ok (abs_ns m)" and "links_ok m" and "links_room m"
  shows "links_ok (fst (meta_mkdir now r m))"
proof (cases rule: meta_mkdir_cases [of now r m])
  case (ok d)
  let ?p = "InodeId (mk_parent_ino r)" and ?c = "InodeId (next_ino m)" and ?m' = "fst (meta_mkdir now r m)"
  have e: "entry m ?p (mk_name r) = None" using ok by (simp add: entry_def bt_contains_def)
  have fresh: "inodes m ?c = None" "dirs m ?c = None"
    using fresh_ino [OF meta_wf_inodes [OF assms(1)]] fresh_dir [OF assms(1)] by simp_all
  have ne: "?p \<noteq> ?c" using ok fresh by auto
  have sub: "subdirs (abs_ns ?m') q = (if q = ?p then insert (mk_name r) (subdirs (abs_ns m) q) else subdirs (abs_ns m) q)" for q
    unfolding abs_mkdir [OF assms(1) ok] using e fresh by (subst subdirs_add [OF assms(2)]) (simp_all add: ns_simps)
  have "mk_name r \<notin> subdirs (abs_ns m) ?p" using e by (simp add: subdirs_iff ns_simps)
  then have card: "card (subdirs (abs_ns ?m') ?p) = card (subdirs (abs_ns m) ?p) + 1" by (simp add: sub finite_subdirs)
  have new: "subdirs (abs_ns m) ?c = {}" using fresh by (auto simp: subdirs_def ns_simps entry_def)
  have ino: "inodes ?m' i = (if i = ?p then map_option nlink_inc (inodes m i) else if i = ?c then Some (new_dir_inode now ?c r) else inodes m i)" for i
    using ne by (simp add: meta_mkdir_ok [OF ok fresh(2)] Let_def ns_simps)
  have room: "card (subdirs (abs_ns m) q) + 3 < 2 ^ 32" for q
    using card_subdirs_le [OF assms(1,2), of q] assms(4) unfolding links_room_def by linarith
  show ?thesis
    unfolding links_ok_def
  proof (intro allI impI)
    fix i n
    assume n: "inodes ?m' i = Some n" and k: "i_kind n = Dir"
    consider "i = ?p" | "i = ?c" | "i \<noteq> ?p" "i \<noteq> ?c" by blast
    then show "unat (i_nlink n) = 2 + card (subdirs (abs_ns ?m') i)"
    proof cases
      case 1
      then obtain n0 where n0: "inodes m ?p = Some n0" "n = nlink_inc n0" using n by (auto simp: ino)
      then have "unat (i_nlink n0) = 2 + card (subdirs (abs_ns m) ?p)" using links_okD [OF assms(3)] k by simp
      then show ?thesis using unat_nlink_inc [of n0] room [of ?p] n0 1 card by simp
    next
      case 2
      then show ?thesis using n ne new by (auto simp: ino sub new_dir_inode_def)
    next
      case 3
      then show ?thesis using n k links_okD [OF assms(3)] by (simp add: ino sub)
    qed
  qed
qed (use assms in simp)

text \<open>Removing an entry with its inode, and the link of a removed directory with it.\<close>

lemma links_detach:
  assumes "ns_ok (abs_ns m)" and "links_ok m" and "entry m p x = Some c" and "dirs m p = Some d"
    and "dirs m c \<in> {None, Some []}" and "inodes m c = Some k"
  shows "links_ok (detach p x d c (if i_kind k = Dir then modify_inode p nlink_dec m else m))"
    (is "links_ok (detach p x d c ?m)")
proof -
  have ne: "p \<noteq> c" by (rule entry_parent_neq [OF assms(3,5)])
  have same: "abs_ns ?m = abs_ns m" "dirs ?m = dirs m" by (simp_all add: abs_ns_modify_inode)
  then have "entry ?m = entry m" by (simp add: entry_def [abs_def])
  then have "abs_ns (detach p x d c ?m) = ns_del p x c (abs_ns m)"
    using abs_detach [of ?m p x c d] assms(3-5) same by simp
  then have sub: "subdirs (abs_ns (detach p x d c ?m)) q = (if q = p then subdirs (abs_ns m) q - {x} else subdirs (abs_ns m) q)" for q
    using subdirs_del [OF assms(1), of p x c q] assms(3) by (simp add: ns_simps)
  have mem: "x \<in> subdirs (abs_ns m) p \<longleftrightarrow> i_kind k = Dir" using assms(3,6) by (simp add: subdirs_iff ns_simps)
  have ino: "inodes (detach p x d c ?m) i = (if i = c then None else if i = p \<and> i_kind k = Dir then map_option nlink_dec (inodes m i) else inodes m i)" for i
    by (simp add: detach_def ns_simps)
  show ?thesis
    unfolding links_ok_def
  proof (intro allI impI)
    fix i n
    assume n: "inodes (detach p x d c ?m) i = Some n" and dir: "i_kind n = Dir"
    show "unat (i_nlink n) = 2 + card (subdirs (abs_ns (detach p x d c ?m)) i)"
    proof (cases "i = p \<and> i_kind k = Dir")
      case True
      then obtain n0 where n0: "inodes m p = Some n0" "n = nlink_dec n0" using n [unfolded ino] ne by auto
      then have "unat (i_nlink n0) = 2 + card (subdirs (abs_ns m) p)" using links_okD [OF assms(2)] dir by simp
      moreover have "card (subdirs (abs_ns m) p) = Suc (card (subdirs (abs_ns m) p - {x}))"
        using mem True by (intro card.remove [OF finite_subdirs]) simp
      ultimately show ?thesis using True n0 unfolding sub by (simp add: unat_nlink_dec)
    next
      case False
      then have "inodes m i = Some n" using n [unfolded ino] by (simp split: if_splits)
      moreover have "subdirs (abs_ns (detach p x d c ?m)) i = subdirs (abs_ns m) i" using False mem by (auto simp: sub)
      ultimately show ?thesis using links_okD [OF assms(2)] dir by simp
    qed
  qed
qed

lemma links_unlink:
  assumes "meta_wf m" and "ns_ok (abs_ns m)" and "links_ok m"
  shows "links_ok (fst (meta_unlink token r m))"
proof (cases rule: meta_unlink_cases [of token r m])
  case (ok c d n)
  have "dirs m c = None" using non_dir_no_table [OF assms(1) ok(3,4)] .
  then show ?thesis
    using links_detach [OF assms(2,3) ok(1,2) _ ok(3)] ok(4) by (simp add: meta_unlink_ok [OF assms(1) ok])
qed (use assms in simp)

lemma links_rmdir:
  assumes "meta_wf m" and "ns_ok (abs_ns m)" and "links_ok m"
  shows "links_ok (fst (meta_rmdir r m))"
proof (cases rule: meta_rmdir_cases [of r m])
  case (ok c d)
  let ?p = "InodeId (rd_parent_ino r)"
  obtain n where n: "inodes m c = Some n" "i_kind n = Dir"
    using dirs_wf_iff [OF meta_wf_dirs [OF assms(1)], of c] ok by auto
  have ne: "?p \<noteq> c" using entry_parent_neq [OF ok(1)] ok by simp
  have "modify_inode ?p nlink_dec (detach ?p (rd_name r) d c m) = detach ?p (rd_name r) d c (modify_inode ?p nlink_dec m)"
    using ne by (simp add: modify_inode_def put_inode_def detach_def fun_upd_twist split: option.split)
  then show ?thesis
    using links_detach [OF assms(2,3) ok(1,2) _ n(1)] n(2) ok by (simp add: meta_rmdir_ok [OF ok])
qed (use assms in simp)

lemma links_move:
  assumes "meta_wf m" and "ns_ok (abs_ns m)" and "links_ok m" and "links_room m"
    and "entry m sp sn = Some c" and "entry m dp dn = None"
    and "dirs m sp = Some d" and "((dirs m)(sp \<mapsto> bt_remove sn d)) dp = Some d'"
  shows "links_ok (rename_move sp sn d dp dn d' c m)" (is "links_ok ?m'")
proof -
  let ?dir = "kinds (abs_ns m) c = Some Dir"
  let ?S = "subdirs (abs_ns m)"
  have sub: "subdirs (abs_ns ?m') q = (if q = dp \<and> ?dir then {dn} else {}) \<union> (if q = sp then ?S q - {sn} else ?S q)" for q
    unfolding abs_rename_move [OF assms(7,8)] using assms(5,6) by (intro subdirs_move) (simp_all add: ns_simps)
  have mem: "sn \<in> ?S sp \<longleftrightarrow> ?dir" "dn \<notin> ?S dp" using assms(5,6) by (simp_all add: subdirs_iff ns_simps)
  have ino: "inodes ?m' i = (if ?dir \<and> sp \<noteq> dp then
      (if i = dp then map_option nlink_inc (inodes m i) else if i = sp then map_option nlink_dec (inodes m i) else inodes m i)
      else inodes m i)" for i
    by (cases ?dir) (auto simp: rename_move_def Let_def ns_simps)
  have room: "card (?S q) + 3 < 2 ^ 32" for q
    using card_subdirs_le [OF assms(1,2), of q] assms(4) unfolding links_room_def by linarith
  show ?thesis
    unfolding links_ok_def
  proof (intro allI impI)
    fix i n
    assume n: "inodes ?m' i = Some n" and k: "i_kind n = Dir"
    consider (up) "?dir" "sp \<noteq> dp" "i = dp" | (down) "?dir" "sp \<noteq> dp" "i = sp" | (both) "?dir" "sp = dp" "i = sp"
      | (none) "\<not> ?dir \<or> i \<notin> {sp, dp}" by blast
    then show "unat (i_nlink n) = 2 + card (subdirs (abs_ns ?m') i)"
    proof cases
      case up
      then obtain n0 where n0: "inodes m dp = Some n0" "n = nlink_inc n0" using n [unfolded ino] by auto
      then have "unat (i_nlink n0) = 2 + card (?S dp)" using links_okD [OF assms(3)] k by simp
      moreover have "subdirs (abs_ns ?m') dp = insert dn (?S dp)" using up by (simp add: sub)
      ultimately show ?thesis using unat_nlink_inc [of n0] room [of dp] n0 up(3) mem(2) by (simp add: finite_subdirs)
    next
      case down
      then obtain n0 where n0: "inodes m sp = Some n0" "n = nlink_dec n0" using n [unfolded ino] by auto
      then have "unat (i_nlink n0) = 2 + card (?S sp)" using links_okD [OF assms(3)] k by simp
      moreover have "subdirs (abs_ns ?m') sp = ?S sp - {sn}" using down by (simp add: sub)
      moreover have "card (?S sp) = Suc (card (?S sp - {sn}))" using mem(1) down(1) by (intro card.remove [OF finite_subdirs]) simp
      ultimately show ?thesis using n0 down(3) by (simp add: unat_nlink_dec)
    next
      case both
      have "subdirs (abs_ns ?m') sp = insert dn (?S sp - {sn})" unfolding sub using both by simp
      moreover have "card (insert dn (?S sp - {sn})) = card (?S sp)"
        using mem both card.remove [OF finite_subdirs, of sn m sp] finite_subdirs [of m sp] by simp
      moreover have "inodes m i = Some n" using n [unfolded ino] both by simp
      ultimately show ?thesis using links_okD [OF assms(3)] k both(3) by simp
    next
      case none
      then have "subdirs (abs_ns ?m') i = ?S i" using mem by (auto simp: sub)
      moreover have "inodes m i = Some n" using n [unfolded ino] none by (auto split: if_splits)
      ultimately show ?thesis using links_okD [OF assms(3)] k by simp
    qed
  qed
qed

lemma links_rename:
  assumes wf: "meta_wf m" and ns: "ns_ok (abs_ns m)" and "links_ok m" and "links_room m" and safe: "rename_safe r m"
  shows "links_ok (fst (meta_rename token r m))"
proof (cases "entry m (InodeId (rn_src_parent_ino r)) (rn_src_name r)")
  case None
  then show ?thesis using assms(3) by (simp add: meta_rename_def)
next
  case (Some c)
  let ?sp = "InodeId (rn_src_parent_ino r)" and ?dp = "InodeId (rn_dst_parent_ino r)"
  have move: "links_ok (fst (meta_rename token r m))"
    if s1: "rename_drop_dst ?dp (rn_dst_name r) m = (s1, Ok v)" "meta_wf s1" "ns_ok (abs_ns s1)" "links_ok s1" "links_room s1"
      "entry s1 ?sp (rn_src_name r) = Some c" "entry s1 ?dp (rn_dst_name r) = None" "dirs s1 ?dp \<noteq> None" for s1 v
  proof -
    obtain blks fino where v: "v = (blks, fino)" by (cases v)
    obtain d where d: "dirs s1 ?sp = Some d" using entry_SomeD [OF s1(6)] by blast
    obtain d' where d': "((dirs s1)(?sp \<mapsto> bt_remove (rn_src_name r) d)) ?dp = Some d'"
      using s1(8) by (cases "?sp = ?dp") auto
    show ?thesis
      unfolding meta_rename_eq [OF Some s1(1) [unfolded v] d d'] fst_conv by (rule links_move [OF s1(2-7) d d'])
  qed
  from wf show ?thesis
  proof (cases rule: rename_drop_dst_cases [of m ?dp "rn_dst_name r"])
    case (dangling x)
    then show ?thesis using assms(3) Some by (simp add: meta_rename_def)
  next
    case free
    then show ?thesis using assms Some by (intro move [OF free(2)]) (auto simp: rename_safe_def)
  next
    case (fail e x d)
    then show ?thesis using assms(3) Some by (simp add: meta_rename_def)
  next
    case (drop c' d s0 n)
    let ?s1 = "detach ?dp (rn_dst_name r) d c' s0"
    have ents: "entry s0 = entry m" using drop(5) by (simp add: entry_def [abs_def])
    have abs1: "abs_ns ?s1 = ns_del ?dp (rn_dst_name r) c' (abs_ns m)"
      using abs_detach [of s0 ?dp "rn_dst_name r" c' d] drop ents by simp
    have ns1: "ns_ok (abs_ns ?s1)"
      using ns_ok_detach [of s0 ?dp "rn_dst_name r" c' d] drop ents ns by simp
    have wf1: "meta_wf ?s1"
      using meta_wf_detach [OF drop(6) _ entry_parent_neq [OF drop(1,3)]] drop by simp
    have links1: "links_ok ?s1"
      using links_detach [OF ns assms(3) drop(1,2,3,8)] unfolding drop(11) .
    have "next_ino s0 = next_ino m" using drop(11) by simp
    then have room1: "links_room ?s1" using assms(4) by (simp add: links_room_def)
    have "entry ?s1 p x = edges (abs_ns ?s1) (p, x)" for p x by (simp add: ns_simps)
    then have e1: "entry ?s1 ?sp (rn_src_name r) = Some c" and free1: "entry ?s1 ?dp (rn_dst_name r) = None"
      using Some safe by (auto simp: abs1 ns_del_def ns_simps rename_safe_def)
    show ?thesis by (rule move [OF drop(7) wf1 ns1 links1 room1 e1 free1]) (simp add: detach_def)
  qed
qed

lemma links_put_core:
  assumes "meta_wf m" and "links_ok m" and "inodes m i = Some n" and "same_core n n'"
  shows "links_ok (put_inode i n' m)"
  by (rule links_ok_same [OF assms(2) meta_wf_put_core(2) [OF assms(1,3,4)]])
    (use assms(3,4) in \<open>auto simp: ns_simps same_core_def split: if_splits\<close>)

lemma links_set_attr:
  assumes "meta_wf m" and "links_ok m"
  shows "links_ok (fst (meta_set_attr token now r m))"
proof (cases "inodes m (InodeId (sa_ino r))")
  case None
  then show ?thesis using assms(2) by (simp add: meta_set_attr_def)
next
  case (Some n)
  then show ?thesis using meta_set_attr_core [OF Some, of token now] links_put_core [OF assms Some] by auto
qed

lemma links_cong: "inodes m' = inodes m \<Longrightarrow> dirs m' = dirs m \<Longrightarrow> links_ok m \<Longrightarrow> links_ok m'"
  using abs_ns_cong [of m' m] by (simp add: links_ok_def)

lemma links_close:
  assumes "meta_wf m" and "links_ok m"
  shows "links_ok (fst (meta_close now r m))"
proof -
  let ?m1 = "m\<lparr>open_handles := (open_handles m)(cl_fh r := None)\<rparr>"
  have 1: "links_ok ?m1" "meta_wf ?m1" using links_cong [of ?m1 m] assms meta_wf_drop_handle by simp_all
  have "links_ok (put_inode i (close_apply now t r n) ?m1)" if "inodes m i = Some n" for i n t
    using links_put_core [OF 1(2,1) _ same_core_close_apply] that by simp
  then show ?thesis
    using assms(2) 1 by (auto simp: meta_close_def Let_def split: option.split)
qed

lemma links_allocate:
  assumes "meta_wf m" and "links_ok m"
  shows "links_ok (fst (meta_allocate_blocks xxh3 r m))"
proof -
  have "map_option (\<lambda>n. (i_kind n, i_nlink n)) (inodes (fst (fold (alloc_step xxh3 ino) idxs st)) i)
      = map_option (\<lambda>n. (i_kind n, i_nlink n)) (inodes (fst st) i)" for ino idxs st i
  proof (induction idxs arbitrary: st)
    case (Cons idx idxs)
    have "map_option (\<lambda>n. (i_kind n, i_nlink n)) (inodes (fst (alloc_step xxh3 ino idx st)) i)
        = map_option (\<lambda>n. (i_kind n, i_nlink n)) (inodes (fst st) i)"
      by (cases st) (auto simp: alloc_step_eq Let_def ns_simps option.map_comp comp_def split: option.split)
    then show ?case using Cons by simp
  qed simp
  from this [of "InodeId (al_ino r)" "map BlockIdx (al_block_idxs r)" "(m, [])"]
  have "map_option (\<lambda>n. (i_kind n, i_nlink n)) (inodes (fst (meta_allocate_blocks xxh3 r m)) i)
      = map_option (\<lambda>n. (i_kind n, i_nlink n)) (inodes m i)" for i
    by (auto simp: meta_allocate_blocks_def Let_def split: prod.splits)
  note same = this
  have "\<exists>n. inodes m i = Some n \<and> i_kind n' = i_kind n \<and> i_nlink n' = i_nlink n"
    if "inodes (fst (meta_allocate_blocks xxh3 r m)) i = Some n'" for i n'
    using same [of i] that by (cases "inodes m i") auto
  with allocate_refines [OF assms(1), of xxh3 r] assms(2) show ?thesis by (auto intro: links_ok_same)
qed

lemma links_exec:
  assumes "meta_wf m" and "ns_ok (abs_ns m)" and "links_ok m" and "links_room m" and "meta_safe x m"
  shows "links_ok (meta_exec xxh3 token x m)"
  using assms
  by (cases x) (auto intro: links_create links_mkdir links_unlink links_rmdir links_rename links_set_attr links_close
      links_allocate links_cong simp: open_register_def alloc_fh_def meta_heartbeat_node_def Let_def)

lemma links_run:
  assumes "meta_wf m" and "ns_ok (abs_ns m)" and "links_ok m" and "renames_safe xxh3 token ops m"
    and "unat (next_ino m) + length ops + 3 < 2 ^ 32" and "unat (next_fh m) + length ops < 2 ^ 64"
  shows "links_ok (meta_run xxh3 token ops m)"
  using assms
proof (induction ops arbitrary: m)
  case Nil
  then show ?case by (simp add: meta_run_def)
next
  case (Cons x xs)
  let ?m' = "meta_exec xxh3 token x m"
  have c: "counters_ok m" using Cons.prems(5,6) by (simp add: counters_ok_def)
  have safe: "meta_safe x m" using Cons.prems(4) c by (cases x) simp_all
  have grow: "unat (next_ino ?m') \<le> Suc (unat (next_ino m))" "unat (next_fh ?m') \<le> Suc (unat (next_fh m))"
    using counters_exec [of m xxh3 token x] c unat_counter_step unfolding counters_step_def counters_ok_def by blast+
  have "links_room m" using Cons.prems(5) by (simp add: links_room_def)
  then have "links_ok ?m'" using links_exec [OF Cons.prems(1-3)] safe by blast
  moreover have "meta_wf ?m'" "ns_ok (abs_ns ?m')"
    using meta.wf_exec [OF Cons.prems(1,2) safe] meta.exec_ok [OF Cons.prems(1,2) safe] by blast+
  ultimately have "links_ok (meta_run xxh3 token xs ?m')"
    using Cons.IH [of ?m'] Cons.prems(4-6) grow by simp
  then show ?case by (simp add: meta_run_def)
qed

lemma links_new: "links_ok (meta_new now rf)"
  by (auto simp: links_ok_def meta_new_def root_inode_def subdirs_def ns_simps entry_def split: if_splits)

text \<open>
  C24. Link counts.  After a run of a new metadata server of fewer than \<open>2 ^ 32 - 8\<close>
  requests in which every rename meets its conditions (an existing destination directory
  that is not below the moved inode, and another name than the source), the link count of
  every directory is two more than the number of directories it contains: Mkdir, Rmdir
  and the three adjustments of Rename keep the account, also when a directory replaces
  another one.  The condition is needed: a rename of a directory to a missing parent takes
  the entry out of its directory and replies NotFound before the link count is adjusted.
\<close>

theorem directory_link_counts:
  assumes "renames_safe xxh3 token ops (meta_new now rf)" and "length ops < 2 ^ 32 - 8"
    and "m = meta_run xxh3 token ops (meta_new now rf)" and "inodes m i = Some n" and "i_kind n = Dir"
  shows "unat (i_nlink n) = 2 + card {name. \<exists>c k. entry m i name = Some c \<and> inodes m c = Some k \<and> i_kind k = Dir}"
proof -
  have "links_ok m"
    unfolding assms(3) using assms(1,2)
    by (intro links_run meta_wf_new links_new) (simp_all add: abs_ns_new ns_ok_init, simp_all add: meta_new_def)
  from links_okD [OF this assms(4,5)] show ?thesis by (simp add: subdirs_def ns_simps)
qed

abbreviation link_ops :: "meta_op list" where
  "link_ops \<equiv>
     [OpMkdir 0 \<lparr> mk_parent_ino = 1, mk_name = ''d'', mk_mode = 493, mk_uid = 0, mk_gid = 0 \<rparr>,
      OpCreate 0 \<lparr> cr_parent_ino = 1, cr_name = ''f'', cr_mode = 420, cr_uid = 0, cr_gid = 0 \<rparr>]"

theorem directory_link_counts_witness:
  "\<exists>n. inodes (meta_run (\<lambda>_ _. 0) [] link_ops (meta_new 0 2)) (InodeId 1) = Some n
     \<and> card {name. \<exists>c k. entry (meta_run (\<lambda>_ _. 0) [] link_ops (meta_new 0 2)) (InodeId 1) name = Some c
          \<and> inodes (meta_run (\<lambda>_ _. 0) [] link_ops (meta_new 0 2)) c = Some k \<and> i_kind k = Dir} = 1"
proof -
  obtain n where n: "inodes (meta_run (\<lambda>_ _. 0) [] link_ops (meta_new 0 2)) (InodeId 1) = Some n" "i_kind n = Dir" "i_nlink n = 3"
    by (simp add: meta_run_def meta_mkdir_def meta_create_def meta_new_def Let_def alloc_ino_def alloc_fh_def with_dir_def
        ROOT_def bt_contains_def bt_get_def modify_inode_def put_inode_def root_inode_def nlink_inc_def)
  have "renames_safe (\<lambda>_ _. 0) [] link_ops (meta_new 0 2)" "length link_ops < 2 ^ 32 - 8" by simp_all
  from directory_link_counts [OF this refl n(1,2)] n(1,3) show ?thesis by simp
qed

end
