(* ===== verification/Auth.thy ===== *)
theory Auth
  imports Errors
begin

text \<open>
  \<^verbatim>\<open>auth.rs\<close> of the metadata server and of the store (the same code in both): the
  interceptor that every request passes before its handler.  A request's metadata is a
  map from header names to byte strings.  \<^verbatim>\<open>MetadataValue::to_str\<close> belongs to
  tonic and is the parameter \<open>to_str\<close>; \<^verbatim>\<open>ct_eq\<close> compares for equality in constant
  time, and the timing is not modelled.
\<close>

type_synonym metadata = "string \<rightharpoonup> string"

definition check_token ::
  "(string \<Rightarrow> string option) \<Rightarrow> metadata \<Rightarrow> string \<Rightarrow> (metadata, status) result" where
  "check_token to_str md expected =
     (let got = unwrap_or (Option.bind (md ''cluster-token'') to_str) [] in
      if got = expected then Ok md
      else Err (st_unauthenticated ''invalid cluster token''))"

text \<open>
  What every caller does before sending: \<^verbatim>\<open>token.parse().expect(..)\<close> and insert.
  \<^verbatim>\<open>parse\<close> is tonic's and the parameter \<open>parse_md\<close>; a token it refuses makes the
  caller panic.
\<close>

definition authed :: "(string \<Rightarrow> string option) \<Rightarrow> string \<Rightarrow> (metadata, status) result" where
  "authed parse_md token =
     (case parse_md token of None \<Rightarrow> Panic | Some v \<Rightarrow> Ok [''cluster-token'' \<mapsto> v])"

text \<open>The store has a file of its own with the same check.\<close>

definition store_check_token ::
  "(string \<Rightarrow> string option) \<Rightarrow> metadata \<Rightarrow> string \<Rightarrow> (metadata, status) result" where
  "store_check_token to_str md expected =
     (let got = unwrap_or (Option.bind (md ''cluster-token'') to_str) [] in
      if got = expected then Ok md
      else Err (st_unauthenticated ''invalid cluster token''))"

text \<open>A server behind its interceptor: the handler runs only for an accepted request.\<close>

definition guarded ::
  "(string \<Rightarrow> string option) \<Rightarrow> string \<Rightarrow> metadata \<Rightarrow> ('s \<Rightarrow> 's \<times> ('a, status) result) \<Rightarrow> 's
     \<Rightarrow> 's \<times> ('a, status) result" where
  "guarded to_str expected md h s =
     (case check_token to_str md expected of
        Ok _ \<Rightarrow> h s
      | Err e \<Rightarrow> (s, Err e)
      | Panic \<Rightarrow> (s, Panic))"

definition store_guarded ::
  "(string \<Rightarrow> string option) \<Rightarrow> string \<Rightarrow> metadata \<Rightarrow> ('s \<Rightarrow> 's \<times> ('a, status) result) \<Rightarrow> 's
     \<Rightarrow> 's \<times> ('a, status) result" where
  "store_guarded to_str expected md h s =
     (case store_check_token to_str md expected of
        Ok _ \<Rightarrow> h s
      | Err e \<Rightarrow> (s, Err e)
      | Panic \<Rightarrow> (s, Panic))"

lemma store_guarded_eq [simp]: "store_guarded = guarded"
  by (intro ext) (simp add: store_guarded_def guarded_def store_check_token_def check_token_def)

lemma check_token_Ok_iff:
  "check_token to_str md expected = Ok md' \<longleftrightarrow>
     md' = md \<and> unwrap_or (Option.bind (md ''cluster-token'') to_str) [] = expected"
  by (auto simp: check_token_def Let_def)

lemma check_token_not_Panic [simp]: "check_token to_str md expected \<noteq> Panic"
  by (simp add: check_token_def Let_def)

text \<open>
  Only requests with the token reach a handler.  A guarded handler runs exactly when
  the text of the \<^verbatim>\<open>cluster-token\<close> header, or the empty text when the header is
  missing or not readable, is the configured token; otherwise the state does not change
  and the reply is Unauthenticated.  A caller that sends the configured token through
  \<^verbatim>\<open>authed\<close> is let in, provided that tonic gives back the header value that was
  inserted.
\<close>

theorem guarded_needs_token:
  assumes "\<And>v. parse_md token = Some v \<Longrightarrow> to_str v = Some token"
  shows "guarded to_str token md h s =
      (if unwrap_or (Option.bind (md ''cluster-token'') to_str) [] = token then h s
       else (s, Err (st_unauthenticated ''invalid cluster token'')))
    \<and> (\<forall>md'. authed parse_md token = Ok md' \<longrightarrow> guarded to_str token md' h s = h s)
    \<and> (token \<noteq> [] \<longrightarrow> guarded to_str token Map.empty h s = (s, Err (st_unauthenticated ''invalid cluster token'')))"
  using assms by (auto simp: guarded_def check_token_def authed_def Let_def split: option.splits)

theorem guarded_needs_token_witness:
  "guarded Some ''secret'' Map.empty (\<lambda>s. (s, Ok ())) (0 :: nat) = (0, Err (st_unauthenticated ''invalid cluster token''))
   \<and> (\<exists>md. authed Some ''secret'' = Ok md \<and> guarded Some ''secret'' md (\<lambda>s. (s + 1, Ok ())) (4 :: nat) = (5, Ok ()))"
  using guarded_needs_token [of Some "''secret''" Some Map.empty "\<lambda>s. (s, Ok ())" "0 :: nat"]
    guarded_needs_token [of Some "''secret''" Some Map.empty "\<lambda>s. (s + 1, Ok ())" "4 :: nat"]
  by (simp add: authed_def)

end
