(* ===== verification/Client_State.thy ===== *)
theory Client_State
  imports Proto Auth Containers Utf8
begin

text \<open>
  The client's data: \<^verbatim>\<open>open_file.rs\<close>, \<^verbatim>\<open>cache.rs\<close>, the connection pool of
  \<^verbatim>\<open>client.rs\<close>, the struct \<^verbatim>\<open>DtmpfsFs\<close> of \<^verbatim>\<open>fs.rs\<close>, and the conversions
  of messages to FUSE values.

  Everything behind the client's RPC stubs is outside the client: tonic, the network
  and the servers at its other end.  It is the parameter \<open>T\<close>, a record with one
  function per RPC over a world of some type \<open>'w\<close>, together with the clock and the
  decision of the moka caches to keep an entry.  A connected channel is the address it
  was connected to.  The field \<open>fs_world\<close> of the client state is the current world, so
  that the order of the client's calls is the order of the state changes.
\<close>

type_synonym 'a rpc = "status + 'a"
type_synonym chan = string
type_synonym cache_key = "inode_id \<times> generation \<times> block_idx"

record 'w transport =
  t_parse :: "string \<Rightarrow> string option"
  t_uri_ok :: "string \<Rightarrow> bool"
  t_connect :: "string \<Rightarrow> 'w \<Rightarrow> bool \<times> 'w"
  t_read_block :: "chan \<Rightarrow> metadata \<Rightarrow> read_block_req \<Rightarrow> 'w \<Rightarrow> read_block_resp rpc \<times> 'w"
  t_write_block :: "chan \<Rightarrow> metadata \<Rightarrow> write_block_req \<Rightarrow> 'w \<Rightarrow> u32 rpc \<times> 'w"
  t_lookup :: "metadata \<Rightarrow> lookup_req \<Rightarrow> 'w \<Rightarrow> attr option rpc \<times> 'w"
  t_get_attr :: "metadata \<Rightarrow> u64 \<Rightarrow> 'w \<Rightarrow> attr rpc \<times> 'w"
  t_set_attr :: "metadata \<Rightarrow> set_attr_req \<Rightarrow> 'w \<Rightarrow> attr option rpc \<times> 'w"
  t_create :: "metadata \<Rightarrow> create_req \<Rightarrow> 'w \<Rightarrow> create_resp rpc \<times> 'w"
  t_mkdir :: "metadata \<Rightarrow> mkdir_req \<Rightarrow> 'w \<Rightarrow> attr rpc \<times> 'w"
  t_unlink :: "metadata \<Rightarrow> unlink_req \<Rightarrow> 'w \<Rightarrow> unit rpc \<times> 'w"
  t_rmdir :: "metadata \<Rightarrow> rmdir_req \<Rightarrow> 'w \<Rightarrow> unit rpc \<times> 'w"
  t_rename :: "metadata \<Rightarrow> rename_req \<Rightarrow> 'w \<Rightarrow> unit rpc \<times> 'w"
  t_read_dir :: "metadata \<Rightarrow> read_dir_req \<Rightarrow> 'w \<Rightarrow> read_dir_resp rpc \<times> 'w"
  t_open :: "metadata \<Rightarrow> open_req \<Rightarrow> 'w \<Rightarrow> open_resp rpc \<times> 'w"
  t_close :: "metadata \<Rightarrow> close_req \<Rightarrow> 'w \<Rightarrow> attr option rpc \<times> 'w"
  t_allocate :: "metadata \<Rightarrow> alloc_req \<Rightarrow> 'w \<Rightarrow> block_loc list rpc \<times> 'w"
  t_list_nodes :: "metadata \<Rightarrow> 'w \<Rightarrow> proto_node_info list rpc \<times> 'w"
  t_now :: "'w \<Rightarrow> system_time"
  t_instant :: "'w \<Rightarrow> instant"
  t_attr_kept :: "'w \<Rightarrow> inode_id \<Rightarrow> bool"
  t_block_kept :: "'w \<Rightarrow> cache_key \<Rightarrow> bool"
  t_invalidate :: "(cache_key \<Rightarrow> bool) \<Rightarrow> (cache_key \<rightharpoonup> bytes) \<Rightarrow> (cache_key \<rightharpoonup> bytes)"

record open_file =
  of_ino :: inode_id
  of_generation :: generation
  of_block_map :: "(block_idx, block_placement) btree"
  of_dirty :: "(block_idx, bytes) btree"
  of_size_hint :: u64
  of_flags :: i32

datatype file_type = Directory | SymlinkFile | RegularFile

record file_attr =
  fa_ino :: u64
  fa_size :: u64
  fa_blocks :: u64
  fa_atime :: system_time
  fa_mtime :: system_time
  fa_ctime :: system_time
  fa_crtime :: system_time
  fa_kind :: file_type
  fa_perm :: "16 word"
  fa_nlink :: u32
  fa_uid :: u32
  fa_gid :: u32
  fa_rdev :: u32
  fa_blksize :: u32
  fa_flags :: u32

record cached_attr =
  ca_attr :: file_attr
  ca_fetched :: instant

text \<open>
  The attribute cache is a moka cache with a time to live.  moka measures the age of an
  entry from its insertion, which directly follows the reading of \<open>ca_fetched\<close>, and hides
  it once the time to live is over; that it may drop an entry earlier for want of
  capacity is \<open>t_attr_kept\<close>.
\<close>

record attr_cache =
  ac_ttl :: duration
  ac_entries :: "inode_id \<rightharpoonup> cached_attr"

definition from_millis :: "u64 \<Rightarrow> duration" where
  "from_millis ms = unat ms * 1000000"

definition build_attr_cache :: "u64 \<Rightarrow> attr_cache" where
  "build_attr_cache ttl_ms = \<lparr> ac_ttl = from_millis ttl_ms, ac_entries = Map.empty \<rparr>"

text \<open>
  The block cache is bounded by the bytes it holds: its capacity in bytes, computed as the
  code does, and the weight of a block.
\<close>

definition block_cache_capacity :: "u64 \<Rightarrow> u64" where
  "block_cache_capacity capacity_mb = capacity_mb * 1024 * 1024"

definition block_weight :: "bytes \<Rightarrow> u32" where
  "block_weight v = of_nat (length v)"

text \<open>
  \<^verbatim>\<open>usize\<close> is 64 bits wide.  The map \<open>fs_open_files\<close> holds the open file itself in
  place of the shared, locked cell: FUSE requests run one at a time, and every
  definition below that changes an open file writes it back before it ends.
\<close>

record 'w fs =
  fs_world :: 'w
  fs_clients :: "node_id \<rightharpoonup> chan"
  fs_addrs :: "(node_id, string) hmap"
  fs_attr_cache :: attr_cache
  fs_block_cache :: "cache_key \<rightharpoonup> bytes"
  fs_open_files :: "u64 \<rightharpoonup> open_file"
  fs_block_size :: u64
  fs_replication_factor :: u64
  fs_token :: string

text \<open>
  \<^verbatim>\<open>StoreClientPool\<close> is the pair of \<open>fs_clients\<close> and \<open>fs_addrs\<close>; \<open>pool_new\<close> is the pool a
  client starts with.
\<close>

definition pool_new :: "(node_id \<rightharpoonup> chan) \<times> (node_id, string) hmap" where
  [simp]: "pool_new = (Map.empty, [])"

definition build_fs :: "'w \<Rightarrow> u64 \<Rightarrow> u64 \<Rightarrow> u64 \<Rightarrow> string \<Rightarrow> 'w fs" where
  "build_fs w ttl_ms bs rf token = \<lparr> fs_world = w, fs_clients = fst pool_new, fs_addrs = snd pool_new,
     fs_attr_cache = build_attr_cache ttl_ms, fs_block_cache = Map.empty, fs_open_files = Map.empty,
     fs_block_size = bs, fs_replication_factor = rf, fs_token = token \<rparr>"

section \<open>The connection pool\<close>

definition pool_get ::
  "'w transport \<Rightarrow> node_id \<Rightarrow> 'w fs \<Rightarrow> (chan, dtmpfs_error) result \<times> 'w fs" where
  "pool_get T nid s =
     (case fs_clients s nid of
        Some c \<Rightarrow> (Ok c, s)
      | None \<Rightarrow>
          (case hm_get (fs_addrs s) nid of
             None \<Rightarrow> (Err (EStoreUnavailable nid), s)
           | Some addr \<Rightarrow>
               if \<not> t_uri_ok T addr then (Err (EStoreUnavailable nid), s)
               else (case t_connect T addr (fs_world s) of (up, w) \<Rightarrow>
                 let s1 = s\<lparr>fs_world := w\<rparr> in
                 if \<not> up then (Err (EStoreUnavailable nid), s1)
                 else (Ok addr, s1\<lparr>fs_clients := (fs_clients s1)(nid \<mapsto> addr)\<rparr>))))"

definition refresh_addrs :: "(node_id, string) hmap \<Rightarrow> 'w fs \<Rightarrow> 'w fs" where
  "refresh_addrs m s = s\<lparr>fs_addrs := m\<rparr>"

definition evict :: "node_id \<Rightarrow> 'w fs \<Rightarrow> 'w fs" where
  "evict nid s = s\<lparr>fs_clients := (fs_clients s)(nid := None)\<rparr>"

definition addr_map_of :: "proto_node_info list \<Rightarrow> (node_id, string) hmap" where
  "addr_map_of ns = hm_collect (map (\<lambda>n. (NodeId (pn_node_id n), ''http://'' @ pn_addr n)) ns)"

section \<open>Calls\<close>

text \<open>
  A call \<^verbatim>\<open>stub.f(self.authed(..)).await\<close>: attach the token, which panics when it is
  no valid header value, then call.
\<close>

definition authed_call ::
  "'w transport \<Rightarrow> (metadata \<Rightarrow> 'w \<Rightarrow> 'a rpc \<times> 'w) \<Rightarrow> 'w fs \<Rightarrow> ('a, status) result \<times> 'w fs" where
  "authed_call T f s =
     (case authed (t_parse T) (fs_token s) of
        Ok md \<Rightarrow>
          (case f md (fs_world s) of
             (Inl e, w) \<Rightarrow> (Err e, s\<lparr>fs_world := w\<rparr>)
           | (Inr a, w) \<Rightarrow> (Ok a, s\<lparr>fs_world := w\<rparr>))
      | _ \<Rightarrow> (Panic, s))"

section \<open>Caches\<close>

definition attr_cache_get :: "'w transport \<Rightarrow> inode_id \<Rightarrow> 'w fs \<Rightarrow> cached_attr option" where
  "attr_cache_get T ino s =
     (case ac_entries (fs_attr_cache s) ino of
        None \<Rightarrow> None
      | Some c \<Rightarrow>
          if t_instant T (fs_world s) < ca_fetched c + ac_ttl (fs_attr_cache s) \<and> t_attr_kept T (fs_world s) ino
          then Some c else None)"

definition attr_cache_insert :: "'w transport \<Rightarrow> inode_id \<Rightarrow> file_attr \<Rightarrow> 'w fs \<Rightarrow> 'w fs" where
  "attr_cache_insert T ino fa s = s\<lparr>fs_attr_cache := (fs_attr_cache s)\<lparr>ac_entries :=
     (ac_entries (fs_attr_cache s))(ino \<mapsto> \<lparr> ca_attr = fa, ca_fetched = t_instant T (fs_world s) \<rparr>)\<rparr>\<rparr>"

definition block_cache_get :: "'w transport \<Rightarrow> cache_key \<Rightarrow> 'w fs \<Rightarrow> bytes option" where
  "block_cache_get T k s = (if t_block_kept T (fs_world s) k then fs_block_cache s k else None)"

definition block_cache_insert :: "cache_key \<Rightarrow> bytes \<Rightarrow> 'w fs \<Rightarrow> 'w fs" where
  "block_cache_insert k b s = s\<lparr>fs_block_cache := (fs_block_cache s)(k \<mapsto> b)\<rparr>"

section \<open>Messages to FUSE values\<close>

text \<open>
  \<^verbatim>\<open>SystemTime::UNIX_EPOCH + Duration::new(s as u64, ns)\<close>: here the seconds are
  reinterpreted, so a negative number becomes a huge one and the addition panics.
\<close>

definition attr_time :: "i64 \<Rightarrow> u32 \<Rightarrow> system_time option" where
  "attr_time s ns = time_add 0 (duration_new s ns)"

definition proto_attr_to_fuse :: "attr \<Rightarrow> file_attr option" where
  "proto_attr_to_fuse a =
     (let kind = (if at_mode a AND 61440 = 16384 then Directory
                  else if at_mode a AND 61440 = 40960 then SymlinkFile
                  else RegularFile)
      in case (attr_time (at_atime_s a) (at_atime_ns a), attr_time (at_mtime_s a) (at_mtime_ns a),
               attr_time (at_ctime_s a) (at_ctime_ns a)) of
           (Some ta, Some tm, Some tc) \<Rightarrow>
             Some \<lparr> fa_ino = at_ino a, fa_size = at_size a, fa_blocks = at_blocks a, fa_atime = ta,
               fa_mtime = tm, fa_ctime = tc, fa_crtime = 0, fa_kind = kind,
               fa_perm = ucast (at_mode a AND 4095), fa_nlink = at_nlink a, fa_uid = at_uid a,
               fa_gid = at_gid a, fa_rdev = 0, fa_blksize = push_bit 20 1, fa_flags = 0 \<rparr>
         | _ \<Rightarrow> None)"

definition proto_kind_to_fuse :: "u32 \<Rightarrow> file_type" where
  "proto_kind_to_fuse kind = (if kind = 2 then Directory else if kind = 3 then SymlinkFile else RegularFile)"

definition insert_loc ::
  "block_loc \<Rightarrow> (block_idx, block_placement) btree \<Rightarrow> (block_idx, block_placement) btree" where
  "insert_loc loc bm = bt_insert (BlockIdx (bl_block_idx loc))
     \<lparr> primary = NodeId (bl_primary loc), replicas = map NodeId (bl_replicas loc) \<rparr> bm"

definition build_open_file ::
  "inode_id \<Rightarrow> u64 \<Rightarrow> attr \<Rightarrow> block_loc list \<Rightarrow> i32 \<Rightarrow> u64 \<times> open_file" where
  "build_open_file ino fh a block_map flags =
     (fh, \<lparr> of_ino = ino, of_generation = Generation (at_generation a),
        of_block_map = fold insert_loc block_map [], of_dirty = [], of_size_hint = at_size a,
        of_flags = flags \<rparr>)"

end
