(* ===== verification/Client_IO.thy ===== *)
theory Client_IO
  imports Client_State
begin

text \<open>
  The block path of the client, \<^verbatim>\<open>fs.rs\<close>: \<^verbatim>\<open>fetch_block\<close> with its dirty
  buffers, cache, lazy address refresh and fail-over, \<^verbatim>\<open>apply_write\<close>, and the loop of
  \<^verbatim>\<open>read\<close>.  Offsets are 64 bit words and wrap.

  The two loops carry fuel, the value \<open>None\<close> being that it ran out.  Every round moves
  \<open>cur\<close> by at least one byte towards \<open>end\<close>, so the number of bytes plus one is
  enough; \<open>write_loop_view\<close> and \<open>read_loop_view\<close> show that the loops return.
\<close>

section \<open>Fetching a block\<close>

definition block_req :: "inode_id \<Rightarrow> block_idx \<Rightarrow> read_block_req" where
  "block_req ino idx = \<lparr> rb_key = Some \<lparr> pk_ino = raw ino, pk_block_idx = raw_idx idx, pk_generation = 0 \<rparr>,
     rb_offset = 0, rb_len = 0 \<rparr>"

definition zero_block :: "'w fs \<Rightarrow> bytes" where
  "zero_block s = replicate (unat (fs_block_size s)) 0"

fun fetch_from ::
  "'w transport \<Rightarrow> open_file \<Rightarrow> block_idx \<Rightarrow> node_id list \<Rightarrow> dtmpfs_error \<Rightarrow> 'w fs
     \<Rightarrow> (bytes, dtmpfs_error) result \<times> 'w fs" where
  "fetch_from T f idx [] last_err s = (Err last_err, s)"
| "fetch_from T f idx (node # rest) last_err s =
     (case pool_get T node s of
        (Err e, s1) \<Rightarrow> fetch_from T f idx rest e s1
      | (Panic, s1) \<Rightarrow> (Panic, s1)
      | (Ok client, s1) \<Rightarrow>
          (case authed_call T (\<lambda>md. t_read_block T client md (block_req (of_ino f) idx)) s1 of
             (Ok r, s2) \<Rightarrow>
               (Ok (rbr_data r), block_cache_insert (of_ino f, of_generation f, idx) (rbr_data r) s2)
           | (Panic, s2) \<Rightarrow> (Panic, s2)
           | (Err st, s2) \<Rightarrow>
               if status_code st = NotFound then (Ok (zero_block s2), s2)
               else fetch_from T f idx rest (EStoreUnavailable node) (evict node s2)))"

definition refresh_if_empty :: "'w transport \<Rightarrow> 'w fs \<Rightarrow> (unit, dtmpfs_error) result \<times> 'w fs" where
  "refresh_if_empty T s =
     (if fs_addrs s = [] then
        (case authed_call T (t_list_nodes T) s of
           (Ok ns, s1) \<Rightarrow> (Ok (), refresh_addrs (addr_map_of ns) s1)
         | (Err _, s1) \<Rightarrow> (Ok (), s1)
         | (Panic, s1) \<Rightarrow> (Panic, s1))
      else (Ok (), s))"

definition fetch_block ::
  "'w transport \<Rightarrow> open_file \<Rightarrow> block_idx \<Rightarrow> 'w fs \<Rightarrow> (bytes, dtmpfs_error) result \<times> 'w fs" where
  "fetch_block T f idx s =
     (case bt_get (of_dirty f) idx of
        Some buf \<Rightarrow> (Ok buf, s)
      | None \<Rightarrow>
          (case block_cache_get T (of_ino f, of_generation f, idx) s of
             Some b \<Rightarrow> (Ok b, s)
           | None \<Rightarrow>
               (case refresh_if_empty T s of
                  (Ok _, s1) \<Rightarrow>
                    (case bt_get (of_block_map f) idx of
                       None \<Rightarrow> (Err ENotFound, s1)
                     | Some p \<Rightarrow>
                         fetch_from T f idx (primary p # replicas p) (EStoreUnavailable (primary p)) s1)
                | (Err e, s1) \<Rightarrow> (Err e, s1)
                | (Panic, s1) \<Rightarrow> (Panic, s1))))"

section \<open>Writing into an open file\<close>

text \<open>
  The loops take the fetch function as an argument; the client passes
  \<^const>\<open>fetch_block\<close>.  \<open>load_block\<close> is the part of the write loop that makes the block
  of \<open>idx\<close> dirty, \<open>copy_chunk\<close> its \<^verbatim>\<open>copy_from_slice\<close>, which panics when either slice
  is out of range.
\<close>

type_synonym 's fetcher = "open_file \<Rightarrow> block_idx \<Rightarrow> 's \<Rightarrow> (bytes, dtmpfs_error) result \<times> 's"

definition pad_block :: "u64 \<Rightarrow> bytes \<Rightarrow> bytes" where
  "pad_block bs b = b @ replicate (unat bs - length b) 0"

definition load_block ::
  "'s fetcher \<Rightarrow> u64 \<Rightarrow> block_idx \<Rightarrow> bool \<Rightarrow> open_file \<Rightarrow> 's \<Rightarrow> (unit, dtmpfs_error) result \<times> open_file \<times> 's"
where
  "load_block fetch bs idx whole f s =
     (if bt_contains (of_dirty f) idx then (Ok (), f, s)
      else if whole then
        (Ok (), f\<lparr>of_dirty := bt_insert idx (replicate (unat bs) 0) (of_dirty f)\<rparr>, s)
      else if bt_contains (of_block_map f) idx then
        (case fetch f idx s of
           (Ok b, s1) \<Rightarrow> (Ok (), f\<lparr>of_dirty := bt_insert idx (pad_block bs b) (of_dirty f)\<rparr>, s1)
         | (Err e, s1) \<Rightarrow> (Err e, f, s1)
         | (Panic, s1) \<Rightarrow> (Panic, f, s1))
      else (Ok (), f\<lparr>of_dirty := bt_insert idx (replicate (unat bs) 0) (of_dirty f)\<rparr>, s))"

definition splice :: "nat \<Rightarrow> bytes \<Rightarrow> bytes \<Rightarrow> bytes" where
  "splice i d b = take i b @ d @ drop (i + length d) b"

definition copy_chunk :: "block_idx \<Rightarrow> nat \<Rightarrow> nat \<Rightarrow> nat \<Rightarrow> bytes \<Rightarrow> open_file \<Rightarrow> open_file option" where
  "copy_chunk idx in_block chunk_len written data f =
     (case bt_get (of_dirty f) idx of
        None \<Rightarrow> None
      | Some buf \<Rightarrow>
          if in_block + chunk_len \<le> length buf \<and> written + chunk_len \<le> length data
          then Some (f\<lparr>of_dirty :=
            bt_insert idx (splice in_block (take chunk_len (drop written data)) buf) (of_dirty f)\<rparr>)
          else None)"

fun write_loop ::
  "nat \<Rightarrow> 's fetcher \<Rightarrow> u64 \<Rightarrow> u64 \<Rightarrow> bytes \<Rightarrow> u64 \<Rightarrow> u32 \<Rightarrow> open_file \<Rightarrow> 's
     \<Rightarrow> ((u32, dtmpfs_error) result \<times> open_file \<times> 's) option" where
  "write_loop 0 fetch bs end' data cur written f s = None"
| "write_loop (Suc fuel) fetch bs end' data cur written f s =
     (if \<not> cur < end' then Some (Ok written, f, s)
      else if bs = 0 then Some (Panic, f, s)
      else
        let idx = BlockIdx (cur div bs);
            block_off = raw_idx idx * bs;
            in_block = cur - block_off;
            chunk_len = min (block_off + bs) end' - cur
        in case load_block fetch bs idx (in_block = 0 \<and> chunk_len = bs) f s of
             (Err e, f1, s1) \<Rightarrow> Some (Err e, f1, s1)
           | (Panic, f1, s1) \<Rightarrow> Some (Panic, f1, s1)
           | (Ok _, f1, s1) \<Rightarrow>
               (case copy_chunk idx (unat in_block) (unat chunk_len) (unat written) data f1 of
                  None \<Rightarrow> Some (Panic, f1, s1)
                | Some f2 \<Rightarrow>
                    write_loop fuel fetch bs end' data (cur + chunk_len) (written + ucast chunk_len) f2 s1))"

definition apply_write_with ::
  "nat \<Rightarrow> 's fetcher \<Rightarrow> u64 \<Rightarrow> u64 \<Rightarrow> bytes \<Rightarrow> open_file \<Rightarrow> 's
     \<Rightarrow> ((u32, dtmpfs_error) result \<times> open_file \<times> 's) option" where
  "apply_write_with fuel fetch bs offset data f s =
     (let end' = offset + of_nat (length data) in
      case write_loop fuel fetch bs end' data offset 0 f s of
        None \<Rightarrow> None
      | Some (Ok written, f1, s1) \<Rightarrow>
          Some (Ok written, f1\<lparr>of_size_hint := max (of_size_hint f1) end'\<rparr>, s1)
      | Some (Err e, f1, s1) \<Rightarrow> Some (Err e, f1, s1)
      | Some (Panic, f1, s1) \<Rightarrow> Some (Panic, f1, s1))"

definition apply_write ::
  "'w transport \<Rightarrow> u64 \<Rightarrow> bytes \<Rightarrow> open_file \<Rightarrow> 'w fs
     \<Rightarrow> ((u32, dtmpfs_error) result \<times> open_file \<times> 'w fs) option" where
  "apply_write T offset data f s =
     apply_write_with (Suc (length data)) (fetch_block T) (fs_block_size s) offset data f s"

section \<open>Reading from an open file\<close>

definition read_chunk :: "nat \<Rightarrow> nat \<Rightarrow> bytes \<Rightarrow> bytes" where
  "read_chunk in_block want block =
     (let avail = length block - in_block;
          tk = min want avail
      in (if tk > 0 then take tk (drop in_block block) else [])
         @ (if tk < want then replicate (want - tk) 0 else []))"

fun read_loop ::
  "nat \<Rightarrow> 's fetcher \<Rightarrow> u64 \<Rightarrow> u64 \<Rightarrow> u64 \<Rightarrow> bytes \<Rightarrow> open_file \<Rightarrow> 's
     \<Rightarrow> ((bytes, dtmpfs_error) result \<times> 's) option" where
  "read_loop 0 fetch bs end' cur buf f s = None"
| "read_loop (Suc fuel) fetch bs end' cur buf f s =
     (if \<not> cur < end' then Some (Ok buf, s)
      else if bs = 0 then Some (Panic, s)
      else
        let idx = BlockIdx (cur div bs);
            blk_off = raw_idx idx * bs;
            in_block = cur - blk_off;
            want = min (blk_off + bs) end' - cur
        in if bt_contains (of_block_map f) idx \<or> bt_contains (of_dirty f) idx then
             (case fetch f idx s of
                (Ok block, s1) \<Rightarrow>
                  read_loop fuel fetch bs end' (cur + want)
                    (buf @ read_chunk (unat in_block) (unat want) block) f s1
              | (Err e, s1) \<Rightarrow> Some (Err e, s1)
              | (Panic, s1) \<Rightarrow> Some (Panic, s1))
           else read_loop fuel fetch bs end' (cur + want) (buf @ replicate (unat want) 0) f s)"

definition read_file ::
  "'w transport \<Rightarrow> i64 \<Rightarrow> u32 \<Rightarrow> open_file \<Rightarrow> 'w fs \<Rightarrow> ((bytes, dtmpfs_error) result \<times> 'w fs) option" where
  "read_file T offset sz f s =
     (let end' = offset + ucast sz in
      read_loop (Suc (unat sz)) (fetch_block T) (fs_block_size s) end' offset [] f s)"

end
