(* ===== verification/Fanout.thy ===== *)
theory Fanout
  imports Client_IO
begin

text \<open>
  The fan-out of \<^verbatim>\<open>publish\<close> in \<^verbatim>\<open>flush.rs\<close>.  Every dirty block is written by a
  future of its own; \<^verbatim>\<open>buffer_unordered(16)\<close> has at most sixteen of them under way and
  starts the next one as soon as there is a place, and \<^verbatim>\<open>try_collect\<close> gives up at the
  first error, which drops the futures that are under way and those that have not started.

  A future waits at two kinds of places, for a connection and for the reply of a store;
  \<open>future_step\<close> runs it from one such place to the next.  Which future goes on is the choice
  of \<open>pick\<close>, a parameter: since the state of the fan-out never repeats, every interleaving is
  the one of some \<open>pick\<close>.  A future that is dropped while it waits for a reply has its request
  on the way: the store may still handle it, later or never.  Such a request and the replica
  writes that \<^verbatim>\<open>flush\<close> does not wait for are the tasks that a publish leaves behind.
\<close>

section \<open>Writing one block\<close>

datatype wait_policy = PrimariesOnly | AllReplicas

text \<open>\<open>rt_chan\<close> is the channel of a request that is already on its way.\<close>

record replica_task =
  rt_ino :: inode_id
  rt_idx :: block_idx
  rt_node :: node_id
  rt_data :: bytes
  rt_chan :: "chan option"

definition write_key :: "inode_id \<Rightarrow> block_idx \<Rightarrow> proto_block_key" where
  "write_key ino idx = \<lparr> pk_ino = raw ino, pk_block_idx = raw_idx idx, pk_generation = 0 \<rparr>"

definition send_block ::
  "'w transport \<Rightarrow> inode_id \<Rightarrow> block_idx \<Rightarrow> node_id \<Rightarrow> chan \<Rightarrow> bytes \<Rightarrow> 'w fs \<Rightarrow> (unit, dtmpfs_error) result \<times> 'w fs" where
  "send_block T ino idx n c data s =
     (case authed_call T (\<lambda>md. t_write_block T c md \<lparr> wb_key = Some (write_key ino idx), wb_data = data \<rparr>) s of
        (Ok _, s1) \<Rightarrow> (Ok (), s1)
      | (Err st, s1) \<Rightarrow> (Err (from_status st (Some n)), s1)
      | (Panic, s1) \<Rightarrow> (Panic, s1))"

definition write_one ::
  "'w transport \<Rightarrow> inode_id \<Rightarrow> block_idx \<Rightarrow> node_id \<Rightarrow> bytes \<Rightarrow> 'w fs \<Rightarrow> (unit, dtmpfs_error) result \<times> 'w fs" where
  "write_one T ino idx n data s =
     (case pool_get T n s of
        (Err e, s1) \<Rightarrow> (Err e, s1)
      | (Panic, s1) \<Rightarrow> (Panic, s1)
      | (Ok c, s1) \<Rightarrow> send_block T ino idx n c data s1)"

definition run_replica_task :: "'w transport \<Rightarrow> replica_task \<Rightarrow> 'w fs \<Rightarrow> 'w fs" where
  "run_replica_task T t s =
     (case rt_chan t of
        None \<Rightarrow> snd (write_one T (rt_ino t) (rt_idx t) (rt_node t) (rt_data t) s)
      | Some c \<Rightarrow> snd (send_block T (rt_ino t) (rt_idx t) (rt_node t) c (rt_data t) s))"

text \<open>The nodes a future writes to before it ends.\<close>

definition synced :: "wait_policy \<Rightarrow> block_placement \<Rightarrow> node_id list" where
  "synced wait p = (case wait of PrimariesOnly \<Rightarrow> [primary p] | AllReplicas \<Rightarrow> primary p # replicas p)"

text \<open>
  Where a future stands: it has found no placement; it is about to get a connection to the
  first of the nodes left; it waits for the reply of a node.
\<close>

datatype write_future =
    WMissing
  | WGet block_idx bytes "node_id list"
  | WSend block_idx bytes node_id chan "node_id list"

datatype future_next = Goes write_future | Ends "(unit, dtmpfs_error) result"

definition start_future ::
  "wait_policy \<Rightarrow> (block_idx, block_placement) btree \<Rightarrow> block_idx \<times> bytes \<Rightarrow> write_future" where
  "start_future wait bm blk =
     (case blk of (idx, buf) \<Rightarrow>
      case bt_get bm idx of None \<Rightarrow> WMissing | Some p \<Rightarrow> WGet idx buf (synced wait p))"

fun future_step :: "'w transport \<Rightarrow> inode_id \<Rightarrow> write_future \<Rightarrow> 'w fs \<Rightarrow> future_next \<times> 'w fs" where
  "future_step T ino WMissing s = (Ends (Err ENotFound), s)"
| "future_step T ino (WGet idx buf []) s = (Ends (Ok ()), s)"
| "future_step T ino (WGet idx buf (n # ns)) s =
     (case pool_get T n s of
        (Ok c, s1) \<Rightarrow> (Goes (WSend idx buf n c ns), s1)
      | (Err e, s1) \<Rightarrow> (Ends (Err e), s1)
      | (Panic, s1) \<Rightarrow> (Ends Panic, s1))"
| "future_step T ino (WSend idx buf n c ns) s =
     (case send_block T ino idx n c buf s of
        (Ok _, s1) \<Rightarrow> (Goes (WGet idx buf ns), s1)
      | (Err e, s1) \<Rightarrow> (Ends (Err e), s1)
      | (Panic, s1) \<Rightarrow> (Ends Panic, s1))"

text \<open>The tasks a future spawns when it ends well, and the request of a future that is dropped.\<close>

fun spawned ::
  "wait_policy \<Rightarrow> inode_id \<Rightarrow> (block_idx, block_placement) btree \<Rightarrow> write_future \<Rightarrow> replica_task list" where
  "spawned PrimariesOnly ino bm (WGet idx buf ns) =
     (case bt_get bm idx of
        None \<Rightarrow> []
      | Some p \<Rightarrow> map (\<lambda>n. \<lparr> rt_ino = ino, rt_idx = idx, rt_node = n, rt_data = buf, rt_chan = None \<rparr>) (replicas p))"
| "spawned wait ino bm f = []"

fun in_flight :: "inode_id \<Rightarrow> write_future \<Rightarrow> replica_task list" where
  "in_flight ino (WSend idx buf n c ns) =
     [\<lparr> rt_ino = ino, rt_idx = idx, rt_node = n, rt_data = buf, rt_chan = Some c \<rparr>]"
| "in_flight ino f = []"

section \<open>All blocks\<close>

record fanout =
  fo_waiting :: "(block_idx \<times> bytes) list"
  fo_running :: "write_future list"
  fo_tasks :: "replica_task list"

definition max_in_flight :: nat where
  "max_in_flight = 16"

definition fan_fill :: "wait_policy \<Rightarrow> (block_idx, block_placement) btree \<Rightarrow> fanout \<Rightarrow> fanout" where
  "fan_fill wait bm F =
     (let k = max_in_flight - length (fo_running F)
      in F\<lparr>fo_waiting := drop k (fo_waiting F),
           fo_running := fo_running F @ map (start_future wait bm) (take k (fo_waiting F))\<rparr>)"

definition remove_nth :: "nat \<Rightarrow> 'a list \<Rightarrow> 'a list" where
  "remove_nth i xs = take i xs @ drop (Suc i) xs"

text \<open>One future goes on; with the result of the whole fan-out when that is settled.\<close>

definition fan_advance ::
  "'w transport \<Rightarrow> wait_policy \<Rightarrow> inode_id \<Rightarrow> (block_idx, block_placement) btree \<Rightarrow> nat \<Rightarrow> fanout \<Rightarrow> 'w fs
     \<Rightarrow> fanout \<times> (unit, dtmpfs_error) result option \<times> 'w fs" where
  "fan_advance T wait ino bm i F s =
     (let f = fo_running F ! i; rest = remove_nth i (fo_running F) in
      case future_step T ino f s of
        (Goes f', s1) \<Rightarrow> (F\<lparr>fo_running := (fo_running F)[i := f']\<rparr>, None, s1)
      | (Ends (Ok _), s1) \<Rightarrow>
          (F\<lparr>fo_running := rest, fo_tasks := fo_tasks F @ spawned wait ino bm f\<rparr>, None, s1)
      | (Ends r, s1) \<Rightarrow>
          (F\<lparr>fo_waiting := [], fo_running := [], fo_tasks := fo_tasks F @ concat (map (in_flight ino) rest)\<rparr>, Some r, s1))"

text \<open>What is left to do, counted in steps.\<close>

fun future_left :: "write_future \<Rightarrow> nat" where
  "future_left WMissing = 1"
| "future_left (WGet idx buf ns) = 2 * length ns + 1"
| "future_left (WSend idx buf n c ns) = 2 * length ns + 2"

definition fan_left :: "wait_policy \<Rightarrow> (block_idx, block_placement) btree \<Rightarrow> fanout \<Rightarrow> nat" where
  "fan_left wait bm F = (\<Sum>blk\<leftarrow>fo_waiting F. future_left (start_future wait bm blk)) + (\<Sum>f\<leftarrow>fo_running F. future_left f)"

lemma future_left_pos [simp]: "0 < future_left f"
  by (cases f) simp_all

lemma future_step_less: "future_step T ino f s = (Goes f', s1) \<Longrightarrow> future_left f' < future_left f"
  by (cases "(T, ino, f, s)" rule: future_step.cases) (auto split: prod.splits result.splits)

lemma fan_fill_left [simp]: "fan_left wait bm (fan_fill wait bm F) = fan_left wait bm F"
proof -
  let ?g = "\<lambda>blk. future_left (start_future wait bm blk)" and ?k = "max_in_flight - length (fo_running F)"
  have "(\<Sum>blk\<leftarrow>fo_waiting F. ?g blk) = (\<Sum>blk\<leftarrow>take ?k (fo_waiting F) @ drop ?k (fo_waiting F). ?g blk)" by simp
  then show ?thesis
    unfolding map_append sum_list_append by (simp add: fan_left_def fan_fill_def Let_def comp_def)
qed

lemma split_nth: "i < length xs \<Longrightarrow> xs = take i xs @ xs ! i # drop (Suc i) xs"
  by (rule id_take_nth_drop)

lemma sum_list_split_nth:
  fixes g :: "'a \<Rightarrow> nat"
  assumes "i < length xs"
  shows "(\<Sum>x\<leftarrow>xs. g x) = g (xs ! i) + (\<Sum>x\<leftarrow>remove_nth i xs. g x)"
  by (subst split_nth [OF assms]) (simp add: remove_nth_def)

lemma remove_nth_update: "remove_nth i (xs[i := y]) = remove_nth i xs"
  by (simp add: remove_nth_def)

lemma set_remove_nth: "set (remove_nth i xs) \<subseteq> set xs"
  by (auto simp: remove_nth_def dest: in_set_takeD in_set_dropD)

lemma fan_advance_less:
  assumes "fan_advance T wait ino bm i F s = (F1, None, s1)" and "i < length (fo_running F)"
  shows "fan_left wait bm F1 < fan_left wait bm F"
proof -
  let ?f = "fo_running F ! i"
  obtain q t where q: "future_step T ino ?f s = (q, t)" by fastforce
  note all = sum_list_split_nth [OF assms(2), of future_left]
  show ?thesis
  proof (cases q)
    case (Goes f')
    have "(\<Sum>f\<leftarrow>(fo_running F)[i := f']. future_left f) = future_left f' + (\<Sum>f\<leftarrow>remove_nth i (fo_running F). future_left f)"
      using sum_list_split_nth [of i "(fo_running F)[i := f']" future_left] assms(2) by (simp add: remove_nth_update)
    then show ?thesis
      using assms(1) q Goes future_step_less all by (auto simp: fan_advance_def Let_def fan_left_def)
  next
    case (Ends r)
    then show ?thesis
      using assms(1) q all by (cases r) (auto simp: fan_advance_def Let_def fan_left_def)
  qed
qed

function fan_out ::
  "'w transport \<Rightarrow> wait_policy \<Rightarrow> inode_id \<Rightarrow> (block_idx, block_placement) btree \<Rightarrow> (fanout \<Rightarrow> nat) \<Rightarrow> fanout \<Rightarrow> 'w fs
     \<Rightarrow> (unit, dtmpfs_error) result \<times> replica_task list \<times> 'w fs" where
  "fan_out T wait ino bm pick F s =
     (let F1 = fan_fill wait bm F in
      if fo_running F1 = [] then (Ok (), fo_tasks F1, s)
      else (case fan_advance T wait ino bm (pick F1 mod length (fo_running F1)) F1 s of
              (F2, None, s1) \<Rightarrow> fan_out T wait ino bm pick F2 s1
            | (F2, Some r, s1) \<Rightarrow> (r, fo_tasks F2, s1)))"
  by pat_completeness auto
termination
proof (relation "measure (\<lambda>(T, wait, ino, bm, pick, F, s). fan_left wait bm F)", goal_cases)
  case (2 T wait ino bm pick F s F1 F2 y)
  then have "fan_left wait bm F2 < fan_left wait bm F1"
    using fan_advance_less [of T wait ino bm "pick F1 mod length (fo_running F1)" F1 s F2 "snd y"] by (cases y) simp
  then show ?case using 2(1) by simp
qed simp

declare fan_out.simps [simp del]

definition write_all ::
  "'w transport \<Rightarrow> wait_policy \<Rightarrow> inode_id \<Rightarrow> (block_idx, block_placement) btree \<Rightarrow> (fanout \<Rightarrow> nat) \<Rightarrow> (block_idx \<times> bytes) list \<Rightarrow> 'w fs
     \<Rightarrow> (unit, dtmpfs_error) result \<times> replica_task list \<times> 'w fs" where
  "write_all T wait ino bm pick blks s =
     fan_out T wait ino bm pick \<lparr> fo_waiting = blks, fo_running = [], fo_tasks = [] \<rparr> s"

section \<open>Reasoning about a fan-out\<close>

text \<open>
  What holds at the start and is kept by starting futures and by every step of one, holds
  at the end.  The steps come as the three ways a future can go on.
\<close>

lemma fan_fill_sel:
  "fo_tasks (fan_fill wait bm F) = fo_tasks F"
  "fo_waiting (fan_fill wait bm F) = drop (max_in_flight - length (fo_running F)) (fo_waiting F)"
  "fo_running (fan_fill wait bm F) = fo_running F
     @ map (start_future wait bm) (take (max_in_flight - length (fo_running F)) (fo_waiting F))"
  by (simp_all add: fan_fill_def Let_def)

lemma fan_out_rule [consumes 2, case_names fill goes ends fails finish]:
  assumes "fan_out T wait ino bm pick F s = (r, ts, s')" and "I F s"
    and fill: "\<And>F s. I F s \<Longrightarrow> I (fan_fill wait bm F) s"
    and goes: "\<And>F s i f s1. I F s \<Longrightarrow> i < length (fo_running F) \<Longrightarrow> future_step T ino (fo_running F ! i) s = (Goes f, s1)
      \<Longrightarrow> I (F\<lparr>fo_running := (fo_running F)[i := f]\<rparr>) s1"
    and ends: "\<And>F s i u s1. I F s \<Longrightarrow> i < length (fo_running F) \<Longrightarrow> future_step T ino (fo_running F ! i) s = (Ends (Ok u), s1)
      \<Longrightarrow> I (F\<lparr>fo_running := remove_nth i (fo_running F), fo_tasks := fo_tasks F @ spawned wait ino bm (fo_running F ! i)\<rparr>) s1"
    and fails: "\<And>F s i e s1. I F s \<Longrightarrow> i < length (fo_running F) \<Longrightarrow> future_step T ino (fo_running F ! i) s = (Ends e, s1)
      \<Longrightarrow> e \<noteq> Ok () \<Longrightarrow> Q e (fo_tasks F @ concat (map (in_flight ino) (remove_nth i (fo_running F)))) s1"
    and finish: "\<And>F s. I F s \<Longrightarrow> fo_waiting F = [] \<Longrightarrow> fo_running F = [] \<Longrightarrow> Q (Ok ()) (fo_tasks F) s"
  shows "Q r ts s'"
  using assms(1,2)
proof (induction "fan_left wait bm F" arbitrary: F s rule: less_induct)
  case less
  let ?F = "fan_fill wait bm F"
  have I: "I ?F s" using fill [OF less.prems(2)] .
  show ?case
  proof (cases "fo_running ?F = []")
    case True
    then have "fo_waiting ?F = []" by (auto simp: fan_fill_sel max_in_flight_def)
    then show ?thesis
      using less.prems(1) True finish [OF I] by (simp add: fan_out.simps [of T wait ino bm pick F] Let_def)
  next
    case False
    let ?i = "pick ?F mod length (fo_running ?F)" and ?f = "fo_running ?F ! (pick ?F mod length (fo_running ?F))"
    have i: "?i < length (fo_running ?F)" by (rule mod_less_divisor [OF length_greater_0_conv [THEN iffD2, OF False]])
    obtain q s1 where q: "future_step T ino ?f s = (q, s1)" by fastforce
    obtain F2 x s2 where adv: "fan_advance T wait ino bm ?i ?F s = (F2, x, s2)" by (metis prod_cases3)
    have out: "(case x of None \<Rightarrow> fan_out T wait ino bm pick F2 s2 | Some r \<Rightarrow> (r, fo_tasks F2, s2)) = (r, ts, s')"
      using less.prems(1) False adv by (simp add: fan_out.simps [of T wait ino bm pick F] Let_def split: option.splits)
    have rec: "Q r ts s'" if "x = None" "I F2 s2"
      using less.hyps [of F2 s2] fan_advance_less [of T wait ino bm ?i ?F s F2 s2, OF _ i] adv that out by simp
    show ?thesis
    proof (cases q)
      case (Goes f)
      then show ?thesis using rec goes [OF I i] q adv by (simp add: fan_advance_def Let_def)
    next
      case (Ends e)
      then show ?thesis
        using rec ends [OF I i] fails [OF I i] q adv out by (cases e) (auto simp: fan_advance_def Let_def)
    qed
  qed
qed

section \<open>One future after the other\<close>

text \<open>
  The same work without concurrency: the nodes of a block one after the other, the blocks
  one after the other.
\<close>

fun write_replicas ::
  "'w transport \<Rightarrow> inode_id \<Rightarrow> block_idx \<Rightarrow> node_id list \<Rightarrow> bytes \<Rightarrow> 'w fs \<Rightarrow> (unit, dtmpfs_error) result \<times> 'w fs" where
  "write_replicas T ino idx [] data s = (Ok (), s)"
| "write_replicas T ino idx (n # ns) data s =
     (case write_one T ino idx n data s of
        (Ok _, s1) \<Rightarrow> write_replicas T ino idx ns data s1
      | (Err e, s1) \<Rightarrow> (Err e, s1)
      | (Panic, s1) \<Rightarrow> (Panic, s1))"

fun write_seq ::
  "'w transport \<Rightarrow> wait_policy \<Rightarrow> inode_id \<Rightarrow> (block_idx, block_placement) btree \<Rightarrow> (block_idx \<times> bytes) list \<Rightarrow> 'w fs
     \<Rightarrow> (unit, dtmpfs_error) result \<times> replica_task list \<times> 'w fs" where
  "write_seq T wait ino bm [] s = (Ok (), [], s)"
| "write_seq T wait ino bm ((idx, buf) # blks) s =
     (case bt_get bm idx of
        None \<Rightarrow> (Err ENotFound, [], s)
      | Some p \<Rightarrow>
          (case write_replicas T ino idx (synced wait p) buf s of
             (Ok _, s1) \<Rightarrow>
               (case write_seq T wait ino bm blks s1 of
                  (r, ts, s2) \<Rightarrow> (r, spawned wait ino bm (WGet idx buf []) @ ts, s2))
           | (Err e, s1) \<Rightarrow> (Err e, [], s1)
           | (Panic, s1) \<Rightarrow> (Panic, [], s1)))"

text \<open>
  Always picking the first future runs it to its end before the next one does anything: a
  future that has not been picked has no request under way.
\<close>

lemma in_flight_start [simp]: "in_flight ino (start_future wait bm blk) = []"
  by (auto simp: start_future_def split: prod.split option.split)

definition untouched ::
  "wait_policy \<Rightarrow> (block_idx, block_placement) btree \<Rightarrow> write_future list \<Rightarrow> (block_idx \<times> bytes) list \<Rightarrow> replica_task list \<Rightarrow> fanout \<Rightarrow> bool" where
  "untouched wait bm fs blks ts F \<longleftrightarrow>
     (\<exists>pre. fo_running F = fs @ map (start_future wait bm) pre \<and> pre @ fo_waiting F = blks \<and> fo_tasks F = ts)"

lemma untouched_fill: "untouched wait bm fs blks ts F \<Longrightarrow> untouched wait bm fs blks ts (fan_fill wait bm F)"
  unfolding untouched_def
proof (elim exE conjE)
  fix pre
  let ?k = "max_in_flight - length (fo_running F)"
  assume "fo_running F = fs @ map (start_future wait bm) pre" "pre @ fo_waiting F = blks" "fo_tasks F = ts"
  then show "\<exists>pre. fo_running (fan_fill wait bm F) = fs @ map (start_future wait bm) pre
      \<and> pre @ fo_waiting (fan_fill wait bm F) = blks \<and> fo_tasks (fan_fill wait bm F) = ts"
    by (intro exI [of _ "pre @ take ?k (fo_waiting F)"]) (simp add: fan_fill_sel)
qed

lemma untouched_start:
  assumes "untouched wait bm [] (blk # blks) ts F"
  shows "untouched wait bm [start_future wait bm blk] blks ts (fan_fill wait bm F)"
proof -
  obtain pre where pre: "fo_running F = map (start_future wait bm) pre" "pre @ fo_waiting F = blk # blks" "fo_tasks F = ts"
    using assms by (auto simp: untouched_def)
  show ?thesis
  proof (cases pre)
    case Nil
    then have "fo_running F = []" "fo_waiting F = blk # blks" using pre by simp_all
    then show ?thesis
      using pre(3) unfolding untouched_def
      by (intro exI [of _ "take (max_in_flight - 1) blks"]) (simp add: fan_fill_sel max_in_flight_def)
  next
    case (Cons b pre')
    then have "untouched wait bm [start_future wait bm blk] blks ts F"
      using pre by (auto simp: untouched_def)
    then show ?thesis by (rule untouched_fill)
  qed
qed

lemma fan_out_first:
  assumes "untouched wait bm [f] blks ts (fan_fill wait bm F)"
  shows "\<exists>G H. (\<forall>f'. untouched wait bm [f'] blks ts (G f')) \<and> untouched wait bm [] blks (ts @ spawned wait ino bm f) H
    \<and> fan_out T wait ino bm (\<lambda>_. 0) F s =
      (case future_step T ino f s of
         (Goes f', s1) \<Rightarrow> fan_out T wait ino bm (\<lambda>_. 0) (G f') s1
       | (Ends (Ok _), s1) \<Rightarrow> fan_out T wait ino bm (\<lambda>_. 0) H s1
       | (Ends r, s1) \<Rightarrow> (r, ts, s1))"
proof -
  let ?F = "fan_fill wait bm F"
  obtain pre where pre: "fo_running ?F = f # map (start_future wait bm) pre" "pre @ fo_waiting ?F = blks" "fo_tasks ?F = ts"
    using assms by (auto simp: untouched_def)
  let ?G = "\<lambda>f'. ?F\<lparr>fo_running := f' # map (start_future wait bm) pre\<rparr>"
  let ?H = "?F\<lparr>fo_running := map (start_future wait bm) pre, fo_tasks := ts @ spawned wait ino bm f\<rparr>"
  have idle: "concat (map (in_flight ino) (map (start_future wait bm) pre)) = []" by (simp add: concat_eq_Nil_conv)
  have "fan_out T wait ino bm (\<lambda>_. 0) F s =
      (case future_step T ino f s of
         (Goes f', s1) \<Rightarrow> fan_out T wait ino bm (\<lambda>_. 0) (?G f') s1
       | (Ends (Ok _), s1) \<Rightarrow> fan_out T wait ino bm (\<lambda>_. 0) ?H s1
       | (Ends r, s1) \<Rightarrow> (r, ts, s1))"
    using pre idle
    by (simp add: fan_out.simps [of T wait ino bm "\<lambda>_. 0" F] Let_def fan_advance_def remove_nth_def del: map_map concat_map_singleton
        split: prod.split future_next.split result.split)
  moreover have "untouched wait bm [f'] blks ts (?G f')" for f'
    using pre(2,3) by (auto simp: untouched_def)
  moreover have "untouched wait bm [] blks (ts @ spawned wait ino bm f) ?H"
    using pre(2,3) by (auto simp: untouched_def)
  ultimately show ?thesis by (intro exI [of _ ?G] exI [of _ ?H]) blast
qed

lemma fan_out_block:
  assumes "untouched wait bm [WGet idx buf ns] blks ts (fan_fill wait bm F)"
  shows "\<exists>H. untouched wait bm [] blks (ts @ spawned wait ino bm (WGet idx buf [])) H
    \<and> fan_out T wait ino bm (\<lambda>_. 0) F s =
      (case write_replicas T ino idx ns buf s of
         (Ok _, s1) \<Rightarrow> fan_out T wait ino bm (\<lambda>_. 0) H s1
       | (Err e, s1) \<Rightarrow> (Err e, ts, s1)
       | (Panic, s1) \<Rightarrow> (Panic, ts, s1))"
  using assms
proof (induction ns arbitrary: F s)
  case Nil
  from fan_out_first [OF this, of ino T s] show ?case by auto
next
  case (Cons n ns)
  obtain G H where G: "\<And>f'. untouched wait bm [f'] blks ts (G f')"
    and H: "untouched wait bm [] blks (ts @ spawned wait ino bm (WGet idx buf (n # ns))) H"
    and get: "fan_out T wait ino bm (\<lambda>_. 0) F s =
      (case future_step T ino (WGet idx buf (n # ns)) s of
         (Goes f', s1) \<Rightarrow> fan_out T wait ino bm (\<lambda>_. 0) (G f') s1
       | (Ends (Ok _), s1) \<Rightarrow> fan_out T wait ino bm (\<lambda>_. 0) H s1
       | (Ends r, s1) \<Rightarrow> (r, ts, s1))"
    using fan_out_first [OF Cons.prems, of ino T s] by blast
  have same: "spawned wait ino bm (WGet idx buf (n # ns)) = spawned wait ino bm (WGet idx buf [])" by (cases wait) simp_all
  obtain p s1 where p: "pool_get T n s = (p, s1)" by fastforce
  show ?case
  proof (cases p)
    case (Ok c)
    let ?F = "G (WSend idx buf n c ns)"
    obtain G' H' where G': "\<And>f'. untouched wait bm [f'] blks ts (G' f')"
      and send: "fan_out T wait ino bm (\<lambda>_. 0) ?F s1 =
      (case future_step T ino (WSend idx buf n c ns) s1 of
         (Goes f', s1) \<Rightarrow> fan_out T wait ino bm (\<lambda>_. 0) (G' f') s1
       | (Ends (Ok _), s1) \<Rightarrow> fan_out T wait ino bm (\<lambda>_. 0) H' s1
       | (Ends r, s1) \<Rightarrow> (r, ts, s1))"
      using fan_out_first [OF untouched_fill [OF G [of "WSend idx buf n c ns"]], of ino T s1] by blast
    obtain q s2 where q: "send_block T ino idx n c buf s1 = (q, s2)" by fastforce
    show ?thesis
    proof (cases q)
      case (Ok u)
      with Cons.IH [OF untouched_fill [OF G' [of "WGet idx buf ns"]], of s2] show ?thesis
        using get send p \<open>p = Ok c\<close> q by (simp add: write_one_def)
    qed (use get send p \<open>p = Ok c\<close> q H same in \<open>auto simp: write_one_def\<close>)
  qed (use get p H same in \<open>auto simp: write_one_def\<close>)
qed

lemma fan_out_seq:
  assumes "untouched wait bm [] blks ts F"
  shows "fan_out T wait ino bm (\<lambda>_. 0) F s = (case write_seq T wait ino bm blks s of (r, ts', s') \<Rightarrow> (r, ts @ ts', s'))"
  using assms
proof (induction blks arbitrary: F s ts)
  case Nil
  then have "fo_running (fan_fill wait bm F) = []" "fo_tasks F = ts" by (auto simp: untouched_def fan_fill_sel)
  then show ?case by (simp add: fan_out.simps [of T wait ino bm _ F] Let_def fan_fill_sel(1))
next
  case (Cons blk blks)
  obtain idx buf where blk: "blk = (idx, buf)" by fastforce
  note start = untouched_start [OF Cons.prems]
  show ?case
  proof (cases "bt_get bm idx")
    case None
    then show ?thesis
      using fan_out_first [OF start, of ino T s] by (auto simp: blk start_future_def)
  next
    case (Some p)
    then have "start_future wait bm blk = WGet idx buf (synced wait p)" by (simp add: blk start_future_def)
    from fan_out_block [OF start [unfolded this], of ino T s] obtain H
      where H: "untouched wait bm [] blks (ts @ spawned wait ino bm (WGet idx buf [])) H"
        and run: "fan_out T wait ino bm (\<lambda>_. 0) F s =
      (case write_replicas T ino idx (synced wait p) buf s of
         (Ok _, s1) \<Rightarrow> fan_out T wait ino bm (\<lambda>_. 0) H s1
       | (Err e, s1) \<Rightarrow> (Err e, ts, s1)
       | (Panic, s1) \<Rightarrow> (Panic, ts, s1))" by blast
    show ?thesis
      unfolding run using Cons.IH [OF H] Some by (auto simp: blk split: prod.split result.split)
  qed
qed

lemma write_all_first: "write_all T wait ino bm (\<lambda>_. 0) blks s = write_seq T wait ino bm blks s"
proof -
  have "untouched wait bm [] blks [] \<lparr> fo_waiting = blks, fo_running = [], fo_tasks = [] \<rparr>" by (simp add: untouched_def)
  from fan_out_seq [OF this, of T ino s] show ?thesis by (simp add: write_all_def split: prod.split)
qed

end
