(* ===== verification/Client_Publish.thy ===== *)
theory Client_Publish
  imports Fanout Meta_State
begin

text \<open>
  \<^verbatim>\<open>flush.rs\<close>: \<^verbatim>\<open>publish\<close>, the path of \<^verbatim>\<open>flush\<close>, \<^verbatim>\<open>fsync\<close> and
  \<^verbatim>\<open>release\<close>.  It refreshes the addresses, allocates blocks, writes the dirty buffers
  to the stores by the concurrent futures of \<open>Fanout\<close>, and closes the file at the metadata
  server.  \<open>pick\<close> chooses the interleaving of the futures.  The tasks that outlive the
  publish are part of its value; \<open>run_replica_task\<close> runs one.
\<close>

definition put_open_file :: "u64 \<Rightarrow> open_file \<Rightarrow> 'w fs \<Rightarrow> 'w fs" where
  "put_open_file fh f s = s\<lparr>fs_open_files := (fs_open_files s)(fh \<mapsto> f)\<rparr>"

text \<open>Step 0, the addresses; step 1, blocks for the dirty indices that have no placement.\<close>

definition publish_addrs :: "'w transport \<Rightarrow> 'w fs \<Rightarrow> (unit, dtmpfs_error) result \<times> 'w fs" where
  "publish_addrs T s =
     (case authed_call T (t_list_nodes T) s of
        (Ok ns, s1) \<Rightarrow> (Ok (), refresh_addrs (addr_map_of ns) s1)
      | (Err st, s1) \<Rightarrow> (Err (from_status st None), s1)
      | (Panic, s1) \<Rightarrow> (Panic, s1))"

definition publish_allocate :: "'w transport \<Rightarrow> open_file \<Rightarrow> 'w fs \<Rightarrow> (open_file, dtmpfs_error) result \<times> 'w fs" where
  "publish_allocate T f s =
     (let new_idxs = map raw_idx (filter (\<lambda>i. \<not> bt_contains (of_block_map f) i) (map fst (of_dirty f))) in
      if new_idxs = [] then (Ok f, s)
      else (case authed_call T (\<lambda>md. t_allocate T md \<lparr> al_ino = raw (of_ino f), al_block_idxs = new_idxs \<rparr>) s of
        (Ok locs, s1) \<Rightarrow> (Ok (f\<lparr>of_block_map := fold insert_loc locs (of_block_map f)\<rparr>), s1)
      | (Err st, s1) \<Rightarrow> (Err (from_status st None), s1)
      | (Panic, s1) \<Rightarrow> (Panic, s1)))"

text \<open>Steps 3 and 4: close at the metadata server, take over the generation, prune the cache.\<close>

definition publish_close ::
  "'w transport \<Rightarrow> u64 \<Rightarrow> u64 list \<Rightarrow> open_file \<Rightarrow> 'w fs \<Rightarrow> (unit, dtmpfs_error) result \<times> 'w fs" where
  "publish_close T fh written_idxs f s =
     (let now = time_parts (t_now T (fs_world s));
          req = \<lparr> cl_fh = fh, cl_ino = raw (of_ino f), cl_expected_generation = raw_gen (of_generation f),
                  cl_new_size = of_size_hint f, cl_written_block_idxs = written_idxs,
                  cl_mtime_s = fst now, cl_mtime_ns = snd now \<rparr>
      in case authed_call T (\<lambda>md. t_close T md req) s of
           (Err st, s1) \<Rightarrow> (Err (from_status st None), s1)
         | (Panic, s1) \<Rightarrow> (Panic, s1)
         | (Ok a, s1) \<Rightarrow>
             let g = Generation (case a of None \<Rightarrow> raw_gen (of_generation f) | Some at \<Rightarrow> at_generation at);
                 s2 = put_open_file fh (f\<lparr>of_generation := g\<rparr>) s1;
                 s3 = s2\<lparr>fs_block_cache := t_invalidate T
                   (\<lambda>(i, g', b). i = of_ino f \<and> g' < g) (fs_block_cache s2)\<rparr>
             in (Ok (), s3))"

definition publish ::
  "'w transport \<Rightarrow> (fanout \<Rightarrow> nat) \<Rightarrow> u64 \<Rightarrow> wait_policy \<Rightarrow> 'w fs
     \<Rightarrow> (unit, dtmpfs_error) result \<times> replica_task list \<times> 'w fs" where
  "publish T pick fh wait s =
     (case fs_open_files s fh of
        None \<Rightarrow> (Err ENotFound, [], s)
      | Some f \<Rightarrow>
          if of_dirty f = [] then (Ok (), [], s)
          else
            (case publish_addrs T s of
               (Err e, s1) \<Rightarrow> (Err e, [], s1)
             | (Panic, s1) \<Rightarrow> (Panic, [], s1)
             | (Ok _, s1) \<Rightarrow>
                 (case publish_allocate T f s1 of
                    (Err e, s2) \<Rightarrow> (Err e, [], s2)
                  | (Panic, s2) \<Rightarrow> (Panic, [], s2)
                  | (Ok f1, s2) \<Rightarrow>
                      let dirty = of_dirty f1;
                          f2 = f1\<lparr>of_dirty := []\<rparr>;
                          s3 = put_open_file fh f2 s2
                      in case write_all T wait (of_ino f2) (of_block_map f2) pick dirty s3 of
                           (Err e, ts, s4) \<Rightarrow> (Err e, ts, s4)
                         | (Panic, ts, s4) \<Rightarrow> (Panic, ts, s4)
                         | (Ok _, ts, s4) \<Rightarrow>
                             (case publish_close T fh (map (raw_idx \<circ> fst) dirty) f2 s4 of
                                (r, s5) \<Rightarrow> (r, ts, s5)))))"

definition flush_path where
  "flush_path T pick fh s = publish T pick fh PrimariesOnly s"

definition fsync_path where
  "fsync_path T pick fh s = publish T pick fh AllReplicas s"

section \<open>The FUSE requests on top\<close>

definition errno_of :: "('a, dtmpfs_error) result \<Rightarrow> ('a, errno) result" where
  "errno_of r = (case r of Ok a \<Rightarrow> Ok a | Err e \<Rightarrow> Err (to_errno e) | Panic \<Rightarrow> Panic)"

definition fuse_flush where
  "fuse_flush T pick fh s = (case flush_path T pick fh s of (r, ts, s1) \<Rightarrow> (errno_of r, ts, s1))"

definition fuse_fsync where
  "fuse_fsync T pick fh s = (case fsync_path T pick fh s of (r, ts, s1) \<Rightarrow> (errno_of r, ts, s1))"

definition fuse_release ::
  "'w transport \<Rightarrow> (fanout \<Rightarrow> nat) \<Rightarrow> u64 \<Rightarrow> 'w fs
     \<Rightarrow> (unit, errno) result \<times> replica_task list \<times> 'w fs" where
  "fuse_release T pick fh s =
     (case flush_path T pick fh s of
        (Ok _, ts, s1) \<Rightarrow> (Ok (), ts, s1\<lparr>fs_open_files := (fs_open_files s1)(fh := None)\<rparr>)
      | (Err e, ts, s1) \<Rightarrow> (Err (to_errno e), ts, s1)
      | (Panic, ts, s1) \<Rightarrow> (Panic, ts, s1))"

definition fuse_read ::
  "'w transport \<Rightarrow> u64 \<Rightarrow> i64 \<Rightarrow> u32 \<Rightarrow> 'w fs \<Rightarrow> ((bytes, errno) result \<times> 'w fs) option" where
  "fuse_read T fh offset sz s =
     (case fs_open_files s fh of
        None \<Rightarrow> Some (Err (to_errno ENotFound), s)
      | Some f \<Rightarrow>
          (case read_file T offset sz f s of None \<Rightarrow> None | Some (r, s1) \<Rightarrow> Some (errno_of r, s1)))"

definition fuse_write ::
  "'w transport \<Rightarrow> u64 \<Rightarrow> i64 \<Rightarrow> bytes \<Rightarrow> 'w fs \<Rightarrow> ((u32, errno) result \<times> 'w fs) option" where
  "fuse_write T fh offset data s =
     (case fs_open_files s fh of
        None \<Rightarrow> Some (Err (to_errno ENotFound), s)
      | Some f \<Rightarrow>
          (case apply_write T offset data f s of
             None \<Rightarrow> None
           | Some (r, f1, s1) \<Rightarrow> Some (errno_of r, put_open_file fh f1 s1)))"

end
