(* ===== verification/Client_Data.thy ===== *)
theory Client_Data
  imports Client_IO
begin

text \<open>
  The bytes of an open file.  \<open>file_view\<close> reads the content of an open file off its
  dirty buffers and the blocks a fetch would return; the interface
  \<open>block_source\<close> says what a fetch has to promise; under it the write loop replaces
  exactly the bytes it was given, and the read loop returns exactly a slice.
\<close>

definition byte_of :: "bytes \<Rightarrow> nat \<Rightarrow> u8" where
  "byte_of b i = (if i < length b then b ! i else 0)"

definition block_view :: "(block_idx \<Rightarrow> bytes) \<Rightarrow> open_file \<Rightarrow> block_idx \<Rightarrow> bytes" where
  "block_view base f idx = (case bt_get (of_dirty f) idx of
       Some b \<Rightarrow> b
     | None \<Rightarrow> if bt_contains (of_block_map f) idx then base idx else [])"

definition file_view :: "nat \<Rightarrow> (block_idx \<Rightarrow> bytes) \<Rightarrow> open_file \<Rightarrow> nat \<Rightarrow> u8" where
  "file_view bs base f pos = byte_of (block_view base f (BlockIdx (of_nat (pos div bs)))) (pos mod bs)"

definition dirty_ok :: "u64 \<Rightarrow> open_file \<Rightarrow> bool" where
  "dirty_ok bs f \<longleftrightarrow> (\<forall>idx b. bt_get (of_dirty f) idx = Some b \<longrightarrow> unat bs \<le> length b)"

text \<open>What one FUSE request may change of an open file without reopening it.\<close>

definition same_file :: "open_file \<Rightarrow> open_file \<Rightarrow> bool" where
  "same_file f g \<longleftrightarrow> of_ino g = of_ino f \<and> of_generation g = of_generation f \<and> of_block_map g = of_block_map f"

lemma same_file_refl [simp]: "same_file f f"
  by (simp add: same_file_def)

lemma same_file_trans: "same_file f g \<Longrightarrow> same_file g h \<Longrightarrow> same_file f h"
  by (simp add: same_file_def)

lemma same_file_dirty [simp]: "same_file f (f\<lparr>of_dirty := d\<rparr>)" "same_file f (f\<lparr>of_size_hint := n\<rparr>)"
  by (simp_all add: same_file_def)

section \<open>Bytes of buffers\<close>

lemma byte_of_splice:
  "i + length d \<le> length b \<Longrightarrow>
   byte_of (splice i d b) j = (if i \<le> j \<and> j < i + length d then d ! (j - i) else byte_of b j)"
  by (auto simp: byte_of_def splice_def nth_append)

lemma length_splice [simp]: "i + length d \<le> length b \<Longrightarrow> length (splice i d b) = length b"
  by (simp add: splice_def)

lemma byte_of_pad [simp]: "byte_of (pad_block bs b) j = byte_of b j"
  by (auto simp: byte_of_def pad_block_def nth_append)

lemma length_pad: "unat bs \<le> length (pad_block bs b)"
  by (simp add: pad_block_def)

lemma byte_of_zeros [simp]: "byte_of (replicate n 0) j = 0" "byte_of [] j = 0"
  by (simp_all add: byte_of_def)

lemma read_chunk_bytes: "read_chunk i n b = map (\<lambda>j. byte_of b (i + j)) [0..<n]"
proof (rule nth_equalityI)
  show "length (read_chunk i n b) = length (map (\<lambda>j. byte_of b (i + j)) [0..<n])"
    by (simp add: read_chunk_def Let_def min_def)
next
  fix k assume "k < length (read_chunk i n b)"
  then have "k < n" by (simp add: read_chunk_def Let_def min_def split: if_splits)
  then show "read_chunk i n b ! k = map (\<lambda>j. byte_of b (i + j)) [0..<n] ! k"
    by (auto simp: read_chunk_def Let_def byte_of_def nth_append min_def)
qed

section \<open>Positions in blocks\<close>

text \<open>
  One round of either loop, in natural numbers: as long as the last block touched ends
  below \<open>2 ^ 64\<close>, nothing wraps.
\<close>

lemma chunk_arith:
  fixes bs cur end' :: u64
  assumes bs: "0 < unat bs" and lt: "unat cur < unat end'" and room: "unat end' + unat bs < 2 ^ 64"
    and n: "n = min ((unat cur div unat bs + 1) * unat bs) (unat end') - unat cur"
  shows "unat (cur - cur div bs * bs) = unat cur mod unat bs"
    and "unat (min (cur div bs * bs + bs) end' - cur) = n"
    and "0 < n" and "n \<le> unat bs - unat cur mod unat bs" and "n \<le> unat end' - unat cur"
    and "unat (cur + (min (cur div bs * bs + bs) end' - cur)) = unat cur + n"
proof -
  let ?c = "unat cur" and ?b = "unat bs" and ?e = "unat end'"
  have off: "unat (cur div bs * bs) = ?c div ?b * ?b"
  proof -
    have "?c div ?b * ?b < 2 ^ 64"
      using unat_u64_less [of cur] div_times_less_eq_dividend [of ?c ?b] by (rule le_less_trans [rotated])
    then show ?thesis by (simp add: unat_word_ariths(2) unat_div)
  qed
  have le: "?c div ?b * ?b \<le> ?c" by simp
  show in_block: "unat (cur - cur div bs * bs) = ?c mod ?b"
    by (simp add: minus_div_mult_eq_mod unat_mod)
  have top: "unat (cur div bs * bs + bs) = (?c div ?b + 1) * ?b"
  proof -
    have "?c div ?b * ?b + ?b < 2 ^ 64" using le lt room by linarith
    then show ?thesis by (simp add: unat_word_ariths(1) off)
  qed
  have mn: "unat (min (cur div bs * bs + bs) end') = min ((?c div ?b + 1) * ?b) ?e"
    by (simp add: min_def word_le_nat_alt top)
  have next_block: "?c < (?c div ?b + 1) * ?b"
    using bs by (metis Suc_eq_plus1 dividend_less_div_times mult.commute mult_Suc add.commute)
  have cm: "?c < min ((?c div ?b + 1) * ?b) ?e" using next_block lt by simp
  show len: "unat (min (cur div bs * bs + bs) end' - cur) = n"
    using cm by (simp add: unat_sub word_le_nat_alt mn n)
  show "0 < n" using cm n by simp
  have "(?c div ?b + 1) * ?b = ?c - ?c mod ?b + ?b" by (simp add: minus_mod_eq_div_mult)
  then show "n \<le> ?b - ?c mod ?b"
    using n mod_less_divisor [OF bs, of ?c] mod_less_eq_dividend [of ?c ?b] by linarith
  show le_end: "n \<le> ?e - ?c" using n by simp
  show "unat (cur + (min (cur div bs * bs + bs) end' - cur)) = ?c + n"
    using cm n by (simp add: mn)
qed

lemma block_of_pos: "BlockIdx (of_nat (unat (cur :: u64) div unat bs)) = BlockIdx (cur div bs)"
  by (simp add: unat_div [symmetric])

lemma same_block:
  assumes "(0::nat) < b" and "n \<le> b - c mod b" and "c \<le> p" and "p < c + n"
  shows "p div b = c div b \<and> p mod b = c mod b + (p - c)"
proof -
  have less: "c mod b + (p - c) < b"
    using assms mod_less_divisor [OF assms(1), of c] by linarith
  have "p = c div b * b + (c mod b + (p - c))"
    using assms(3) by (simp add: div_mod_decomp [symmetric])
  then show ?thesis
    using less by (metis div_mult_self3 mod_mult_self3 div_less mod_less add.right_neutral assms(1) less_numeral_extra(3))
qed

text \<open>
  The part of one block from a position on, and what the content becomes when that part
  is overwritten.
\<close>

lemma chunk_view:
  fixes bs cur :: u64
  assumes "0 < unat bs" and "n \<le> unat bs - unat cur mod unat bs"
  shows "map (\<lambda>j. byte_of (block_view base f (BlockIdx (cur div bs))) (unat cur mod unat bs + j)) [0..<n]
    = map (file_view (unat bs) base f) [unat cur..<unat cur + n]"
proof (rule nth_equalityI)
  fix k assume "k < length (map (\<lambda>j. byte_of (block_view base f (BlockIdx (cur div bs))) (unat cur mod unat bs + j)) [0..<n])"
  then have "k < n" by simp
  then have "(unat cur + k) div unat bs = unat cur div unat bs" "(unat cur + k) mod unat bs = unat cur mod unat bs + k"
    using same_block [OF assms, of "unat cur + k"] by simp_all
  with \<open>k < n\<close> show "map (\<lambda>j. byte_of (block_view base f (BlockIdx (cur div bs))) (unat cur mod unat bs + j)) [0..<n] ! k
      = map (file_view (unat bs) base f) [unat cur..<unat cur + n] ! k"
    by (simp add: file_view_def block_of_pos)
qed simp

lemma file_view_splice:
  fixes bs cur :: u64
  assumes bs: "0 < unat bs" and n: "n \<le> unat bs - unat cur mod unat bs" "length d = n"
    and fits: "unat cur mod unat bs + n \<le> length buf"
    and view: "\<And>k. block_view base g k =
      (if k = BlockIdx (cur div bs) then splice (unat cur mod unat bs) d buf else block_view base f k)"
    and old: "n = unat bs \<and> unat cur mod unat bs = 0
      \<or> (\<forall>j. byte_of buf j = byte_of (block_view base f (BlockIdx (cur div bs))) j)"
    and p: "p < 2 ^ 64"
  shows "file_view (unat bs) base g p =
    (if unat cur \<le> p \<and> p < unat cur + n then d ! (p - unat cur) else file_view (unat bs) base f p)"
proof (cases "unat cur \<le> p \<and> p < unat cur + n")
  case True
  then obtain k where k: "p = unat cur + k" "k < n" by (metis le_Suc_ex nat_add_left_cancel_less)
  then have "p div unat bs = unat cur div unat bs" "p mod unat bs = unat cur mod unat bs + k"
    using same_block [OF bs n(1), of p] by simp_all
  then show ?thesis
    using k n(2) fits by (simp add: file_view_def block_of_pos view byte_of_splice)
next
  case out: False
  show ?thesis
  proof (cases "BlockIdx (of_nat (p div unat bs)) = BlockIdx (cur div bs)")
    case True
    have pb: "p div unat bs < 2 ^ 64" using p div_le_dividend [of p "unat bs"] by linarith
    have "unat (of_nat (p div unat bs) :: u64) = unat (cur div bs)" using True by simp
    then have "p div unat bs = unat cur div unat bs" by (simp only: unat_of_nat_u64 [OF pb] unat_div)
    then have "p = unat cur div unat bs * unat bs + p mod unat bs"
      "unat cur = unat cur div unat bs * unat bs + unat cur mod unat bs" by (metis div_mult_mod_eq)+
    with out have miss: "\<not> (unat cur mod unat bs \<le> p mod unat bs \<and> p mod unat bs < unat cur mod unat bs + n)" by linarith
    with mod_less_divisor [OF bs, of p] have "\<not> (n = unat bs \<and> unat cur mod unat bs = 0)" by linarith
    then show ?thesis
      using old out True miss n(2) fits by (auto simp: file_view_def view byte_of_splice)
  next
    case False
    with out show ?thesis by (auto simp: file_view_def view)
  qed
qed

lemma unat_written:
  fixes written :: u32 and chunk :: u64
  assumes "unat chunk = n" and "unat written + n < 2 ^ 32"
  shows "unat (written + ucast chunk) = unat written + n"
proof -
  have "unat (ucast chunk :: u32) = n" using assms by (simp add: unsigned_ucast_eq take_bit_nat_eq_self)
  then show ?thesis using assms(2) by (simp add: unat_word_ariths(1))
qed

section \<open>The loops end\<close>

text \<open>
  Whatever a fetch returns, one unit of fuel per byte is enough for either loop: every
  round ends the loop or moves on by at least one byte.
\<close>

lemma read_loop_returns:
  fixes bs cur end' :: u64
  assumes "unat end' + unat bs < 2 ^ 64" and "unat end' - unat cur < fuel"
  shows "read_loop fuel fetch bs end' cur buf f s \<noteq> None"
  using assms(2)
proof (induction fuel arbitrary: cur buf s)
  case (Suc fuel)
  show ?case
  proof (cases "cur < end' \<and> bs \<noteq> 0")
    case False
    then show ?thesis by auto
  next
    case True
    let ?n = "min (cur div bs * bs + bs) end' - cur"
    have "0 < unat bs" "unat cur < unat end'" using True by (simp_all add: word_less_nat_alt unat_gt_0)
    from chunk_arith [OF this assms(1) refl] have "unat cur < unat (cur + ?n)" by simp
    then have "unat end' - unat (cur + ?n) < fuel" using Suc.prems \<open>unat cur < unat end'\<close> by linarith
    then have rest: "read_loop fuel fetch bs end' (cur + ?n) b f t \<noteq> None" for b t by (rule Suc.IH)
    show ?thesis
      using True rest by (simp add: Let_def split: prod.split result.split)
  qed
qed simp

lemma write_loop_returns:
  fixes bs cur end' :: u64
  assumes "unat end' + unat bs < 2 ^ 64" and "unat end' - unat cur < fuel"
  shows "write_loop fuel fetch bs end' data cur written f s \<noteq> None"
  using assms(2)
proof (induction fuel arbitrary: cur written f s)
  case (Suc fuel)
  show ?case
  proof (cases "cur < end' \<and> bs \<noteq> 0")
    case False
    then show ?thesis by auto
  next
    case True
    let ?n = "min (cur div bs * bs + bs) end' - cur"
    have "0 < unat bs" "unat cur < unat end'" using True by (simp_all add: word_less_nat_alt unat_gt_0)
    from chunk_arith [OF this assms(1) refl] have "unat cur < unat (cur + ?n)" by simp
    then have "unat end' - unat (cur + ?n) < fuel" using Suc.prems \<open>unat cur < unat end'\<close> by linarith
    then have rest: "write_loop fuel fetch bs end' data (cur + ?n) x g t \<noteq> None" for x g t by (rule Suc.IH)
    show ?thesis
      using True rest by (simp add: Let_def split: prod.split result.split option.split)
  qed
qed simp

section \<open>What a fetch promises\<close>

text \<open>
  \<open>ok f s\<close> says that the blocks of the open file \<open>f\<close> can be fetched in the state
  \<open>s\<close>, \<open>base\<close> is their content.  A dirty buffer is returned as it is; a placed block
  that is not dirty is fetched with its content and fetching keeps \<open>ok\<close>; neither depends
  on the dirty buffers or the size.
\<close>

locale block_source =
  fixes fetch :: "'s fetcher" and ok :: "open_file \<Rightarrow> 's \<Rightarrow> bool" and base :: "block_idx \<Rightarrow> bytes"
  assumes fetch_dirty: "bt_get (of_dirty f) idx = Some b \<Longrightarrow> fetch f idx s = (Ok b, s)"
    and fetch_clean: "ok f s \<Longrightarrow> bt_get (of_dirty f) idx = None \<Longrightarrow> bt_contains (of_block_map f) idx
      \<Longrightarrow> \<exists>s'. fetch f idx s = (Ok (base idx), s') \<and> ok f s'"
    and ok_same_file: "same_file f g \<Longrightarrow> ok f s \<Longrightarrow> ok g s"
begin

lemma fetch_any:
  assumes "ok f s" and "bt_contains (of_block_map f) idx \<or> bt_contains (of_dirty f) idx"
  shows "\<exists>s'. fetch f idx s = (Ok (block_view base f idx), s') \<and> ok f s'"
proof (cases "bt_get (of_dirty f) idx")
  case None
  then show ?thesis
    using assms fetch_clean [OF assms(1)] by (auto simp: block_view_def bt_contains_def)
next
  case (Some b)
  then show ?thesis using assms(1) fetch_dirty by (simp add: block_view_def)
qed

lemma load_block_spec:
  assumes ok: "ok f s" and dirty: "dirty_ok bs f"
  shows "\<exists>d s' buf. load_block fetch bs idx whole f s = (Ok (), f\<lparr>of_dirty := d\<rparr>, s') \<and> ok f s'
    \<and> bt_get d = (bt_get (of_dirty f))(idx \<mapsto> buf) \<and> unat bs \<le> length buf
    \<and> (whole \<or> (\<forall>j. byte_of buf j = byte_of (block_view base f idx) j))"
proof (cases "bt_get (of_dirty f) idx")
  case (Some b)
  then have "load_block fetch bs idx whole f s = (Ok (), f\<lparr>of_dirty := of_dirty f\<rparr>, s)"
    "bt_get (of_dirty f) = (bt_get (of_dirty f))(idx \<mapsto> b)"
    by (simp_all add: load_block_def bt_contains_def fun_upd_idem)
  moreover have "unat bs \<le> length b" using dirty Some by (simp add: dirty_ok_def)
  ultimately show ?thesis
    using Some ok by (intro exI [of _ "of_dirty f"] exI [of _ s] exI [of _ b]) (simp add: block_view_def)
next
  case None
  show ?thesis
  proof (cases "whole \<or> \<not> bt_contains (of_block_map f) idx")
    case True
    then have "load_block fetch bs idx whole f s
        = (Ok (), f\<lparr>of_dirty := bt_insert idx (replicate (unat bs) 0) (of_dirty f)\<rparr>, s)"
      using None by (auto simp: load_block_def bt_contains_def)
    moreover have "byte_of (replicate (unat bs) 0) j = byte_of (block_view base f idx) j" if "\<not> whole" for j
      using True that None by (simp add: block_view_def)
    ultimately show ?thesis
      using ok by (intro exI [of _ "bt_insert idx (replicate (unat bs) 0) (of_dirty f)"] exI [of _ s]
          exI [of _ "replicate (unat bs) 0"]) auto
  next
    case False
    then obtain s' where s': "fetch f idx s = (Ok (base idx), s')" "ok f s'"
      using fetch_clean [OF ok None] by blast
    then have "load_block fetch bs idx whole f s
        = (Ok (), f\<lparr>of_dirty := bt_insert idx (pad_block bs (base idx)) (of_dirty f)\<rparr>, s')"
      using None False by (simp add: load_block_def bt_contains_def)
    moreover have "byte_of (pad_block bs (base idx)) j = byte_of (block_view base f idx) j" for j
      using None False by (simp add: block_view_def)
    ultimately show ?thesis
      using s' length_pad by (intro exI [of _ "bt_insert idx (pad_block bs (base idx)) (of_dirty f)"] exI [of _ s']
          exI [of _ "pad_block bs (base idx)"]) auto
  qed
qed

lemma write_round:
  fixes bs cur end' :: u64
  assumes ok: "ok f s" and dirty: "dirty_ok bs f"
    and bs: "0 < unat bs" and lt: "unat cur < unat end'" and room: "unat end' + unat bs < 2 ^ 64"
    and data: "length data = w + (unat end' - unat cur)"
    and n: "n = min ((unat cur div unat bs + 1) * unat bs) (unat end') - unat cur"
  shows "\<exists>d1 s' d2. load_block fetch bs (BlockIdx (cur div bs))
        (cur - cur div bs * bs = 0 \<and> min (cur div bs * bs + bs) end' - cur = bs) f s = (Ok (), f\<lparr>of_dirty := d1\<rparr>, s')
      \<and> copy_chunk (BlockIdx (cur div bs)) (unat (cur - cur div bs * bs)) (unat (min (cur div bs * bs + bs) end' - cur)) w
          data (f\<lparr>of_dirty := d1\<rparr>) = Some (f\<lparr>of_dirty := d2\<rparr>)
      \<and> ok (f\<lparr>of_dirty := d2\<rparr>) s' \<and> dirty_ok bs (f\<lparr>of_dirty := d2\<rparr>)
      \<and> (\<forall>p < 2 ^ 64. file_view (unat bs) base (f\<lparr>of_dirty := d2\<rparr>) p =
           (if unat cur \<le> p \<and> p < unat cur + n then data ! (w + (p - unat cur)) else file_view (unat bs) base f p))"
proof -
  let ?c = "unat cur" and ?b = "unat bs"
  let ?idx = "BlockIdx (cur div bs)" and ?i = "?c mod ?b"
  let ?whole = "cur - cur div bs * bs = 0 \<and> min (cur div bs * bs + bs) end' - cur = bs"
  note ar = chunk_arith [OF bs lt room n]
  obtain d1 s' buf where load: "load_block fetch bs ?idx ?whole f s = (Ok (), f\<lparr>of_dirty := d1\<rparr>, s')" "ok f s'"
    and d1: "bt_get d1 = (bt_get (of_dirty f))(?idx \<mapsto> buf)" and len: "?b \<le> length buf"
    and old: "?whole \<or> (\<forall>j. byte_of buf j = byte_of (block_view base f ?idx) j)"
    using load_block_spec [OF ok dirty, of ?idx ?whole] by blast
  let ?d = "take n (drop w data)"
  have ld: "length ?d = n" using data ar(5) by simp
  have fits: "?i + n \<le> length buf" using ar(4) len mod_less_divisor [OF bs, of ?c] by linarith
  let ?f2 = "f\<lparr>of_dirty := bt_insert ?idx (splice ?i ?d buf) d1\<rparr>"
  have copy: "copy_chunk ?idx (unat (cur - cur div bs * bs)) (unat (min (cur div bs * bs + bs) end' - cur)) w
      data (f\<lparr>of_dirty := d1\<rparr>) = Some ?f2"
    using fits ar(5) data by (simp add: copy_chunk_def ar(1,2) d1)
  have view: "block_view base ?f2 k = (if k = ?idx then splice ?i ?d buf else block_view base f k)" for k
    by (simp add: block_view_def d1)
  have "n = ?b \<and> ?i = 0 \<or> (\<forall>j. byte_of buf j = byte_of (block_view base f ?idx) j)"
    using old ar(1,2) by (metis unat_0)
  from file_view_splice [OF bs ar(4) ld fits view this]
  have "file_view ?b base ?f2 p = (if ?c \<le> p \<and> p < ?c + n then data ! (w + (p - ?c)) else file_view ?b base f p)"
    if "p < 2 ^ 64" for p
    using that ld data by auto
  moreover have "dirty_ok bs ?f2"
    using dirty len fits ld by (auto simp: dirty_ok_def d1)
  ultimately show ?thesis
    using load copy ok_same_file [OF same_file_dirty(1) load(2)] by blast
qed

lemma write_loop_view:
  fixes bs cur end' :: u64 and written :: u32
  assumes "ok f s" and "dirty_ok bs f" and "0 < unat bs" and "unat end' + unat bs < 2 ^ 64"
    and "unat cur \<le> unat end'" and "length data = unat written + (unat end' - unat cur)" and "length data < 2 ^ 32"
    and "unat end' - unat cur < fuel"
  shows "\<exists>d s'. write_loop fuel fetch bs end' data cur written f s = Some (Ok (of_nat (length data)), f\<lparr>of_dirty := d\<rparr>, s')
    \<and> ok (f\<lparr>of_dirty := d\<rparr>) s' \<and> dirty_ok bs (f\<lparr>of_dirty := d\<rparr>)
    \<and> (\<forall>p < 2 ^ 64. file_view (unat bs) base (f\<lparr>of_dirty := d\<rparr>) p =
         (if unat cur \<le> p \<and> p < unat end' then data ! (unat written + (p - unat cur)) else file_view (unat bs) base f p))"
  using assms
proof (induction fuel arbitrary: cur written f s)
  case 0
  then show ?case by simp
next
  case (Suc fuel)
  note room = Suc.prems(4) and data = Suc.prems(6)
  show ?case
  proof (cases "unat cur < unat end'")
    case False
    then have "\<not> cur < end'" "length data = unat written" "unat cur = unat end'"
      using Suc.prems(5,6) by (simp_all add: word_less_nat_alt)
    then show ?thesis
      using Suc.prems(1,2) by (intro exI [of _ "of_dirty f"] exI [of _ s]) auto
  next
    case True
    define n where "n = min ((unat cur div unat bs + 1) * unat bs) (unat end') - unat cur"
    let ?chunk = "min (cur div bs * bs + bs) end' - cur"
    note ar = chunk_arith [OF Suc.prems(3) True room n_def]
    obtain d1 s' d2 where load: "load_block fetch bs (BlockIdx (cur div bs))
        (cur - cur div bs * bs = 0 \<and> ?chunk = bs) f s = (Ok (), f\<lparr>of_dirty := d1\<rparr>, s')"
      and copy: "copy_chunk (BlockIdx (cur div bs)) (unat (cur - cur div bs * bs)) (unat ?chunk) (unat written)
          data (f\<lparr>of_dirty := d1\<rparr>) = Some (f\<lparr>of_dirty := d2\<rparr>)"
      and ok: "ok (f\<lparr>of_dirty := d2\<rparr>) s'" "dirty_ok bs (f\<lparr>of_dirty := d2\<rparr>)"
      and view: "\<forall>p < 2 ^ 64. file_view (unat bs) base (f\<lparr>of_dirty := d2\<rparr>) p =
           (if unat cur \<le> p \<and> p < unat cur + n then data ! (unat written + (p - unat cur)) else file_view (unat bs) base f p)"
      using write_round [OF Suc.prems(1-3) True room data n_def] by blast
    have wr: "unat (written + ucast ?chunk) = unat written + n"
      using ar(5) data Suc.prems(7) by (intro unat_written ar(2)) linarith
    have cur': "unat (cur + ?chunk) = unat cur + n" by (rule ar(6))
    have "unat (cur + ?chunk) \<le> unat end'" "length data = unat (written + ucast ?chunk) + (unat end' - unat (cur + ?chunk))"
      "unat end' - unat (cur + ?chunk) < fuel"
      using ar(3,5) True data Suc.prems(8) unfolding cur' wr by linarith+
    from Suc.IH [OF ok Suc.prems(3) room this(1,2) Suc.prems(7) this(3)]
    obtain d s'' where loop: "write_loop fuel fetch bs end' data (cur + ?chunk) (written + ucast ?chunk) (f\<lparr>of_dirty := d2\<rparr>) s'
          = Some (Ok (of_nat (length data)), f\<lparr>of_dirty := d\<rparr>, s'')"
      and fin: "ok (f\<lparr>of_dirty := d\<rparr>) s''" "dirty_ok bs (f\<lparr>of_dirty := d\<rparr>)"
      and rest: "\<forall>p < 2 ^ 64. file_view (unat bs) base (f\<lparr>of_dirty := d\<rparr>) p =
         (if unat cur + n \<le> p \<and> p < unat end' then data ! (unat written + n + (p - (unat cur + n)))
          else file_view (unat bs) base (f\<lparr>of_dirty := d2\<rparr>) p)"
      unfolding cur' wr by auto
    have "write_loop (Suc fuel) fetch bs end' data cur written f s = Some (Ok (of_nat (length data)), f\<lparr>of_dirty := d\<rparr>, s'')"
    proof -
      have "cur < end'" "bs \<noteq> 0" using True Suc.prems(3) by (auto simp: word_less_nat_alt)
      then show ?thesis
        unfolding write_loop.simps Let_def raw_idx.simps load by (simp only: copy loop if_False if_True simp_thms result.case option.case prod.case)
    qed
    moreover have "file_view (unat bs) base (f\<lparr>of_dirty := d\<rparr>) p =
         (if unat cur \<le> p \<and> p < unat end' then data ! (unat written + (p - unat cur)) else file_view (unat bs) base f p)"
      if "p < 2 ^ 64" for p
      using view rest that ar(5) True by (auto simp: not_le)
    ultimately show ?thesis using fin by blast
  qed
qed

lemma apply_write_view:
  fixes bs offset :: u64
  assumes ok: "ok f s" and dirty: "dirty_ok bs f" and bs: "0 < unat bs"
    and room: "unat offset + length data + unat bs < 2 ^ 64" and len: "length data < 2 ^ 32"
  shows "\<exists>d f' s'. apply_write_with (Suc (length data)) fetch bs offset data f s = Some (Ok (of_nat (length data)), f', s')
    \<and> f' = f\<lparr>of_dirty := d, of_size_hint := max (of_size_hint f) (offset + of_nat (length data))\<rparr>
    \<and> ok f' s' \<and> dirty_ok bs f'
    \<and> (\<forall>p < 2 ^ 64. file_view (unat bs) base f' p =
         (if unat offset \<le> p \<and> p < unat offset + length data then data ! (p - unat offset) else file_view (unat bs) base f p))"
proof -
  let ?stop = "offset + of_nat (length data)"
  have e: "unat ?stop = unat offset + length data"
    using room by (simp add: unat_word_ariths(1) unat_of_nat_u64)
  have "unat ?stop + unat bs < 2 ^ 64" "unat offset \<le> unat ?stop"
    "length data = unat (0 :: u32) + (unat ?stop - unat offset)" "unat ?stop - unat offset < Suc (length data)"
    using room by (simp_all add: e)
  from write_loop_view [OF ok dirty bs this(1-3) len this(4)]
  obtain d s' where loop: "write_loop (Suc (length data)) fetch bs ?stop data offset 0 f s
        = Some (Ok (of_nat (length data)), f\<lparr>of_dirty := d\<rparr>, s')"
    and ok': "ok (f\<lparr>of_dirty := d\<rparr>) s'" "dirty_ok bs (f\<lparr>of_dirty := d\<rparr>)"
    and view: "\<forall>p < 2 ^ 64. file_view (unat bs) base (f\<lparr>of_dirty := d\<rparr>) p =
         (if unat offset \<le> p \<and> p < unat ?stop then data ! (unat (0 :: u32) + (p - unat offset)) else file_view (unat bs) base f p)"
    by blast
  let ?f' = "f\<lparr>of_dirty := d, of_size_hint := max (of_size_hint f) ?stop\<rparr>"
  have "ok ?f' s'" using ok_same_file [OF same_file_dirty(2) ok'(1)] .
  moreover have "dirty_ok bs ?f'" using ok'(2) by (simp add: dirty_ok_def)
  moreover have "file_view (unat bs) base ?f' p = file_view (unat bs) base (f\<lparr>of_dirty := d\<rparr>) p" for p
    by (simp add: file_view_def block_view_def)
  moreover have "apply_write_with (Suc (length data)) fetch bs offset data f s = Some (Ok (of_nat (length data)), ?f', s')"
    unfolding apply_write_with_def Let_def loop by simp
  ultimately show ?thesis using view e by auto
qed

lemma read_loop_view:
  fixes bs cur end' :: u64
  assumes "ok f s" and "0 < unat bs" and "unat end' + unat bs < 2 ^ 64" and "unat cur \<le> unat end'"
    and "unat end' - unat cur < fuel"
  shows "\<exists>s'. read_loop fuel fetch bs end' cur buf f s
      = Some (Ok (buf @ map (file_view (unat bs) base f) [unat cur..<unat end']), s') \<and> ok f s'"
  using assms
proof (induction fuel arbitrary: cur buf s)
  case 0
  then show ?case by simp
next
  case (Suc fuel)
  show ?case
  proof (cases "unat cur < unat end'")
    case False
    then show ?thesis using Suc.prems by (simp add: word_less_nat_alt)
  next
    case True
    define n where "n = min ((unat cur div unat bs + 1) * unat bs) (unat end') - unat cur"
    let ?want = "min (cur div bs * bs + bs) end' - cur" and ?idx = "BlockIdx (cur div bs)"
    note ar = chunk_arith [OF Suc.prems(2) True Suc.prems(3) n_def]
    note slice = chunk_view [OF Suc.prems(2) ar(4), where base = base and f = f]
    have cur': "unat (cur + ?want) = unat cur + n" by (rule ar(6))
    have rec: "\<exists>s''. read_loop fuel fetch bs end' (cur + ?want) (buf @ map (file_view (unat bs) base f) [unat cur..<unat cur + n]) f s'
        = Some (Ok (buf @ map (file_view (unat bs) base f) [unat cur..<unat end']), s'') \<and> ok f s''" if "ok f s'" for s'
    proof -
      have le: "unat cur + n \<le> unat end'" using ar(5) True by linarith
      then have "[unat cur..<unat end'] = [unat cur..<unat cur + n] @ [unat cur + n..<unat end']"
        using upt_add_eq_append [of "unat cur" "unat cur + n" "unat end' - (unat cur + n)"] by simp
      then show ?thesis
        using Suc.IH [OF that Suc.prems(2,3), of "cur + ?want"
            "buf @ map (file_view (unat bs) base f) [unat cur..<unat cur + n]"] le ar(3) Suc.prems(5)
        unfolding cur' by simp
    qed
    have head: "\<not> \<not> cur < end'" "bs \<noteq> 0" using True Suc.prems(2) by (auto simp: word_less_nat_alt)
    show ?thesis
    proof (cases "bt_contains (of_block_map f) ?idx \<or> bt_contains (of_dirty f) ?idx")
      case True
      obtain s' where s': "fetch f ?idx s = (Ok (block_view base f ?idx), s')" "ok f s'"
        using fetch_any [OF Suc.prems(1) True] by blast
      show ?thesis
        using rec [OF s'(2)] head True s'(1)
        by (simp add: Let_def ar(1,2) read_chunk_bytes slice del: minus_div_mult_eq_mod)
    next
      case False
      then have "block_view base f ?idx = []"
        by (auto simp: block_view_def bt_contains_def split: option.splits)
      then have "replicate n 0 = map (file_view (unat bs) base f) [unat cur..<unat cur + n]"
        using slice by (simp add: map_replicate_const)
      then show ?thesis
        using rec [OF Suc.prems(1)] head False by (simp add: Let_def ar(2))
    qed
  qed
qed

lemma read_range_view:
  fixes bs offset :: u64 and sz :: u32
  assumes "ok f s" and "0 < unat bs" and "unat offset + unat sz + unat bs < 2 ^ 64"
  shows "\<exists>s'. read_loop (Suc (unat sz)) fetch bs (offset + ucast sz) offset [] f s
      = Some (Ok (map (file_view (unat bs) base f) [unat offset..<unat offset + unat sz]), s') \<and> ok f s'"
proof -
  let ?stop = "offset + ucast sz"
  have e: "unat ?stop = unat offset + unat sz"
    using assms(3) by (simp add: unat_word_ariths(1) unat_ucast_u32)
  then have "unat ?stop + unat bs < 2 ^ 64" "unat offset \<le> unat ?stop" "unat ?stop - unat offset < Suc (unat sz)"
    using assms(3) by simp_all
  from read_loop_view [OF assms(1,2) this, of "[]"] show ?thesis unfolding e by simp
qed

end

end
