(* ===== verification/Meta_Files.thy ===== *)
theory Meta_Files
  imports Meta_Props
begin

text \<open>
  Files on the metadata server: generations and the optimistic check of Close, block
  allocation, truncation, and the node table that placements are drawn from.
\<close>

section \<open>Generations\<close>

text \<open>
  One request relates the inodes before and after it: an inode number that was already
  handed out either disappears or keeps its generation or moves to the next one.
\<close>

definition gen_step :: "meta_state \<Rightarrow> meta_state \<Rightarrow> bool" where
  "gen_step s t \<longleftrightarrow> (\<forall>i n'. raw i < next_ino s \<longrightarrow> inodes t i = Some n' \<longrightarrow>
     (\<exists>n. inodes s i = Some n \<and> i_generation n' \<in> {i_generation n, bump (i_generation n)}))"

lemma gen_stepI:
  assumes "\<And>i. raw i < next_ino s \<Longrightarrow>
    map_option i_generation (inodes t i) \<in> {None, map_option i_generation (inodes s i)}"
  shows "gen_step s t"
  unfolding gen_step_def
proof (intro allI impI)
  fix i n' assume i: "raw i < next_ino s" and n': "inodes t i = Some n'"
  from assms [OF i] n' show "\<exists>n. inodes s i = Some n \<and> i_generation n' \<in> {i_generation n, bump (i_generation n)}"
    by (cases "inodes s i") auto
qed

lemma gen_same_inodes: "inodes t = inodes s \<Longrightarrow> gen_step s t"
  by (rule gen_stepI) simp

lemma i_generation_nlink [simp]:
  "i_generation (nlink_dec n) = i_generation n" "i_generation (nlink_inc n) = i_generation n"
  by (simp_all add: nlink_dec_def nlink_inc_def)

lemma gen_create: "gen_step s (fst (meta_create now r s))"
proof (rule gen_stepI)
  fix i assume "raw i < next_ino s"
  then have "i \<noteq> InodeId (next_ino s)" by (cases i) auto
  then show "map_option i_generation (inodes (fst (meta_create now r s)) i)
      \<in> {None, map_option i_generation (inodes s i)}"
    by (cases rule: meta_create_cases [of now r s]) (simp_all add: meta_create_ok Let_def)
qed

lemma gen_mkdir: "gen_step s (fst (meta_mkdir now r s))"
proof (rule gen_stepI)
  fix i assume "raw i < next_ino s"
  then have "i \<noteq> InodeId (next_ino s)" by (cases i) auto
  then show "map_option i_generation (inodes (fst (meta_mkdir now r s)) i)
      \<in> {None, map_option i_generation (inodes s i)}"
    by (auto simp: meta_mkdir_def Let_def alloc_ino_def with_dir_def ns_simps option.map_comp comp_def
        split: option.split)
qed

lemma gen_unlink: "gen_step s (fst (meta_unlink token r s))"
  by (rule gen_stepI)
    (auto simp: meta_unlink_def Let_def with_dir_def ns_simps split: option.split)

lemma gen_rmdir: "gen_step s (fst (meta_rmdir r s))"
  by (rule gen_stepI)
    (auto simp: meta_rmdir_def Let_def with_dir_def ns_simps option.map_comp comp_def split: option.split)

lemma gen_drop_dst:
  "map_option i_generation (inodes (fst (rename_drop_dst dp dn s)) i)
     \<in> {None, map_option i_generation (inodes s i)}"
  by (auto simp: rename_drop_dst_def rename_finish_dst_def with_dir_def Let_def ns_simps option.map_comp comp_def
      split: option.split inode_kind.split)

lemma gen_rename: "gen_step s (fst (meta_rename token r s))"
proof (rule gen_stepI)
  fix i
  obtain s1 v where s1: "rename_drop_dst (InodeId (rn_dst_parent_ino r)) (rn_dst_name r) s = (s1, v)"
    by fastforce
  have 1: "map_option i_generation (inodes s1 i) \<in> {None, map_option i_generation (inodes s i)}"
    using gen_drop_dst [of "InodeId (rn_dst_parent_ino r)" "rn_dst_name r" s i] s1 by simp
  have 2: "map_option i_generation (inodes (fst (meta_rename token r s)) i)
      \<in> {map_option i_generation (inodes s i), map_option i_generation (inodes s1 i)}"
    by (cases v) (auto simp: meta_rename_def s1 Let_def with_dir_def ns_simps option.map_comp comp_def
        split: option.split prod.split)
  from 1 2 show "map_option i_generation (inodes (fst (meta_rename token r s)) i)
      \<in> {None, map_option i_generation (inodes s i)}"
    by auto
qed

text \<open>
  SetAttr in one equation: \<open>req_time\<close> is the time a request asks for, the old one when
  it asks for none.
\<close>

definition req_time :: "i64 option \<Rightarrow> u32 option \<Rightarrow> system_time \<Rightarrow> system_time option" where
  "req_time sec ns old = (case sec of None \<Rightarrow> Some old | Some v \<Rightarrow> unix_time v (unwrap_or ns 0))"

definition set_attr_fields :: "set_attr_req \<Rightarrow> inode \<Rightarrow> inode" where
  "set_attr_fields r n = n\<lparr>i_mode := unwrap_or (sa_mode r) (i_mode n),
     i_uid := unwrap_or (sa_uid r) (i_uid n), i_gid := unwrap_or (sa_gid r) (i_gid n)\<rparr>"

definition set_attr_size :: "u64 option \<Rightarrow> inode \<Rightarrow> inode \<times> (block_idx \<times> block_placement) list" where
  "set_attr_size sz n = (case sz of None \<Rightarrow> (n, []) | Some v \<Rightarrow> set_size v n)"

lemma set_opt_fields:
  "set_opt (sa_gid r) (\<lambda>v n. n\<lparr>i_gid := v\<rparr>) (set_opt (sa_uid r) (\<lambda>v n. n\<lparr>i_uid := v\<rparr>)
     (set_opt (sa_mode r) (\<lambda>v n. n\<lparr>i_mode := v\<rparr>) n)) = set_attr_fields r n"
  by (simp add: set_opt_def set_attr_fields_def split: option.split)

lemma set_time_atime:
  "set_time sec ns (\<lambda>t n. n\<lparr>i_atime := t\<rparr>) n = map_option (\<lambda>t. n\<lparr>i_atime := t\<rparr>) (req_time sec ns (i_atime n))"
  by (simp add: set_time_def req_time_def split: option.split)

lemma set_time_mtime:
  "set_time sec ns (\<lambda>t n. n\<lparr>i_mtime := t\<rparr>) n = map_option (\<lambda>t. n\<lparr>i_mtime := t\<rparr>) (req_time sec ns (i_mtime n))"
  by (simp add: set_time_def req_time_def split: option.split)

lemma set_attr_fields_frame [simp]:
  "i_generation (set_attr_fields r n) = i_generation n" "i_blocks (set_attr_fields r n) = i_blocks n"
  "i_size (set_attr_fields r n) = i_size n" "i_atime (set_attr_fields r n) = i_atime n"
  "i_mtime (set_attr_fields r n) = i_mtime n"
  by (simp_all add: set_attr_fields_def)

lemma meta_set_attr_missing:
  "inodes s (InodeId (sa_ino r)) = None \<Longrightarrow> meta_set_attr token now r s = (s, [], Err not_found)"
  by (simp add: meta_set_attr_def)

lemma meta_set_attr_panic:
  assumes n: "inodes s (InodeId (sa_ino r)) = Some n"
    and bad: "req_time (sa_atime_s r) (sa_atime_ns r) (i_atime n) = None
      \<or> req_time (sa_mtime_s r) (sa_mtime_ns r) (i_mtime n) = None"
  shows "\<exists>n'. meta_set_attr token now r s = (put_inode (InodeId (sa_ino r)) n' s, [], Panic)
    \<and> i_generation n' = i_generation n \<and> i_blocks n' = i_blocks n \<and> i_size n' = i_size n"
  using bad
  by (auto simp: meta_set_attr_def n Let_def set_opt_fields set_time_atime set_time_mtime
      split: option.split)

lemma meta_set_attr_ok:
  assumes n: "inodes s (InodeId (sa_ino r)) = Some n"
    and ta: "req_time (sa_atime_s r) (sa_atime_ns r) (i_atime n) = Some ta"
    and tm: "req_time (sa_mtime_s r) (sa_mtime_ns r) (i_mtime n) = Some tm"
    and sz: "set_attr_size (sa_size r) ((set_attr_fields r n)\<lparr>i_atime := ta, i_mtime := tm\<rparr>) = (n6, dropped)"
  shows "meta_set_attr token now r s =
    (put_inode (InodeId (sa_ino r)) (n6\<lparr>i_ctime := now\<rparr>) s,
     fire_delete_blocks dropped (node_addrs_of s) (InodeId (sa_ino r)) token,
     Ok (Some (build_attr (n6\<lparr>i_ctime := now\<rparr>))))"
proof -
  have addrs: "node_addrs_of (put_inode i m s) = node_addrs_of s" for i m
    by (rule node_addrs_of_cong) simp
  show ?thesis
    using ta tm sz
    by (simp add: meta_set_attr_def n Let_def set_opt_fields set_time_atime set_time_mtime
        set_attr_size_def addrs)
qed

lemma set_attr_size_generation: "set_attr_size v n = (n', dropped) \<Longrightarrow> i_generation n' = i_generation n"
  by (auto simp: set_attr_size_def set_size_def Let_def split: option.splits if_splits)

lemma gen_set_attr: "gen_step s (fst (meta_set_attr token now r s))"
proof (cases "inodes s (InodeId (sa_ino r))")
  case None
  then show ?thesis by (simp add: meta_set_attr_missing gen_same_inodes)
next
  case (Some n)
  have put: "gen_step s (put_inode (InodeId (sa_ino r)) n' s)" if "i_generation n' = i_generation n" for n'
    by (rule gen_stepI) (use Some that in \<open>auto simp: ns_simps\<close>)
  show ?thesis
  proof (cases "req_time (sa_atime_s r) (sa_atime_ns r) (i_atime n) = None
      \<or> req_time (sa_mtime_s r) (sa_mtime_ns r) (i_mtime n) = None")
    case True
    with meta_set_attr_panic [OF Some, of token now] put show ?thesis by auto
  next
    case False
    then obtain ta tm where t: "req_time (sa_atime_s r) (sa_atime_ns r) (i_atime n) = Some ta"
      "req_time (sa_mtime_s r) (sa_mtime_ns r) (i_mtime n) = Some tm" by auto
    obtain n6 dropped where sz:
      "set_attr_size (sa_size r) ((set_attr_fields r n)\<lparr>i_atime := ta, i_mtime := tm\<rparr>) = (n6, dropped)"
      by fastforce
    show ?thesis
      using meta_set_attr_ok [OF Some t sz, of token now] put set_attr_size_generation [OF sz] by simp
  qed
qed

text \<open>Close in one equation per branch.\<close>

lemma meta_close_no_handle:
  "open_handles s (cl_fh r) = None \<Longrightarrow> meta_close now r s = (s, Err (st_not_found ''file handle not found''))"
  by (simp add: meta_close_def)

lemma meta_close_gone:
  "open_handles s (cl_fh r) = Some h \<Longrightarrow> inodes s (oh_ino h) = None
     \<Longrightarrow> meta_close now r s = (s\<lparr>open_handles := (open_handles s)(cl_fh r := None)\<rparr>, Err not_found)"
  by (simp add: meta_close_def Let_def)

lemma meta_close_clean:
  "open_handles s (cl_fh r) = Some h \<Longrightarrow> inodes s (oh_ino h) = Some n \<Longrightarrow> cl_written_block_idxs r = []
     \<Longrightarrow> meta_close now r s = (s\<lparr>open_handles := (open_handles s)(cl_fh r := None)\<rparr>, Ok (Some (build_attr n)))"
  by (simp add: meta_close_def Let_def)

lemma meta_close_stale:
  "open_handles s (cl_fh r) = Some h \<Longrightarrow> inodes s (oh_ino h) = Some n \<Longrightarrow> cl_written_block_idxs r \<noteq> []
     \<Longrightarrow> i_generation n \<noteq> Generation (cl_expected_generation r)
     \<Longrightarrow> meta_close now r s = (s\<lparr>open_handles := (open_handles s)(cl_fh r := None)\<rparr>,
           Err (st_failed_precondition ''generation mismatch''))"
  by (simp add: meta_close_def Let_def)

lemma meta_close_ok:
  "open_handles s (cl_fh r) = Some h \<Longrightarrow> inodes s (oh_ino h) = Some n \<Longrightarrow> cl_written_block_idxs r \<noteq> []
     \<Longrightarrow> i_generation n = Generation (cl_expected_generation r)
     \<Longrightarrow> unix_time (cl_mtime_s r) (cl_mtime_ns r) = Some t \<Longrightarrow> time_sub now (60 * nanos_per_sec) = Some fl
     \<Longrightarrow> meta_close now r s =
       (put_inode (oh_ino h) (close_apply now (max t fl) r n) (s\<lparr>open_handles := (open_handles s)(cl_fh r := None)\<rparr>),
        Ok (Some (build_attr (close_apply now (max t fl) r n))))"
  by (simp add: meta_close_def Let_def)

lemma gen_close: "gen_step s (fst (meta_close now r s))"
  unfolding gen_step_def
  by (auto simp: meta_close_def Let_def ns_simps close_apply_def split: option.splits if_splits)

lemma gen_alloc_step:
  "map_option i_generation (inodes (fst (alloc_step xxh3 ino idx st)) i) = map_option i_generation (inodes (fst st) i)"
  by (cases st) (auto simp: alloc_step_eq Let_def ns_simps option.map_comp comp_def split: option.split)

lemma gen_allocate: "gen_step s (fst (meta_allocate_blocks xxh3 r s))"
proof (rule gen_stepI)
  fix i
  have "map_option i_generation (inodes (fst (fold (alloc_step xxh3 ino) idxs st)) i)
      = map_option i_generation (inodes (fst st) i)" for ino idxs st
    by (induction idxs arbitrary: st) (simp_all add: gen_alloc_step)
  from this [of "InodeId (al_ino r)" "map BlockIdx (al_block_idxs r)" "(s, [])"]
  show "map_option i_generation (inodes (fst (meta_allocate_blocks xxh3 r s)) i)
      \<in> {None, map_option i_generation (inodes s i)}"
    by (auto simp: meta_allocate_blocks_def Let_def split: prod.splits)
qed

lemmas gen_handlers = gen_create gen_mkdir gen_unlink gen_rmdir gen_rename gen_set_attr gen_close gen_allocate

lemma gen_exec: "gen_step s (meta_exec xxh3 token x s)"
  by (cases x) (simp_all add: gen_handlers gen_same_inodes open_register_def alloc_fh_def
      meta_heartbeat_node_def Let_def)

lemma next_ino_grows:
  assumes "unat (next_ino s) + Suc k < 2 ^ 64"
  shows "next_ino s \<le> next_ino (meta_exec xxh3 token x s)
    \<and> unat (next_ino (meta_exec xxh3 token x s)) + k < 2 ^ 64"
proof -
  have "next_ino (meta_exec xxh3 token x s) \<in> {next_ino s, next_ino s + 1}"
    using counters_exec [of s xxh3 token x] by (simp add: counters_step_def)
  then show ?thesis
    using assms unat_succ_u64 [of "next_ino s"] by (auto simp: word_le_nat_alt)
qed

lemma unat_bump: "Suc (unat (raw_gen g)) < 2 ^ 64 \<Longrightarrow> unat (raw_gen (bump g)) = Suc (unat (raw_gen g))"
  by (cases g) (simp add: unat_succ_u64)

lemma generation_run:
  assumes "raw i < next_ino s" and "unat (next_ino s) + length ops < 2 ^ 64"
    and "inodes (meta_run xxh3 token ops s) i = Some n'"
  shows "\<exists>n. inodes s i = Some n \<and> (unat (raw_gen (i_generation n)) + length ops < 2 ^ 64
    \<longrightarrow> unat (raw_gen (i_generation n)) \<le> unat (raw_gen (i_generation n')))"
  using assms
proof (induction ops arbitrary: s)
  case Nil
  then show ?case by (simp add: meta_run_def)
next
  case (Cons x xs)
  let ?t = "meta_exec xxh3 token x s"
  have grow: "next_ino s \<le> next_ino ?t" "unat (next_ino ?t) + length xs < 2 ^ 64"
    using next_ino_grows [of s "length xs" xxh3 token x] Cons.prems(2) by simp_all
  have "inodes (meta_run xxh3 token xs ?t) i = Some n'"
    using Cons.prems(3) by (simp add: meta_run_def)
  then obtain m where m: "inodes ?t i = Some m"
    and le: "unat (raw_gen (i_generation m)) + length xs < 2 ^ 64
      \<longrightarrow> unat (raw_gen (i_generation m)) \<le> unat (raw_gen (i_generation n'))"
    using Cons.IH [of ?t] grow Cons.prems(1) by force
  obtain n where n: "inodes s i = Some n"
    and g: "i_generation m \<in> {i_generation n, bump (i_generation n)}"
    using gen_exec [of s xxh3 token x] Cons.prems(1) m unfolding gen_step_def by blast
  have "unat (raw_gen (i_generation n)) \<le> unat (raw_gen (i_generation n'))"
    if "unat (raw_gen (i_generation n)) + length (x # xs) < 2 ^ 64"
    using g le that unat_bump [of "i_generation n"] by auto
  with n show ?case by blast
qed

text \<open>
  C23. Stale publishers are fenced.  Once a file has generation \<open>g\<close>, then after any
  further requests, renames of every kind included, a Close that carries written blocks
  and expects a generation below \<open>g\<close> is refused and changes no inode, whichever handle
  it uses: a writer that opened the file before another writer published cannot
  overwrite the size and times the other writer published.  The check does not look at
  which blocks were written: also a stale writer of other blocks is refused, where
  \<^verbatim>\<open>docs/consistency.md\<close> 5.3 lets its Close succeed.
\<close>

theorem stale_close_refused:
  assumes "inodes s i = Some n" and "raw i < next_ino s" and "unat (next_ino s) + length ops < 2 ^ 64"
    and "unat (raw_gen (i_generation n)) + length ops < 2 ^ 64"
    and "s' = meta_run xxh3 token ops s"
    and "open_handles s' (cl_fh r) = Some h" and "oh_ino h = i"
    and "cl_written_block_idxs r \<noteq> []" and "Generation (cl_expected_generation r) < i_generation n"
  shows "\<exists>s'' e. meta_close now r s' = (s'', Err e) \<and> status_code e \<in> {NotFound, FailedPrecondition}
    \<and> inodes s'' = inodes s' \<and> dirs s'' = dirs s'"
proof (cases "inodes s' i")
  case None
  then show ?thesis
    using meta_close_gone [OF assms(6), of now] assms(7) by (simp add: not_found_def)
next
  case (Some n')
  have "unat (raw_gen (i_generation n)) \<le> unat (raw_gen (i_generation n'))"
    using generation_run [OF assms(2,3)] Some assms(1,4,5) by fastforce
  then have "i_generation n \<le> i_generation n'"
    by (cases "i_generation n"; cases "i_generation n'") (simp add: less_eq_generation_def word_le_nat_alt)
  then have "i_generation n' \<noteq> Generation (cl_expected_generation r)"
    using assms(9) by auto
  then show ?thesis
    using meta_close_stale [OF assms(6) _ assms(8), of n' now] Some assms(7) by simp
qed

text \<open>
  A file that one client created and a second client opened, before and after the first
  client published a block.
\<close>

definition sample_opened :: meta_state where
  "sample_opened = fst (meta_open \<lparr> op_ino = 2, op_flags = 2 \<rparr> sample_state)"

definition sample_close :: "u64 \<Rightarrow> close_req" where
  "sample_close fh = \<lparr> cl_fh = fh, cl_ino = 2, cl_expected_generation = 0, cl_new_size = 5,
     cl_written_block_idxs = [0], cl_mtime_s = 7, cl_mtime_ns = 0 \<rparr>"

lemma sample_close_sel [simp]:
  "cl_fh (sample_close fh) = fh" "cl_expected_generation (sample_close fh) = 0" "cl_new_size (sample_close fh) = 5"
  "cl_written_block_idxs (sample_close fh) = [0]"
  by (simp_all add: sample_close_def)

definition sample_published :: meta_state where
  "sample_published = fst (meta_close 0 (sample_close 1) sample_opened)"

lemma sample_file:
  "inodes sample_state (InodeId 2) = Some (new_file_inode 0 (InodeId 2)
     \<lparr> cr_parent_ino = 1, cr_name = ''f'', cr_mode = 420, cr_uid = 0, cr_gid = 0 \<rparr>)"
  "next_ino sample_state = 3" "next_fh sample_state = 2" "nodes sample_state = []"
  "open_handles sample_state = [1 \<mapsto> \<lparr> oh_fh = 1, oh_ino = InodeId 2, oh_flags = 0, oh_generation_at_open = Generation 0 \<rparr>]"
  by (simp_all add: sample_state_def meta_create_def Let_def meta_new_def ROOT_def alloc_ino_def alloc_fh_def
      with_dir_def bt_contains_def put_inode_def)

lemma sample_opened_simps:
  "inodes sample_opened = inodes sample_state" "next_ino sample_opened = 3" "dirs sample_opened = dirs sample_state"
  "open_handles sample_opened 1 = Some \<lparr> oh_fh = 1, oh_ino = InodeId 2, oh_flags = 0, oh_generation_at_open = Generation 0 \<rparr>"
  "open_handles sample_opened 2 = Some \<lparr> oh_fh = 2, oh_ino = InodeId 2, oh_flags = 2, oh_generation_at_open = Generation 0 \<rparr>"
  by (simp_all add: sample_opened_def meta_open_def open_read_def open_register_def alloc_fh_def Let_def
      sample_file new_file_inode_def)

lemma sample_close_times:
  "unix_time (cl_mtime_s (sample_close fh)) (cl_mtime_ns (sample_close fh)) = Some 7000000000"
  "time_sub 0 (60 * nanos_per_sec) = Some (- 60000000000)"
  by (simp_all add: sample_close_def unix_time_def time_add_def time_sub_def duration_new_def max0_def
      nanos_per_sec_def representable_time_def)

lemma sample_published_simps:
  "map_option i_generation (inodes sample_published (InodeId 2)) = Some (Generation 1)"
  "next_ino sample_published = 3" "dirs sample_published = dirs sample_state"
  "open_handles sample_published 2 = open_handles sample_opened 2"
  by (simp_all add: sample_published_def meta_close_def Let_def sample_opened_simps sample_file
      sample_close_times put_inode_def close_apply_def new_file_inode_def)

theorem stale_close_refused_witness:
  "\<exists>s'' e. meta_close 0 (sample_close 2) (meta_run (\<lambda>_ _. 0) [] [OpRmdir \<lparr> rd_parent_ino = 1, rd_name = ''x'' \<rparr>] sample_published)
     = (s'', Err e) \<and> inodes s'' = inodes sample_published"
proof -
  obtain n where n: "inodes sample_published (InodeId 2) = Some n" "i_generation n = Generation 1"
    using sample_published_simps(1) by auto
  have run: "meta_run (\<lambda>_ _. 0) [] [OpRmdir \<lparr> rd_parent_ino = 1, rd_name = ''x'' \<rparr>] sample_published = sample_published"
    by (simp add: meta_run_def meta_rmdir_def entry_def sample_published_simps sample_dirs bt_get_def)
  show ?thesis
    using stale_close_refused [OF n(1), of "[OpRmdir \<lparr> rd_parent_ino = 1, rd_name = ''x'' \<rparr>]" sample_published
        "\<lambda>_ _. 0" "[]" "sample_close 2" _ 0]
    by (simp add: run n sample_published_simps sample_opened_simps less_generation_def) blast
qed

text \<open>
  Close to open.  A Close that carries written blocks and expects the current
  generation replies with the next generation and the size it was given; GetAttr and
  every later Open return exactly these attributes, Open with the placements of all
  blocks of the file; every other inode is as before; and the handle is gone, so closing
  it again is refused.
\<close>

theorem close_then_open:
  assumes "meta_wf s" and "open_handles s (cl_fh r) = Some h" and "inodes s (oh_ino h) = Some n" and "i_kind n = File"
    and "i_generation n = Generation (cl_expected_generation r)" and "cl_written_block_idxs r \<noteq> []"
    and "unix_time (cl_mtime_s r) (cl_mtime_ns r) = Some t" and "time_sub now (60 * nanos_per_sec) = Some fl"
  shows "\<exists>s' a. meta_close now r s = (s', Ok (Some a))
    \<and> at_generation a = cl_expected_generation r + 1 \<and> at_size a = cl_new_size r
    \<and> meta_get_attr (raw (oh_ino h)) s' = Ok a
    \<and> snd (meta_open \<lparr> op_ino = raw (oh_ino h), op_flags = fl' \<rparr> s') = Ok \<lparr> opr_attr = Some a, opr_fh = next_fh s,
        opr_block_map = map (\<lambda>(idx, p). placement_to_block_loc idx p) (i_blocks n) \<rparr>
    \<and> (\<forall>j. j \<noteq> oh_ino h \<longrightarrow> inodes s' j = inodes s j)
    \<and> meta_close now' r s' = (s', Err (st_not_found ''file handle not found''))"
proof -
  have raw: "InodeId (raw (oh_ino h)) = oh_ino h" by (cases "oh_ino h") simp
  have size: "at_size (build_attr m) = i_size m" "at_generation (build_attr m) = raw_gen (i_generation m)" for m
    by (simp_all add: build_attr_def Let_def split: prod.split)
  show ?thesis
    unfolding meta_close_ok [OF assms(2,3,6,5,7,8)]
    by (simp add: raw size meta_get_attr_def meta_open_def open_read_def open_register_def alloc_fh_def Let_def ns_simps
        meta_close_no_handle close_apply_def assms)
qed

theorem close_then_open_witness:
  "\<exists>s' a. meta_close 0 (sample_close 1) sample_opened = (s', Ok (Some a)) \<and> at_size a = 5
    \<and> meta_get_attr 2 s' = Ok a"
proof -
  have wf: "meta_wf sample_opened"
  proof -
    have "counters_ok sample_state" by (simp add: counters_ok_def sample_file)
    then have "meta_wf (snd (open_register \<lparr> op_ino = 2, op_flags = 2 \<rparr> (Generation 0) sample_state))"
      using register_refines sample_state_ok by blast
    then show ?thesis
      by (simp add: sample_opened_def meta_open_def open_read_def sample_file new_file_inode_def split_def Let_def)
  qed
  obtain n where n: "inodes sample_opened (InodeId 2) = Some n" "i_kind n = File" "i_generation n = Generation 0"
    by (simp add: sample_opened_simps sample_file new_file_inode_def)
  let ?h = "\<lparr> oh_fh = 1, oh_ino = InodeId 2, oh_flags = 0, oh_generation_at_open = Generation 0 \<rparr>"
  have "open_handles sample_opened (cl_fh (sample_close 1)) = Some ?h" "inodes sample_opened (oh_ino ?h) = Some n"
    "i_generation n = Generation (cl_expected_generation (sample_close 1))" "cl_written_block_idxs (sample_close 1) \<noteq> []"
    using n by (simp_all add: sample_opened_simps)
  from close_then_open [OF wf this(1,2) n(2) this(3,4) sample_close_times, of 0 0] show ?thesis
    by simp blast
qed

end
