(* ===== verification/Meta_Blocks.thy ===== *)
theory Meta_Blocks
  imports Meta_Files
begin

text \<open>
  Block allocation, truncation and node liveness on the metadata server: what
  AllocateBlocks and SetAttr do to the block map of a file, which nodes new blocks are
  placed on, and which nodes the watcher takes out of the placement.
\<close>

section \<open>Allocation\<close>

fun alloc_blocks ::
  "(block_idx \<Rightarrow> block_placement) \<Rightarrow> block_idx list \<Rightarrow> (block_idx, block_placement) btree
     \<Rightarrow> (block_idx, block_placement) btree" where
  "alloc_blocks f [] b = b"
| "alloc_blocks f (i # is) b =
     alloc_blocks f is (case bt_get b i of Some p \<Rightarrow> b | None \<Rightarrow> bt_insert i (f i) b)"

lemma bt_get_alloc_blocks:
  "bt_get (alloc_blocks f is b) i =
     (case bt_get b i of Some p \<Rightarrow> Some p | None \<Rightarrow> if i \<in> set is then Some (f i) else None)"
  by (induction f "is" b rule: alloc_blocks.induct) (auto split: option.splits)

lemma alloc_blocks_id: "(\<And>i. i \<in> set is \<Longrightarrow> bt_get b i \<noteq> None) \<Longrightarrow> alloc_blocks f is b = b"
proof (induction "is")
  case (Cons a "is")
  then obtain p where "bt_get b a = Some p" by fastforce
  with Cons show ?case by simp
qed simp

lemma put_inode_same: "inodes s i = Some n \<Longrightarrow> put_inode i n s = s"
  by (simp add: put_inode_def fun_upd_idem)

lemma put_inode_twice [simp]: "put_inode i m (put_inode i n s) = put_inode i m s"
  by (simp add: put_inode_def)

lemma live_nodes_put [simp]: "live_nodes (put_inode i n s) = live_nodes s"
  by (simp add: live_nodes_def)

lemma alloc_fold:
  assumes "inodes s ino = Some n"
    and "f = place_block xxh3 (live_nodes s) (replication_factor s) ino"
  shows "fold (alloc_step xxh3 ino) idxs (s, bm) =
    (put_inode ino (n\<lparr>i_blocks := alloc_blocks f idxs (i_blocks n)\<rparr>) s,
     bm @ map (\<lambda>i. placement_to_block_loc i (the (bt_get (alloc_blocks f idxs (i_blocks n)) i))) idxs)"
  using assms
proof (induction idxs arbitrary: s n bm)
  case Nil
  then show ?case by (simp add: put_inode_same)
next
  case (Cons i "is")
  show ?case
  proof (cases "bt_get (i_blocks n) i")
    case None
    let ?n = "n\<lparr>i_blocks := bt_insert i (f i) (i_blocks n)\<rparr>"
    have step: "alloc_step xxh3 ino i (s, bm) = (put_inode ino ?n s, bm @ [placement_to_block_loc i (f i)])"
      using None Cons.prems by (simp add: alloc_step_eq modify_inode_def Let_def)
    have "fold (alloc_step xxh3 ino) is (put_inode ino ?n s, bm @ [placement_to_block_loc i (f i)]) =
      (put_inode ino (?n\<lparr>i_blocks := alloc_blocks f is (i_blocks ?n)\<rparr>) (put_inode ino ?n s),
       (bm @ [placement_to_block_loc i (f i)])
         @ map (\<lambda>i. placement_to_block_loc i (the (bt_get (alloc_blocks f is (i_blocks ?n)) i))) is)"
      using Cons.prems by (intro Cons.IH) (simp_all add: ns_simps)
    then show ?thesis
      using None by (simp add: step bt_get_alloc_blocks)
  next
    case (Some p)
    have step: "alloc_step xxh3 ino i (s, bm) = (s, bm @ [placement_to_block_loc i p])"
      using Some Cons.prems by (simp add: alloc_step_eq)
    show ?thesis
      using Some Cons.IH [OF Cons.prems] by (simp add: step bt_get_alloc_blocks)
  qed
qed

lemma bt_wf_alloc_blocks: "bt_wf m \<Longrightarrow> bt_wf (alloc_blocks f is m)"
  by (induction "is" arbitrary: m) (auto simp: bt_wf_insert split: option.splits)

lemma meta_allocate_blocks_eq:
  assumes "inodes s (InodeId (al_ino r)) = Some n"
    and "f = place_block xxh3 (live_nodes s) (replication_factor s) (InodeId (al_ino r))"
    and "b = alloc_blocks f (map BlockIdx (al_block_idxs r)) (i_blocks n)"
  shows "meta_allocate_blocks xxh3 r s =
    (put_inode (InodeId (al_ino r)) (n\<lparr>i_blocks := b\<rparr>) s,
     Ok (map (\<lambda>i. placement_to_block_loc (BlockIdx i) (the (bt_get b (BlockIdx i)))) (al_block_idxs r)))"
  using alloc_fold [OF assms(1,2), of "map BlockIdx (al_block_idxs r)" "[]"] assms(1,3)
  by (simp add: meta_allocate_blocks_def Let_def comp_def)

text \<open>
  C29. Placements are stable.  AllocateBlocks on an existing inode replies with one
  location per requested index, in the order of the request; a block that had a
  placement keeps it, a new one gets the placement chosen from the live nodes, no other
  field and no other inode changes.  Asking again for the same blocks, in any later
  state in which the inode is the same and whatever the node table is by then, replies
  with the same locations and changes nothing.
\<close>

theorem allocate_stable:
  assumes "inodes s (InodeId (al_ino r)) = Some n"
  shows "\<exists>s' b locs. meta_allocate_blocks xxh3 r s = (s', Ok locs)
    \<and> inodes s' = (inodes s)(InodeId (al_ino r) \<mapsto> n\<lparr>i_blocks := b\<rparr>)
    \<and> (\<forall>i. bt_get b i = (case bt_get (i_blocks n) i of Some p \<Rightarrow> Some p
         | None \<Rightarrow> if i \<in> BlockIdx ` set (al_block_idxs r)
             then Some (place_block xxh3 (live_nodes s) (replication_factor s) (InodeId (al_ino r)) i) else None))
    \<and> map bl_block_idx locs = al_block_idxs r
    \<and> (\<forall>k < length locs. Some (locs ! k) = map_option (placement_to_block_loc (BlockIdx (al_block_idxs r ! k)))
         (bt_get b (BlockIdx (al_block_idxs r ! k))))
    \<and> dirs s' = dirs s \<and> open_handles s' = open_handles s
    \<and> (\<forall>t xxh3'. inodes t (InodeId (al_ino r)) = inodes s' (InodeId (al_ino r))
         \<longrightarrow> meta_allocate_blocks xxh3' r t = (t, Ok locs))"
proof -
  define f where "f = place_block xxh3 (live_nodes s) (replication_factor s) (InodeId (al_ino r))"
  define b where "b = alloc_blocks f (map BlockIdx (al_block_idxs r)) (i_blocks n)"
  define locs where "locs = map (\<lambda>i. placement_to_block_loc (BlockIdx i) (the (bt_get b (BlockIdx i)))) (al_block_idxs r)"
  have b: "bt_get b i = (case bt_get (i_blocks n) i of Some p \<Rightarrow> Some p
      | None \<Rightarrow> if i \<in> BlockIdx ` set (al_block_idxs r) then Some (f i) else None)" for i
    by (simp add: b_def bt_get_alloc_blocks)
  have again: "meta_allocate_blocks xxh3' r t = (t, Ok locs)"
    if t: "inodes t (InodeId (al_ino r)) = Some (n\<lparr>i_blocks := b\<rparr>)" for t xxh3'
  proof -
    have "alloc_blocks g (map BlockIdx (al_block_idxs r)) b = b" for g
      by (rule alloc_blocks_id) (auto simp: b split: option.split)
    then show ?thesis
      using meta_allocate_blocks_eq [OF t refl refl, of xxh3'] by (simp add: put_inode_same [OF t] locs_def)
  qed
  have got: "bt_get b (BlockIdx i) \<noteq> None" if "i \<in> set (al_block_idxs r)" for i
    using that by (auto simp: b split: option.split)
  have "Some (locs ! k) = map_option (placement_to_block_loc (BlockIdx (al_block_idxs r ! k)))
      (bt_get b (BlockIdx (al_block_idxs r ! k)))" if "k < length locs" for k
    using that got [OF nth_mem, of k] by (auto simp: locs_def)
  moreover have "map bl_block_idx locs = al_block_idxs r"
    by (simp add: locs_def comp_def placement_to_block_loc_def)
  ultimately show ?thesis
    unfolding meta_allocate_blocks_eq [OF assms f_def b_def] f_def [symmetric]
    using b again by (auto simp: ns_simps locs_def)
qed

theorem allocate_stable_witness:
  "\<exists>s' locs. meta_allocate_blocks (\<lambda>_ _. 0) \<lparr> al_ino = 2, al_block_idxs = [0, 3] \<rparr> sample_state = (s', Ok locs)
     \<and> map bl_block_idx locs = [0, 3]
     \<and> meta_allocate_blocks (\<lambda>_ _. 0) \<lparr> al_ino = 2, al_block_idxs = [0, 3] \<rparr> s' = (s', Ok locs)"
proof -
  let ?r = "\<lparr> al_ino = 2, al_block_idxs = [0, 3] \<rparr>"
  have "inodes sample_state (InodeId (al_ino ?r)) = Some (new_file_inode 0 (InodeId 2)
     \<lparr> cr_parent_ino = 1, cr_name = ''f'', cr_mode = 420, cr_uid = 0, cr_gid = 0 \<rparr>)"
    by (simp add: sample_file)
  from allocate_stable [OF this, of "\<lambda>_ _. 0"] show ?thesis by force
qed

section \<open>Truncation\<close>

lemma truncate_last_idx_iff:
  "k \<le> truncate_last_idx sz \<longleftrightarrow> k = 0 \<or> unat k * 2 ^ 20 < unat sz"
proof (cases "sz = 0")
  case True
  then show ?thesis by (simp add: truncate_last_idx_def)
next
  case False
  then have pos: "0 < unat sz" by (simp add: unat_gt_0)
  have "unat (sz - 1) = unat sz - 1"
    using False by (simp add: unat_minus_one)
  moreover have "unat (meta_block_size) = 2 ^ 20"
    by (simp add: meta_block_size_def)
  ultimately have "k \<le> truncate_last_idx sz \<longleftrightarrow> unat k \<le> (unat sz - 1) div 2 ^ 20"
    using False by (simp add: truncate_last_idx_def word_le_nat_alt unat_div)
  also have "\<dots> \<longleftrightarrow> unat k * 2 ^ 20 \<le> unat sz - 1"
    by (rule less_eq_div_iff_mult_less_eq) simp
  also have "\<dots> \<longleftrightarrow> unat k * 2 ^ 20 < unat sz"
    using pos by linarith
  finally show ?thesis
    using pos by auto
qed

text \<open>The exact result of a SetAttr that shrinks a file and sets no times.\<close>

lemma truncate_result:
  assumes "inodes s (InodeId (sa_ino r)) = Some n" and "sa_size r = Some sz" and "sz < i_size n"
    and "sa_atime_s r = None" and "sa_mtime_s r = None"
  shows "meta_set_attr token now r s =
    (let n' = (set_attr_fields r n)\<lparr>i_atime := i_atime n, i_mtime := i_mtime n,
           i_blocks := bt_retain (\<lambda>k. raw_idx k \<le> truncate_last_idx sz) (i_blocks n), i_size := sz, i_ctime := now\<rparr>
     in (put_inode (InodeId (sa_ino r)) n' s,
         fire_delete_blocks (filter (\<lambda>(k, p). raw_idx k \<noteq> 0 \<and> unat sz \<le> unat (raw_idx k) * 2 ^ 20) (i_blocks n))
           (node_addrs_of s) (InodeId (sa_ino r)) token,
         Ok (Some (build_attr n'))))"
proof -
  let ?m = "(set_attr_fields r n)\<lparr>i_atime := i_atime n, i_mtime := i_mtime n\<rparr>"
  let ?dropped = "filter (\<lambda>(k, p). raw_idx k \<noteq> 0 \<and> unat sz \<le> unat (raw_idx k) * 2 ^ 20) (i_blocks n)"
  let ?n6 = "?m\<lparr>i_blocks := bt_retain (\<lambda>k. raw_idx k \<le> truncate_last_idx sz) (i_blocks n), i_size := sz\<rparr>"
  have drop_iff: "truncate_last_idx sz < k \<longleftrightarrow> k \<noteq> 0 \<and> unat sz \<le> unat k * 2 ^ 20" for k
    using truncate_last_idx_iff [of k sz] by auto
  have sz: "set_attr_size (sa_size r) ?m = (?n6, ?dropped)"
    using assms(2,3) by (simp add: set_attr_size_def set_size_def Let_def drop_iff)
  have t: "req_time (sa_atime_s r) (sa_atime_ns r) (i_atime n) = Some (i_atime n)"
    "req_time (sa_mtime_s r) (sa_mtime_ns r) (i_mtime n) = Some (i_mtime n)"
    using assms(4,5) by (simp_all add: req_time_def)
  show ?thesis unfolding meta_set_attr_ok [OF assms(1) t sz] Let_def by simp
qed

text \<open>
  C32. Truncation.  A SetAttr that shrinks a file keeps exactly the blocks that start
  before the new end, and block 0 always; it keeps their placements and the
  generation, and its delete tasks are exactly those for the dropped blocks on all
  their nodes with a known address.  In particular shrinking to zero keeps block 0 and
  its bytes on the stores.
\<close>

theorem truncate_effect:
  assumes "inodes s (InodeId (sa_ino r)) = Some n" and "sa_size r = Some sz" and "sz < i_size n"
    and "sa_atime_s r = None" and "sa_mtime_s r = None"
  shows "\<exists>s' n' a. meta_set_attr token now r s = (s',
      fire_delete_blocks (filter (\<lambda>(k, p). raw_idx k \<noteq> 0 \<and> unat sz \<le> unat (raw_idx k) * 2 ^ 20) (i_blocks n))
        (node_addrs_of s) (InodeId (sa_ino r)) token, Ok (Some a))
    \<and> inodes s' = (inodes s)(InodeId (sa_ino r) \<mapsto> n') \<and> dirs s' = dirs s
    \<and> i_size n' = sz \<and> at_size a = sz \<and> i_generation n' = i_generation n
    \<and> (\<forall>k. bt_get (i_blocks n') k =
         (if raw_idx k = 0 \<or> unat (raw_idx k) * 2 ^ 20 < unat sz then bt_get (i_blocks n) k else None))"
proof -
  have at: "at_size (build_attr m) = i_size m" for m
    by (simp add: build_attr_def Let_def split: prod.split)
  show ?thesis
    unfolding truncate_result [OF assms] Let_def
    by (simp add: ns_simps at truncate_last_idx_iff) (rule exI, rule conjI, rule refl, simp)
qed

definition sample_alloc :: meta_state where
  "sample_alloc = put_inode (InodeId 2) (new_file_inode 0 (InodeId 2)
     \<lparr> cr_parent_ino = 1, cr_name = ''f'', cr_mode = 420, cr_uid = 0, cr_gid = 0 \<rparr>
     \<lparr>i_size := 2 ^ 21, i_blocks := [(BlockIdx 0, \<lparr> primary = NodeId ''a'', replicas = [] \<rparr>),
        (BlockIdx 1, \<lparr> primary = NodeId ''b'', replicas = [] \<rparr>)]\<rparr>) sample_state"

theorem truncate_effect_witness:
  "\<exists>s' n' tasks a. meta_set_attr ''t'' 5 \<lparr> sa_ino = 2, sa_size = Some 0, sa_mode = None, sa_uid = None, sa_gid = None,
      sa_atime_s = None, sa_atime_ns = None, sa_mtime_s = None, sa_mtime_ns = None \<rparr> sample_alloc = (s', tasks, Ok (Some a))
    \<and> inodes s' (InodeId 2) = Some n' \<and> bt_get (i_blocks n') (BlockIdx 0) \<noteq> None \<and> bt_get (i_blocks n') (BlockIdx 1) = None"
proof -
  let ?r = "\<lparr> sa_ino = 2, sa_size = Some 0, sa_mode = None, sa_uid = None, sa_gid = None,
      sa_atime_s = None, sa_atime_ns = None, sa_mtime_s = None, sa_mtime_ns = None \<rparr> :: set_attr_req"
  obtain n where n: "inodes sample_alloc (InodeId (sa_ino ?r)) = Some n" "i_size n = 2 ^ 21"
    "bt_get (i_blocks n) (BlockIdx 0) \<noteq> None" "bt_get (i_blocks n) (BlockIdx 1) \<noteq> None"
    by (simp add: sample_alloc_def ns_simps bt_get_def)
  then have "0 < i_size n" by simp
  from truncate_effect [OF n(1) _ this, of "''t''" 5] n show ?thesis by force
qed

section \<open>Nodes\<close>

definition same_nodes :: "meta_state \<Rightarrow> meta_state \<Rightarrow> bool" where
  "same_nodes s t \<longleftrightarrow> nodes t = nodes s \<and> last_heartbeat t = last_heartbeat s"

lemma same_nodes_create: "same_nodes s (fst (meta_create now r s))"
  by (cases rule: meta_create_cases [of now r s]) (auto simp: meta_create_ok Let_def same_nodes_def)

lemma same_nodes_mkdir: "same_nodes s (fst (meta_mkdir now r s))"
  by (auto simp: meta_mkdir_def Let_def alloc_ino_def with_dir_def same_nodes_def split: option.split)

lemma same_nodes_unlink: "same_nodes s (fst (meta_unlink token r s))"
  by (auto simp: meta_unlink_def Let_def with_dir_def same_nodes_def split: option.split)

lemma same_nodes_rmdir: "same_nodes s (fst (meta_rmdir r s))"
  by (auto simp: meta_rmdir_def Let_def with_dir_def same_nodes_def split: option.split)

lemma same_nodes_drop_dst: "same_nodes s (fst (rename_drop_dst dp dn s))"
  by (auto simp: rename_drop_dst_def rename_finish_dst_def with_dir_def Let_def same_nodes_def
      split: option.split inode_kind.split)

lemma same_nodes_rename: "same_nodes s (fst (meta_rename token r s))"
proof -
  obtain s1 v where s1: "rename_drop_dst (InodeId (rn_dst_parent_ino r)) (rn_dst_name r) s = (s1, v)"
    by fastforce
  have "same_nodes s s1"
    using same_nodes_drop_dst [of s "InodeId (rn_dst_parent_ino r)" "rn_dst_name r"] s1 by simp
  then show ?thesis
    by (cases v) (auto simp: meta_rename_def s1 Let_def with_dir_def same_nodes_def
        split: option.split prod.split)
qed

lemma same_nodes_close: "same_nodes s (fst (meta_close now r s))"
  by (auto simp: meta_close_def Let_def same_nodes_def split: option.split)

lemma same_nodes_set_attr: "same_nodes s (fst (meta_set_attr token now r s))"
  using meta_set_attr_core [of s r _ token now] meta_set_attr_missing [of s r token now]
  by (cases "inodes s (InodeId (sa_ino r))") (auto simp: same_nodes_def)

lemma same_nodes_allocate: "same_nodes s (fst (meta_allocate_blocks xxh3 r s))"
proof (cases "inodes s (InodeId (al_ino r))")
  case None
  then show ?thesis by (simp add: meta_allocate_blocks_def Let_def same_nodes_def)
next
  case (Some n)
  then show ?thesis by (simp add: meta_allocate_blocks_eq [OF Some refl refl] same_nodes_def)
qed

lemmas same_nodes_handlers = same_nodes_create same_nodes_mkdir same_nodes_unlink same_nodes_rmdir
  same_nodes_rename same_nodes_close same_nodes_set_attr same_nodes_allocate

text \<open>
  The instant of a node's last heartbeat along a run, and whether every tick of the
  watcher comes no later than its patience after it.
\<close>

fun heard :: "node_id \<Rightarrow> meta_op list \<Rightarrow> instant \<Rightarrow> bool" where
  "heard nid [] hb \<longleftrightarrow> True"
| "heard nid (OpHeartbeat now r # ops) hb \<longleftrightarrow> heard nid ops (if NodeId (hb_node_id r) = nid then now else hb)"
| "heard nid (OpTick now dead_after # ops) hb \<longleftrightarrow> now - hb \<le> dead_after \<and> heard nid ops hb"
| "heard nid (x # ops) hb \<longleftrightarrow> heard nid ops hb"

definition node_up :: "node_id \<Rightarrow> instant \<Rightarrow> meta_state \<Rightarrow> bool" where
  "node_up nid hb s \<longleftrightarrow> nodes_wf s \<and> nid \<in> set (live_nodes s) \<and> hm_get (last_heartbeat s) nid = Some hb"

lemma node_up_cong: "same_nodes s t \<Longrightarrow> node_up nid hb s \<Longrightarrow> node_up nid hb t"
  by (simp add: node_up_def same_nodes_def nodes_wf_def live_nodes_def)

lemma nodes_wf_heartbeat: "nodes_wf s \<Longrightarrow> nodes_wf (fst (meta_heartbeat_node now r s))"
  by (simp add: nodes_wf_def meta_heartbeat_node_def Let_def hm_wf_insert)

lemma heartbeat_live:
  assumes "nodes_wf s"
  shows "nid \<in> set (live_nodes (fst (meta_heartbeat_node now r s)))
    \<longleftrightarrow> nid = NodeId (hb_node_id r) \<or> nid \<in> set (live_nodes s)"
  unfolding live_nodes_iff [OF nodes_wf_heartbeat [OF assms]] live_nodes_iff [OF assms]
  by (auto simp: meta_heartbeat_node_def Let_def)

lemma tick_live:
  assumes "nodes_wf s"
  shows "nid \<in> set (live_nodes (heartbeat_tick now d s))
    \<longleftrightarrow> nid \<in> set (live_nodes s) \<and> now - the (hm_get (last_heartbeat s) nid) \<le> d"
  unfolding live_nodes_iff [OF heartbeat_tick_nodes_wf [OF assms]] live_nodes_iff [OF assms]
    heartbeat_tick_get [OF assms]
  by (auto split: option.splits if_splits)

lemma node_up_step:
  assumes up: "node_up nid hb s" and ops: "heard nid (x # ops) hb"
  obtains hb' where "node_up nid hb' (meta_exec xxh3 token x s)" "heard nid ops hb'"
proof -
  have wf: "nodes_wf s" using up by (simp add: node_up_def)
  have same: "node_up nid hb t" if "same_nodes s t" for t using node_up_cong [OF that up] .
  show thesis
  proof (cases x)
    case (OpHeartbeat now r)
    then show thesis
      using that [of "if NodeId (hb_node_id r) = nid then now else hb"] up ops
        heartbeat_live [OF wf] nodes_wf_heartbeat [OF wf]
      by (auto simp: node_up_def meta_heartbeat_node_def Let_def split: if_splits)
  next
    case (OpTick now d)
    then show thesis
      using that [of hb] up ops tick_live [OF wf] heartbeat_tick_nodes_wf [OF wf] by (simp add: node_up_def)
  next
    case (OpRegister r g)
    then show thesis
      using that [of hb] same ops by (simp add: same_nodes_def open_register_def alloc_fh_def Let_def)
  qed (use that [of hb] same same_nodes_handlers ops in auto)
qed

lemma node_up_run:
  assumes "node_up nid hb s" and "heard nid ops hb"
  shows "\<exists>hb'. node_up nid hb' (meta_run xxh3 token ops s)"
  using assms
proof (induction ops arbitrary: s hb)
  case Nil
  then show ?case by (auto simp: meta_run_def)
next
  case (Cons x xs)
  obtain hb' where "node_up nid hb' (meta_exec xxh3 token x s)" "heard nid xs hb'"
    using node_up_step [OF Cons.prems] .
  from Cons.IH [OF this] show ?case by (simp add: meta_run_def)
qed

text \<open>
  C30. Heard nodes stay in the placement.  After a node's heartbeat, and through any
  further requests, heartbeats and watcher ticks in which no tick comes later than the
  watcher's patience after that node's last heartbeat, the node is among the live nodes,
  even if it had been marked down before.
\<close>

theorem heard_node_stays_live:
  assumes "nodes_wf s" and "heard (NodeId (hb_node_id r)) ops now"
  shows "NodeId (hb_node_id r) \<in> set (live_nodes (meta_run xxh3 token (OpHeartbeat now r # ops) s))"
proof -
  have "node_up (NodeId (hb_node_id r)) now (fst (meta_heartbeat_node now r s))"
    using heartbeat_live [OF assms(1)] nodes_wf_heartbeat [OF assms(1)]
    by (simp add: node_up_def) (simp add: meta_heartbeat_node_def Let_def)
  from node_up_run [OF this assms(2)] show ?thesis
    by (auto simp: meta_run_def node_up_def)
qed

abbreviation sample_beat :: heartbeat_req where
  "sample_beat \<equiv> \<lparr> hb_node_id = ''n1'', hb_addr = ''h:1'', hb_used_bytes = 0, hb_capacity_bytes = 9, hb_epoch_s = 0 \<rparr>"

theorem heard_node_stays_live_witness:
  "NodeId ''n1'' \<in> set (live_nodes (meta_run (\<lambda>_ _. 0) []
     [OpHeartbeat 10 sample_beat, OpTick 14 5, OpHeartbeat 15 sample_beat, OpTick 19 5] (meta_new 0 2)))"
proof -
  have "nodes_wf (meta_new 0 2)" using meta_wf_nodes [OF meta_wf_new] .
  from heard_node_stays_live [OF this, of sample_beat "[OpTick 14 5, OpHeartbeat 15 sample_beat, OpTick 19 5]" 10
      "\<lambda>_ _. 0" "[]"] show ?thesis by simp
qed

text \<open>
  New blocks go to nodes that were heard.  Right after a watcher tick, the placement
  of a block that is not yet allocated consists of as many different nodes as the
  replication factor and the number of live nodes allow, and the meta server has a
  heartbeat of each of them that is no older than the watcher's patience.
\<close>

theorem placement_on_heard_nodes:
  assumes "nodes_wf s" and "s' = heartbeat_tick now d s" and "live_nodes s' \<noteq> []" and "0 < replication_factor s'"
    and "p = place_block xxh3 (live_nodes s') (replication_factor s') ino idx"
  shows "distinct (primary p # replicas p)
    \<and> length (primary p # replicas p) = min (replication_factor s') (length (live_nodes s'))
    \<and> (\<forall>nid \<in> set (primary p # replicas p). \<exists>hb. hm_get (last_heartbeat s') nid = Some hb \<and> now - hb \<le> d)"
proof -
  let ?key = "\<lparr> bk_ino = ino, bk_block_idx = idx, bk_generation = Generation 0 \<rparr>"
  have wf': "nodes_wf s'" using heartbeat_tick_nodes_wf [OF assms(1)] assms(2) by simp
  have p: "primary p # replicas p = pick_nodes xxh3 ?key (live_nodes s') (replication_factor s')"
    unfolding assms(5) by (rule place_block_nodes [OF assms(3,4)])
  have heard: "\<exists>hb. hm_get (last_heartbeat s') nid = Some hb \<and> now - hb \<le> d"
    if "nid \<in> set (live_nodes s')" for nid
  proof -
    have live: "nid \<in> set (live_nodes s)" and le: "now - the (hm_get (last_heartbeat s) nid) \<le> d"
      using that tick_live [OF assms(1)] assms(2) by blast+
    have "hm_get (last_heartbeat s) nid \<noteq> None"
      using live assms(1) unfolding live_nodes_iff [OF assms(1)] nodes_wf_def by (metis option.distinct(1))
    with le assms(2) show ?thesis by auto
  qed
  show ?thesis
    unfolding p using subsetD [OF pick_nodes_subset] heard
    by (simp add: pick_nodes_distinct [OF live_nodes_distinct [OF wf']] pick_nodes_length)
qed

theorem placement_on_heard_nodes_witness:
  "\<exists>s' p. s' = heartbeat_tick 12 5 (fst (meta_heartbeat_node 10 sample_beat (meta_new 0 2)))
     \<and> p = place_block (\<lambda>_ _. 0) (live_nodes s') (replication_factor s') (InodeId 2) (BlockIdx 0)
     \<and> (\<exists>hb. hm_get (last_heartbeat s') (primary p) = Some hb \<and> 12 - hb \<le> 5)"
proof -
  let ?s = "fst (meta_heartbeat_node 10 sample_beat (meta_new 0 2))"
  let ?s' = "heartbeat_tick 12 5 ?s"
  let ?p = "place_block (\<lambda>_ _. 0) (live_nodes ?s') (replication_factor ?s') (InodeId 2) (BlockIdx 0)"
  have wf: "nodes_wf ?s" using nodes_wf_heartbeat [OF meta_wf_nodes [OF meta_wf_new]] .
  have "NodeId ''n1'' \<in> set (live_nodes ?s)"
    by (simp add: heartbeat_live [OF meta_wf_nodes [OF meta_wf_new]])
  moreover have "hm_get (last_heartbeat ?s) (NodeId ''n1'') = Some 10"
    by (simp add: meta_heartbeat_node_def Let_def)
  ultimately have "NodeId ''n1'' \<in> set (live_nodes ?s')"
    by (simp add: tick_live [OF wf])
  then have live: "live_nodes ?s' \<noteq> []" by auto
  have rf: "0 < replication_factor ?s'"
    by (simp add: meta_heartbeat_node_def Let_def meta_new_def)
  from placement_on_heard_nodes [OF wf refl live rf refl] show ?thesis by auto
qed

end
