(* ===== verification/Meta_Requests.thy ===== *)
theory Meta_Requests
  imports Meta_Blocks
begin

text \<open>
  Requests of the metadata server one by one: what Unlink, Mkdir and Rmdir do, that no
  namespace request panics, and the requests whose outcome is not what a file system
  promises: a rename onto itself, a rename into a missing directory, an allocation
  without live nodes, an Open that races with Unlink.
\<close>

section \<open>Delete tasks\<close>

lemma node_addrs_of_get:
  assumes "nodes_wf s"
  shows "hm_get (node_addrs_of s) nid = map_option (\<lambda>ni. ''http://'' @ ni_addr ni) (hm_get (nodes s) nid)"
proof -
  have wf: "hm_wf (nodes s)" and ids: "\<And>k ni. (k, ni) \<in> set (nodes s) \<Longrightarrow> ni_node_id ni = k"
    using assms by (auto simp: nodes_wf_def simp flip: hm_get_iff)
  have kvs: "map (\<lambda>n. (ni_node_id n, ''http://'' @ ni_addr n)) (map snd (nodes s))
      = map (\<lambda>(k, ni). (k, ''http://'' @ ni_addr ni)) (nodes s)"
    using ids by auto
  have "distinct (map fst (nodes s))" using wf by (simp add: hm_wf_def)
  then have "distinct (map fst (map (\<lambda>(k, ni). (k, ''http://'' @ ni_addr ni)) (nodes s)))"
    by (simp add: comp_def split_def)
  from hm_get_collect_distinct [OF this] show ?thesis
    unfolding node_addrs_of_def kvs by (simp add: hm_get_def map_of_map)
qed

lemma set_fire_delete_blocks:
  "t \<in> set (fire_delete_blocks blocks addrs ino token) \<longleftrightarrow>
     (\<exists>idx p nid addr. (idx, p) \<in> set blocks \<and> nid \<in> set (primary p # replicas p) \<and> hm_get addrs nid = Some addr
        \<and> t = \<lparr> dt_addr = addr, dt_ino = ino, dt_idx = idx, dt_token = token \<rparr>)"
proof -
  have opt: "set (case o' of None \<Rightarrow> [] | Some a \<Rightarrow> [f a]) = {x. \<exists>a. o' = Some a \<and> x = f a}"
    for o' :: "'x option" and f :: "'x \<Rightarrow> 'y"
    by (cases o') auto
  show ?thesis
    unfolding fire_delete_blocks_def set_concat set_map image_image split_def opt UN_iff mem_Collect_eq
    by (metis (no_types) fst_conv snd_conv surjective_pairing)
qed

section \<open>Unlink\<close>

text \<open>
  Unlink.  Unlink of a name that leads to a file removes that entry and its inode
  and nothing else; Lookup of the name then fails; and it spawns a delete task for
  exactly the pairs of a block of the file and a node of the block's placement whose
  address is known.
\<close>

theorem unlink_effect:
  assumes "meta_wf s" and "entry s (InodeId p) name = Some c" and "inodes s c = Some n" and "i_kind n \<noteq> Dir"
  shows "\<exists>s' tasks. meta_unlink token \<lparr> ul_parent_ino = p, ul_name = name \<rparr> s = (s', tasks, Ok ())
    \<and> meta_lookup \<lparr> lk_parent_ino = p, lk_name = name \<rparr> s' = Err not_found
    \<and> (\<forall>q m. (q, m) \<noteq> (InodeId p, name) \<longrightarrow> entry s' q m = entry s q m)
    \<and> inodes s' = (inodes s)(c := None) \<and> open_handles s' = open_handles s
    \<and> (\<forall>t. t \<in> set tasks \<longleftrightarrow> (\<exists>idx pl nid ni. bt_get (i_blocks n) idx = Some pl \<and> nid \<in> set (primary pl # replicas pl)
         \<and> hm_get (nodes s) nid = Some ni
         \<and> t = \<lparr> dt_addr = ''http://'' @ ni_addr ni, dt_ino = c, dt_idx = idx, dt_token = token \<rparr>))"
proof -
  let ?r = "\<lparr> ul_parent_ino = p, ul_name = name \<rparr>"
  obtain d where d: "dirs s (InodeId p) = Some d" using entry_SomeD [OF assms(2)] by blast
  have c: "dirs s c = None" by (rule non_dir_no_table [OF assms(1,3,4)])
  have ne: "InodeId p \<noteq> c" using c d by auto
  have bw: "bt_wf (i_blocks n)"
    using inodes_wfD [OF meta_wf_inodes [OF assms(1)] assms(3)] by simp
  have eq: "meta_unlink token ?r s = (detach (InodeId p) name d c s,
      fire_delete_blocks (i_blocks n) (node_addrs_of s) c token, Ok ())"
    using meta_unlink_ok [OF assms(1), of ?r c d n token] assms(2-4) d by simp
  have ent: "entry (detach (InodeId p) name d c s) q m = (if (q, m) = (InodeId p, name) then None else entry s q m)" for q m
    using ne c d by (auto simp: entry_def detach_def)
  have "t \<in> set (fire_delete_blocks (i_blocks n) (node_addrs_of s) c token) \<longleftrightarrow>
      (\<exists>idx pl nid ni. bt_get (i_blocks n) idx = Some pl \<and> nid \<in> set (primary pl # replicas pl)
         \<and> hm_get (nodes s) nid = Some ni
         \<and> t = \<lparr> dt_addr = ''http://'' @ ni_addr ni, dt_ino = c, dt_idx = idx, dt_token = token \<rparr>)" for t
    unfolding set_fire_delete_blocks bt_get_iff [OF bw] node_addrs_of_get [OF meta_wf_nodes [OF assms(1)]]
      map_option_eq_Some by blast
  then show ?thesis
    unfolding eq by (auto simp: ent meta_lookup_def) (simp_all add: detach_def)
qed

theorem unlink_effect_witness:
  "\<exists>s' tasks. meta_unlink ''t'' \<lparr> ul_parent_ino = 1, ul_name = ''f'' \<rparr> sample_state = (s', tasks, Ok ())
     \<and> meta_lookup \<lparr> lk_parent_ino = 1, lk_name = ''f'' \<rparr> s' = Err not_found"
proof -
  have "entry sample_state (InodeId 1) ''f'' = Some (InodeId 2)" by (simp add: sample_entry)
  moreover obtain n where "inodes sample_state (InodeId 2) = Some n" "i_kind n \<noteq> Dir"
    by (simp add: sample_file new_file_inode_def)
  ultimately show ?thesis
    using unlink_effect [of sample_state 1 "''f''" "InodeId 2" n "''t''"] sample_state_ok by auto
qed

section \<open>Mkdir and Rmdir\<close>

lemma bt_remove_insert: "bt_get d k = None \<Longrightarrow> bt_remove k (bt_insert k v d) = d"
proof (induction d)
  case Nil
  then show ?case by (simp add: bt_remove_def)
next
  case (Cons x d)
  obtain k' v' where x: "x = (k', v')" by fastforce
  have "k \<noteq> k'" and "bt_get d k = None"
    using Cons.prems x by (auto simp: bt_get_def split: if_splits)
  moreover have "filter (\<lambda>(k', v). k' \<noteq> k) d = d"
    using \<open>bt_get d k = None\<close> by (auto simp: filter_id_conv bt_get_def map_of_eq_None_iff rev_image_eqI)
  ultimately show ?case
    using Cons.IH x by (auto simp: bt_remove_def)
qed

text \<open>
  Mkdir and Rmdir.  Mkdir under a free name of an existing directory makes an empty
  directory that Lookup and ReadDir find; Rmdir of that name then succeeds and gives
  back exactly the inodes and directories there were before, the link count of the
  parent included.
\<close>

theorem mkdir_rmdir_roundtrip:
  assumes "meta_wf s" and "dirs s (InodeId p) = Some d" and "bt_get d name = None"
    and "inodes s (InodeId p) = Some pn" and "i_nlink pn + 1 \<noteq> 0"
  shows "\<exists>s1 s2 a. meta_mkdir now \<lparr> mk_parent_ino = p, mk_name = name, mk_mode = mode, mk_uid = uid, mk_gid = gid \<rparr> s = (s1, Ok a)
    \<and> meta_lookup \<lparr> lk_parent_ino = p, lk_name = name \<rparr> s1 = Ok (Some a)
    \<and> meta_read_dir \<lparr> rq_ino = at_ino a, rq_cookie = [], rq_max_entries = 0 \<rparr> s1
        = Ok \<lparr> rr_entries = [], rr_next_cookie = [], rr_eof = True \<rparr>
    \<and> map_option i_nlink (inodes s1 (InodeId p)) = Some (i_nlink pn + 1)
    \<and> meta_rmdir \<lparr> rd_parent_ino = p, rd_name = name \<rparr> s1 = (s2, Ok ())
    \<and> inodes s2 = inodes s \<and> dirs s2 = dirs s"
proof -
  let ?r = "\<lparr> mk_parent_ino = p, mk_name = name, mk_mode = mode, mk_uid = uid, mk_gid = gid \<rparr>"
  let ?ino = "InodeId (next_ino s)"
  let ?n = "new_dir_inode now ?ino ?r"
  let ?s1 = "modify_inode (InodeId p) nlink_inc (s\<lparr>next_ino := next_ino s + 1, inodes := (inodes s)(?ino \<mapsto> ?n),
          dirs := (dirs s)(?ino \<mapsto> [], InodeId p \<mapsto> bt_insert name ?ino d)\<rparr>)"
  note fresh = fresh_ino [OF meta_wf_inodes [OF assms(1)]] fresh_dir [OF assms(1)]
  have ne: "p \<noteq> next_ino s" "InodeId p \<noteq> ?ino" using fresh(2) assms(2) by auto
  have mk: "meta_mkdir now ?r s = (?s1, Ok (build_attr ?n))"
    using meta_mkdir_ok [of s ?r d now] assms(2,3) fresh(2) by (simp add: bt_contains_def Let_def)
  have e: "entry ?s1 (InodeId p) name = Some ?ino" by (simp add: ns_simps) (simp add: entry_def)
  have d1: "dirs ?s1 (InodeId p) = Some (bt_insert name ?ino d)" "dirs ?s1 ?ino = Some []" using ne by simp_all
  have nl: "nlink_dec (nlink_inc pn) = pn"
    using assms(5) by (simp add: nlink_dec_def nlink_inc_def saturating_sub_def word_less_1)
  let ?s2 = "modify_inode (InodeId p) nlink_dec (detach (InodeId p) name (bt_insert name ?ino d) ?ino ?s1)"
  have rm: "meta_rmdir \<lparr> rd_parent_ino = p, rd_name = name \<rparr> ?s1 = (?s2, Ok ())"
    using meta_rmdir_ok [of ?s1 "\<lparr> rd_parent_ino = p, rd_name = name \<rparr>" ?ino "bt_insert name ?ino d"] e d1 by simp
  have "inodes ?s2 = inodes s"
    by (rule ext) (use ne fresh assms(4) in \<open>auto simp: ns_simps detach_def nl\<close>)
  moreover have "dirs ?s2 = dirs s"
    by (rule ext) (use ne fresh assms(2) in \<open>auto simp: detach_def bt_remove_insert [OF assms(3)]\<close>)
  moreover have "meta_lookup \<lparr> lk_parent_ino = p, lk_name = name \<rparr> ?s1 = Ok (Some (build_attr ?n))"
    using e ne by (simp add: meta_lookup_def ns_simps)
  moreover have "at_ino (build_attr ?n) = next_ino s"
    by (simp add: build_attr_def new_dir_inode_def Let_def split: prod.split)
  ultimately show ?thesis
    unfolding mk using rm d1 ne assms(4)
    by (simp add: meta_read_dir_def Let_def ns_simps usize_max_def nlink_inc_def)
qed

theorem mkdir_rmdir_roundtrip_witness:
  "\<exists>s1 s2 a. meta_mkdir 0 \<lparr> mk_parent_ino = 1, mk_name = ''d'', mk_mode = 493, mk_uid = 0, mk_gid = 0 \<rparr> (meta_new 0 2) = (s1, Ok a)
     \<and> meta_rmdir \<lparr> rd_parent_ino = 1, rd_name = ''d'' \<rparr> s1 = (s2, Ok ()) \<and> inodes s2 = inodes (meta_new 0 2)"
proof -
  have d: "dirs (meta_new 0 2) (InodeId 1) = Some []" and n: "inodes (meta_new 0 2) (InodeId 1) = Some (root_inode 0)"
    and l: "i_nlink (root_inode 0) + 1 \<noteq> 0" and g: "bt_get ([] :: dir) ''d'' = None"
    by (simp_all add: meta_new_def ROOT_def root_inode_def)
  from mkdir_rmdir_roundtrip [OF meta_wf_new d g n l, of 0 493 0 0] show ?thesis by blast
qed

section \<open>Panics\<close>

lemma rename_finish_keeps_dirs:
  "dirs t dp \<noteq> None \<Longrightarrow> dirs t p \<noteq> None
     \<Longrightarrow> dirs (fst (rename_finish_dst dp dn c v t)) p \<noteq> None \<and> snd (rename_finish_dst dp dn c v t) \<noteq> Panic"
  by (auto simp: rename_finish_dst_def Let_def with_dir_def split: option.split)

lemma rename_drop_dst_keeps_dirs:
  assumes "dirs s p \<notin> {None, Some []}"
  shows "dirs (fst (rename_drop_dst dp dn s)) p \<noteq> None \<and> snd (rename_drop_dst dp dn s) \<noteq> Panic"
proof (cases "entry s dp dn")
  case None
  then show ?thesis using assms by (simp add: rename_drop_dst_free)
next
  case (Some c)
  obtain d where d: "dirs s dp = Some d" "d \<noteq> []" using entry_SomeD [OF Some] by blast
  show ?thesis
  proof (cases "inodes s c")
    case None
    then show ?thesis using Some assms by (simp add: rename_drop_dst_def)
  next
    case n: (Some n)
    have neq: "dp \<noteq> c \<and> p \<noteq> c" if "dirs s c = None \<or> dirs s c = Some []"
      using that assms d by auto
    have fin: "dirs (fst (rename_finish_dst dp dn c v s)) p \<noteq> None \<and> snd (rename_finish_dst dp dn c v s) \<noteq> Panic"
      for v :: "(block_idx \<times> block_placement) list \<times> inode_id option"
      by (rule rename_finish_keeps_dirs) (use d assms in auto)
    show ?thesis
    proof (cases "i_kind n = Dir")
      case False
      then show ?thesis
        using Some n fin by (cases "i_kind n") (simp_all add: rename_drop_dst_def)
    next
      case True
      let ?t = "modify_inode dp nlink_dec (s\<lparr>dirs := (dirs s)(c := None)\<rparr>)"
      show ?thesis
      proof (cases "dirs s c = None \<or> dirs s c = Some []")
        case empty: True
        have "dirs ?t dp \<noteq> None" "dirs ?t p \<noteq> None" using neq [OF empty] d assms by auto
        from rename_finish_keeps_dirs [OF this, where v = "([], None) :: (block_idx \<times> block_placement) list \<times> inode_id option"]
        show ?thesis
          using Some n True empty by (auto simp: rename_drop_dst_def Let_def)
      next
        case False
        then show ?thesis
          using Some n True assms by (auto simp: rename_drop_dst_def split: option.split)
      qed
    qed
  qed
qed

lemma rename_not_Panic: "snd (snd (meta_rename token r s)) \<noteq> Panic"
proof (cases "entry s (InodeId (rn_src_parent_ino r)) (rn_src_name r)")
  case None
  then show ?thesis by (simp add: meta_rename_def)
next
  case (Some c)
  obtain s1 v where s1: "rename_drop_dst (InodeId (rn_dst_parent_ino r)) (rn_dst_name r) s = (s1, v)"
    by fastforce
  have "dirs s (InodeId (rn_src_parent_ino r)) \<notin> {None, Some []}"
    using entry_SomeD [OF Some] by auto
  from rename_drop_dst_keeps_dirs [OF this, of "InodeId (rn_dst_parent_ino r)" "rn_dst_name r"]
  have "dirs s1 (InodeId (rn_src_parent_ino r)) \<noteq> None" "v \<noteq> Panic"
    by (simp_all add: s1)
  then show ?thesis
    by (cases v) (auto simp: meta_rename_def Some s1 Let_def with_dir_def split: option.split prod.split)
qed

lemma close_Panic_iff:
  "snd (meta_close now r s) = Panic \<longleftrightarrow>
     (\<exists>h n. open_handles s (cl_fh r) = Some h \<and> inodes s (oh_ino h) = Some n \<and> cl_written_block_idxs r \<noteq> []
        \<and> i_generation n = Generation (cl_expected_generation r)
        \<and> (unix_time (cl_mtime_s r) (cl_mtime_ns r) = None \<or> time_sub now (60 * nanos_per_sec) = None))"
  by (auto simp: meta_close_def Let_def split: option.splits)

lemma set_attr_Panic_iff:
  "snd (snd (meta_set_attr token now r s)) = Panic \<longleftrightarrow>
     (\<exists>n. inodes s (InodeId (sa_ino r)) = Some n \<and> (req_time (sa_atime_s r) (sa_atime_ns r) (i_atime n) = None
        \<or> req_time (sa_mtime_s r) (sa_mtime_ns r) (i_mtime n) = None))"
proof (cases "inodes s (InodeId (sa_ino r))")
  case None
  then show ?thesis by (simp add: meta_set_attr_missing)
next
  case (Some n)
  show ?thesis
  proof (cases "req_time (sa_atime_s r) (sa_atime_ns r) (i_atime n) = None
      \<or> req_time (sa_mtime_s r) (sa_mtime_ns r) (i_mtime n) = None")
    case True
    with meta_set_attr_panic [OF Some, of token now] Some show ?thesis by auto
  next
    case False
    then obtain ta tm where t: "req_time (sa_atime_s r) (sa_atime_ns r) (i_atime n) = Some ta"
      "req_time (sa_mtime_s r) (sa_mtime_ns r) (i_mtime n) = Some tm" by auto
    obtain n6 dropped where sz:
      "set_attr_size (sa_size r) ((set_attr_fields r n)\<lparr>i_atime := ta, i_mtime := tm\<rparr>) = (n6, dropped)"
      by fastforce
    show ?thesis using meta_set_attr_ok [OF Some t sz, of token now] Some t by simp
  qed
qed

text \<open>
  C36. Panics.  Create, Mkdir, Unlink, Rmdir and Rename panic in no state: whenever one
  of them unwraps a directory, the directory is there.  SetAttr and Close panic exactly
  when the inode they work on exists and a time they were given, or for Close the clock,
  is outside the range of the system time.
\<close>

theorem meta_panics:
  "snd (meta_create now cr s) \<noteq> Panic \<and> snd (meta_mkdir now mk s) \<noteq> Panic
   \<and> snd (snd (meta_unlink token ul s)) \<noteq> Panic \<and> snd (meta_rmdir rd s) \<noteq> Panic
   \<and> snd (snd (meta_rename token rn s)) \<noteq> Panic
   \<and> (snd (snd (meta_set_attr token now sa s)) = Panic \<longleftrightarrow>
        (\<exists>n. inodes s (InodeId (sa_ino sa)) = Some n \<and> (req_time (sa_atime_s sa) (sa_atime_ns sa) (i_atime n) = None
           \<or> req_time (sa_mtime_s sa) (sa_mtime_ns sa) (i_mtime n) = None)))
   \<and> (snd (meta_close now cl s) = Panic \<longleftrightarrow>
        (\<exists>h n. open_handles s (cl_fh cl) = Some h \<and> inodes s (oh_ino h) = Some n \<and> cl_written_block_idxs cl \<noteq> []
           \<and> i_generation n = Generation (cl_expected_generation cl)
           \<and> (unix_time (cl_mtime_s cl) (cl_mtime_ns cl) = None \<or> time_sub now (60 * nanos_per_sec) = None)))"
proof (intro conjI)
  show "snd (meta_create now cr s) \<noteq> Panic"
    by (cases rule: meta_create_cases [of now cr s]) (auto simp: meta_create_ok Let_def)
  show "snd (meta_mkdir now mk s) \<noteq> Panic"
    by (auto simp: meta_mkdir_def Let_def alloc_ino_def with_dir_def put_inode_def split: option.split)
  show "snd (snd (meta_unlink token ul s)) \<noteq> Panic"
    by (auto simp: meta_unlink_def Let_def with_dir_def entry_def split: option.split)
  show "snd (meta_rmdir rd s) \<noteq> Panic"
    by (cases rule: meta_rmdir_cases [of rd s]) (simp_all add: meta_rmdir_ok)
qed (rule rename_not_Panic set_attr_Panic_iff close_Panic_iff)+

section \<open>Requests that break promises\<close>

text \<open>
  A rename onto itself destroys the file.  Renaming a file to its own name replies
  Ok and sends delete tasks for all blocks of the file; the name is still there, but its
  inode is gone, so that Lookup of the name fails from then on.  (POSIX: renaming a file
  to itself does nothing.)
\<close>

theorem rename_onto_itself:
  assumes "meta_wf s" and "entry s (InodeId p) name = Some c" and "inodes s c = Some n" and "i_kind n = File"
  shows "\<exists>s'. meta_rename token \<lparr> rn_src_parent_ino = p, rn_src_name = name, rn_dst_parent_ino = p, rn_dst_name = name \<rparr> s
        = (s', fire_delete_blocks (i_blocks n) (node_addrs_of s) c token, Ok ())
    \<and> entry s' (InodeId p) name = Some c \<and> inodes s' c = None
    \<and> meta_lookup \<lparr> lk_parent_ino = p, lk_name = name \<rparr> s' = Err not_found"
proof -
  let ?r = "\<lparr> rn_src_parent_ino = p, rn_src_name = name, rn_dst_parent_ino = p, rn_dst_name = name \<rparr>"
  obtain d where d: "dirs s (InodeId p) = Some d" using entry_SomeD [OF assms(2)] by blast
  have k: "i_kind n \<noteq> Dir" using assms(4) by simp
  have c: "dirs s c = None" by (rule non_dir_no_table [OF assms(1,3) k])
  let ?s1 = "detach (InodeId p) name d c s"
  have drop: "rename_drop_dst (InodeId (rn_dst_parent_ino ?r)) (rn_dst_name ?r) s = (?s1, Ok (i_blocks n, Some c))"
    using rename_drop_dst_file [OF assms(1-3) k d] assms(4) by simp
  have e: "entry s (InodeId (rn_src_parent_ino ?r)) (rn_src_name ?r) = Some c" using assms(2) by simp
  let ?d1 = "bt_remove name d"
  have d1: "dirs ?s1 (InodeId (rn_src_parent_ino ?r)) = Some ?d1"
    "((dirs ?s1)(InodeId (rn_src_parent_ino ?r) \<mapsto> bt_remove (rn_src_name ?r) ?d1)) (InodeId (rn_dst_parent_ino ?r))
      = Some (bt_remove name ?d1)"
    by (simp_all add: detach_def)
  let ?s' = "rename_move (InodeId p) name ?d1 (InodeId p) name (bt_remove name ?d1) c ?s1"
  have mv: "?s' = ?s1\<lparr>dirs := (dirs ?s1)(InodeId p \<mapsto> bt_insert name c (bt_remove name ?d1))\<rparr>"
    by (simp add: rename_move_def Let_def)
  have "meta_rename token ?r s = (?s', fire_delete_blocks (i_blocks n) (node_addrs_of s) c token, Ok ())"
    using meta_rename_eq [OF e drop d1, of token] node_addrs_of_cong [of ?s1 s] by simp
  moreover have "entry ?s' (InodeId p) name = Some c" unfolding mv by (simp add: entry_def)
  moreover have "inodes ?s' c = None" unfolding mv by (simp add: detach_def)
  ultimately show ?thesis by (simp add: meta_lookup_def)
qed

theorem rename_onto_itself_witness:
  "\<exists>s' tasks. meta_rename ''t'' \<lparr> rn_src_parent_ino = 1, rn_src_name = ''f'', rn_dst_parent_ino = 1, rn_dst_name = ''f'' \<rparr> sample_state
     = (s', tasks, Ok ()) \<and> meta_lookup \<lparr> lk_parent_ino = 1, lk_name = ''f'' \<rparr> s' = Err not_found"
proof -
  have "entry sample_state (InodeId 1) ''f'' = Some (InodeId 2)" by (simp add: sample_entry)
  moreover obtain n where "inodes sample_state (InodeId 2) = Some n" "i_kind n = File"
    by (simp add: sample_file new_file_inode_def)
  ultimately show ?thesis
    using rename_onto_itself [of sample_state 1 "''f''" "InodeId 2" n "''t''"] sample_state_ok by blast
qed

text \<open>
  A failed rename loses the file.  When the destination directory does not exist,
  Rename replies NotFound, but only after it removed the source entry: the inode stays
  in the table with no name that leads to it.
\<close>

theorem rename_missing_parent:
  assumes "meta_wf s" and "ns_ok (abs_ns s)" and "entry s (InodeId p) name = Some c" and "dirs s (InodeId q) = None"
  shows "\<exists>s'. meta_rename token \<lparr> rn_src_parent_ino = p, rn_src_name = name, rn_dst_parent_ino = q, rn_dst_name = name' \<rparr> s
        = (s', [], Err (st_not_found ''dst parent not found''))
    \<and> inodes s' c = inodes s c \<and> inodes s' c \<noteq> None \<and> (\<forall>x m. entry s' x m \<noteq> Some c)"
proof -
  let ?r = "\<lparr> rn_src_parent_ino = p, rn_src_name = name, rn_dst_parent_ino = q, rn_dst_name = name' \<rparr>"
  obtain d where d: "dirs s (InodeId p) = Some d" using entry_SomeD [OF assms(3)] by blast
  have free: "entry s (InodeId q) name' = None" using assms(4) by (simp add: entry_def)
  have ne: "p \<noteq> q" using d assms(4) by auto
  let ?s' = "s\<lparr>dirs := (dirs s)(InodeId p \<mapsto> bt_remove name d)\<rparr>"
  have "meta_rename token ?r s = (?s', [], Err (st_not_found ''dst parent not found''))"
    using assms(3,4) d ne by (simp add: meta_rename_def rename_drop_dst_free [OF free] with_dir_def)
  moreover have "inodes s c \<noteq> None"
    using ns_ok_edge [OF assms(2), of "InodeId p" name c] assms(3) by (auto simp: ns_simps)
  moreover have "entry ?s' x m \<noteq> Some c" for x m
  proof
    assume "entry ?s' x m = Some c"
    then have "entry s x m = Some c" and "(x, m) \<noteq> (InodeId p, name)"
      using d by (auto simp: entry_def split: if_splits)
    then show False
      using ns_ok_unique [OF assms(2), of "(x, m)" c "(InodeId p, name)"] assms(3) by (simp add: ns_simps)
  qed
  ultimately show ?thesis by simp
qed

theorem rename_missing_parent_witness:
  "\<exists>s'. meta_rename ''t'' \<lparr> rn_src_parent_ino = 1, rn_src_name = ''f'', rn_dst_parent_ino = 9, rn_dst_name = ''g'' \<rparr> sample_state
       = (s', [], Err (st_not_found ''dst parent not found''))
     \<and> inodes s' (InodeId 2) \<noteq> None \<and> (\<forall>x m. entry s' x m \<noteq> Some (InodeId 2))"
proof -
  have "entry sample_state (InodeId 1) ''f'' = Some (InodeId 2)" "dirs sample_state (InodeId 9) = None"
    by (simp_all add: sample_entry sample_dirs)
  then show ?thesis
    using rename_missing_parent [of sample_state 1 "''f''" "InodeId 2" 9 "''t''" "''g''"] sample_state_ok by blast
qed

text \<open>
  An allocation without live nodes is permanent.  When no node is up, AllocateBlocks
  still replies Ok, with the primary \<^verbatim>\<open>"?"\<close> and no replica; after a store has
  joined, asking for the block again still replies with \<^verbatim>\<open>"?"\<close>.
\<close>

theorem allocate_without_nodes:
  assumes "inodes s (InodeId ino) = Some n" and "bt_get (i_blocks n) (BlockIdx i) = None" and "live_nodes s = []"
  shows "\<exists>s1. meta_allocate_blocks xxh3 \<lparr> al_ino = ino, al_block_idxs = [i] \<rparr> s
        = (s1, Ok [\<lparr> bl_block_idx = i, bl_primary = ''?'', bl_replicas = [] \<rparr>])
    \<and> snd (meta_allocate_blocks xxh3 \<lparr> al_ino = ino, al_block_idxs = [i] \<rparr> (fst (meta_heartbeat_node now hb s1)))
        = Ok [\<lparr> bl_block_idx = i, bl_primary = ''?'', bl_replicas = [] \<rparr>]"
proof -
  let ?r = "\<lparr> al_ino = ino, al_block_idxs = [i] \<rparr>"
  let ?p = "\<lparr> primary = NodeId ''?'', replicas = [] \<rparr>"
  let ?n = "n\<lparr>i_blocks := bt_insert (BlockIdx i) ?p (i_blocks n)\<rparr>"
  have n: "inodes s (InodeId (al_ino ?r)) = Some n" using assms(1) by simp
  have 1: "meta_allocate_blocks xxh3 ?r s
      = (put_inode (InodeId ino) ?n s, Ok [\<lparr> bl_block_idx = i, bl_primary = ''?'', bl_replicas = [] \<rparr>])"
    unfolding meta_allocate_blocks_eq [OF n refl refl]
    using assms(2,3) by (simp add: place_block_no_live placement_to_block_loc_def)
  let ?t = "fst (meta_heartbeat_node now hb (put_inode (InodeId ino) ?n s))"
  have t: "inodes ?t (InodeId (al_ino ?r)) = Some ?n"
    by (simp add: meta_heartbeat_node_def Let_def ns_simps)
  have "snd (meta_allocate_blocks xxh3 ?r ?t) = Ok [\<lparr> bl_block_idx = i, bl_primary = ''?'', bl_replicas = [] \<rparr>]"
    unfolding meta_allocate_blocks_eq [OF t refl refl] by (simp add: placement_to_block_loc_def)
  with 1 show ?thesis by simp
qed

theorem allocate_without_nodes_witness:
  "\<exists>s1. meta_allocate_blocks (\<lambda>_ _. 0) \<lparr> al_ino = 2, al_block_idxs = [0] \<rparr> sample_state
     = (s1, Ok [\<lparr> bl_block_idx = 0, bl_primary = ''?'', bl_replicas = [] \<rparr>])"
proof -
  have "inodes sample_state (InodeId 2) = Some (new_file_inode 0 (InodeId 2)
     \<lparr> cr_parent_ino = 1, cr_name = ''f'', cr_mode = 420, cr_uid = 0, cr_gid = 0 \<rparr>)" "live_nodes sample_state = []"
    by (simp_all add: sample_file live_nodes_def)
  from allocate_without_nodes [OF this(1) _ this(2), of 0 "\<lambda>_ _. 0" 0 sample_beat] show ?thesis
    by (simp add: new_file_inode_def) blast
qed

text \<open>
  Open races with Unlink.  Open reads the inode under the read lock and registers its
  handle under the write lock.  When an Unlink of the file runs in between, Open still
  replies with the attributes it read and a handle, but the inode is gone: GetAttr fails
  and every Close of the handle fails with NotFound, so nothing written through it can
  ever be published.
\<close>

theorem open_unlink_race:
  assumes "meta_wf s" and "entry s (InodeId p) name = Some (InodeId i)" and "open_read \<lparr> op_ino = i, op_flags = f \<rparr> s = Ok (a, g, bm)"
    and "s1 = fst (meta_unlink token \<lparr> ul_parent_ino = p, ul_name = name \<rparr> s)"
    and "(fh, s2) = open_register \<lparr> op_ino = i, op_flags = f \<rparr> g s1"
  shows "map_option oh_ino (open_handles s2 fh) = Some (InodeId i) \<and> meta_get_attr i s2 = Err not_found
    \<and> snd (meta_close now \<lparr> cl_fh = fh, cl_ino = i, cl_expected_generation = x, cl_new_size = sz, cl_written_block_idxs = w,
         cl_mtime_s = ms, cl_mtime_ns = mn \<rparr> s2) = Err not_found"
proof -
  obtain n where n: "inodes s (InodeId i) = Some n" "i_kind n = File"
    using assms(3) by (auto simp: open_read_def split: option.splits if_splits)
  obtain d where d: "dirs s (InodeId p) = Some d" using entry_SomeD [OF assms(2)] by blast
  have "s1 = detach (InodeId p) name d (InodeId i) s"
    using meta_unlink_ok [OF assms(1), of "\<lparr> ul_parent_ino = p, ul_name = name \<rparr>" "InodeId i" d n token] assms(2,4) n d by simp
  then have gone: "inodes s1 (InodeId i) = None" by (simp add: detach_def)
  then show ?thesis
    using assms(5) by (auto simp: open_register_def alloc_fh_def Let_def meta_get_attr_def meta_close_def)
qed

theorem open_unlink_race_witness:
  "\<exists>fh s2. (fh, s2) = open_register \<lparr> op_ino = 2, op_flags = 0 \<rparr> (Generation 0)
       (fst (meta_unlink ''t'' \<lparr> ul_parent_ino = 1, ul_name = ''f'' \<rparr> sample_state))
     \<and> open_handles s2 fh \<noteq> None \<and> meta_get_attr 2 s2 = Err not_found"
proof -
  have e: "entry sample_state (InodeId 1) ''f'' = Some (InodeId 2)" by (simp add: sample_entry)
  obtain a bm where rd: "open_read \<lparr> op_ino = 2, op_flags = 0 \<rparr> sample_state = Ok (a, Generation 0, bm)"
    by (simp add: open_read_def sample_file new_file_inode_def)
  obtain fh s2 where reg: "(fh, s2) = open_register \<lparr> op_ino = 2, op_flags = 0 \<rparr> (Generation 0)
       (fst (meta_unlink ''t'' \<lparr> ul_parent_ino = 1, ul_name = ''f'' \<rparr> sample_state))"
    by (metis surj_pair)
  have "map_option oh_ino (open_handles s2 fh) = Some (InodeId 2) \<and> meta_get_attr 2 s2 = Err not_found"
    using open_unlink_race [OF _ e rd refl reg, of 0 0 0 "[]" 0 0] sample_state_ok by blast
  then show ?thesis using reg by auto
qed

end
