(* ===== verification/Cluster.thy ===== *)
theory Cluster
  imports Client_State Meta_Requests Store
begin

text \<open>
  A whole dtmpfs cluster as one world for the clients: the metadata server, the stores
  by the address they listen on, and the delete tasks the metadata server has spawned
  and that have not run yet.  \<open>direct\<close> is a transport that delivers every call to the
  handler of the modelled server, behind its token check, and brings back the reply.  It
  instantiates the client's transport parameter with functions that exist.
\<close>

record cluster =
  cw_meta :: meta_state
  cw_stores :: "string \<rightharpoonup> store_state"
  cw_tasks :: "delete_task list"
  cw_token :: string
  cw_now :: system_time
  cw_instant :: instant

text \<open>A handler that panics ends its task; the caller sees a status.\<close>

definition rpc_of :: "'a reply \<Rightarrow> 'a rpc" where
  "rpc_of r = (case r of Ok a \<Rightarrow> Inr a | Err e \<Rightarrow> Inl e | Panic \<Rightarrow> Inl (Status Cancelled ''h2 stream reset''))"

definition to_meta ::
  "metadata \<Rightarrow> (meta_state \<Rightarrow> meta_state \<times> 'a reply) \<Rightarrow> cluster \<Rightarrow> 'a rpc \<times> cluster" where
  "to_meta md h w =
     (case guarded Some (cw_token w) md h (cw_meta w) of (m, r) \<Rightarrow> (rpc_of r, w\<lparr>cw_meta := m\<rparr>))"

definition to_meta_tasks ::
  "metadata \<Rightarrow> (meta_state \<Rightarrow> meta_state \<times> delete_task list \<times> 'a reply) \<Rightarrow> cluster \<Rightarrow> 'a rpc \<times> cluster" where
  "to_meta_tasks md h w =
     (case check_token Some md (cw_token w) of
        Err e \<Rightarrow> (Inl e, w)
      | Panic \<Rightarrow> (rpc_of Panic, w)
      | Ok _ \<Rightarrow>
          (case h (cw_meta w) of (m, ts, r) \<Rightarrow> (rpc_of r, w\<lparr>cw_meta := m, cw_tasks := cw_tasks w @ ts\<rparr>)))"

definition to_store ::
  "string \<Rightarrow> metadata \<Rightarrow> (store_state \<Rightarrow> store_state \<times> 'a reply) \<Rightarrow> cluster \<Rightarrow> 'a rpc \<times> cluster" where
  "to_store addr md h w =
     (case cw_stores w addr of
        None \<Rightarrow> (Inl (st_unavailable ''tcp connect error''), w)
      | Some st \<Rightarrow>
          (case store_guarded Some (cw_token w) md h st of
             (st', r) \<Rightarrow> (rpc_of r, w\<lparr>cw_stores := (cw_stores w)(addr \<mapsto> st')\<rparr>)))"

definition direct :: "(string \<Rightarrow> u64 \<Rightarrow> u64) \<Rightarrow> cluster transport" where
  "direct xxh3 = \<lparr>
     t_parse = Some,
     t_uri_ok = (\<lambda>_. True),
     t_connect = (\<lambda>addr w. (cw_stores w addr \<noteq> None, w)),
     t_read_block = (\<lambda>addr md r. to_store addr md (\<lambda>st. (st, store_read_block r st))),
     t_write_block = (\<lambda>addr md r. to_store addr md (store_write_block r)),
     t_lookup = (\<lambda>md r. to_meta md (\<lambda>m. (m, meta_lookup r m))),
     t_get_attr = (\<lambda>md ino. to_meta md (\<lambda>m. (m, meta_get_attr ino m))),
     t_set_attr = (\<lambda>md r w. to_meta_tasks md (meta_set_attr (cw_token w) (cw_now w) r) w),
     t_create = (\<lambda>md r w. to_meta md (meta_create (cw_now w) r) w),
     t_mkdir = (\<lambda>md r w. to_meta md (meta_mkdir (cw_now w) r) w),
     t_unlink = (\<lambda>md r w. to_meta_tasks md (meta_unlink (cw_token w) r) w),
     t_rmdir = (\<lambda>md r. to_meta md (meta_rmdir r)),
     t_rename = (\<lambda>md r w. to_meta_tasks md (meta_rename (cw_token w) r) w),
     t_read_dir = (\<lambda>md r. to_meta md (\<lambda>m. (m, meta_read_dir r m))),
     t_open = (\<lambda>md r. to_meta md (meta_open r)),
     t_close = (\<lambda>md r w. to_meta md (meta_close (cw_now w) r) w),
     t_allocate = (\<lambda>md r. to_meta md (meta_allocate_blocks xxh3 r)),
     t_list_nodes = (\<lambda>md. to_meta md (\<lambda>m. (m, meta_list_nodes m))),
     t_now = cw_now,
     t_instant = cw_instant,
     t_attr_kept = (\<lambda>_ _. True),
     t_block_kept = (\<lambda>_ _. True),
     t_invalidate = (\<lambda>_ c. c) \<rparr>"

text \<open>
  A delete task of \<^verbatim>\<open>fire_delete_blocks\<close> when it runs: connect, send
  \<^verbatim>\<open>DeleteBlock\<close> with generation 0, ignore the outcome.
\<close>

definition run_delete_task :: "delete_task \<Rightarrow> cluster \<Rightarrow> cluster" where
  "run_delete_task t w =
     snd (to_store (dt_addr t) [''cluster-token'' \<mapsto> dt_token t]
       (store_delete_block (Some \<lparr> pk_ino = raw (dt_ino t), pk_block_idx = raw_idx (dt_idx t), pk_generation = 0 \<rparr>)) w)"

section \<open>Calls with the right token\<close>

lemma guarded_token [simp]: "guarded Some token [''cluster-token'' \<mapsto> token] h s = h s"
  by (simp add: guarded_def check_token_def)

lemma authed_direct [simp]: "authed (t_parse (direct xxh3)) token = Ok [''cluster-token'' \<mapsto> token]"
  by (simp add: authed_def direct_def)

lemma to_store_token:
  assumes "cw_stores w addr = Some st" and "cw_token w = token"
  shows "to_store addr [''cluster-token'' \<mapsto> token] h w =
    (rpc_of (snd (h st)), w\<lparr>cw_stores := (cw_stores w)(addr \<mapsto> fst (h st))\<rparr>)"
  using assms by (simp add: to_store_def split_def)

lemma to_meta_token:
  assumes "cw_token w = token"
  shows "to_meta [''cluster-token'' \<mapsto> token] h w = (rpc_of (snd (h (cw_meta w))), w\<lparr>cw_meta := fst (h (cw_meta w))\<rparr>)"
  using assms by (simp add: to_meta_def split_def)

lemma direct_simps:
  "t_parse (direct xxh3) = Some" "t_uri_ok (direct xxh3) addr" "t_connect (direct xxh3) addr w = (cw_stores w addr \<noteq> None, w)"
  "t_read_block (direct xxh3) addr md r = to_store addr md (\<lambda>st. (st, store_read_block r st))"
  "t_write_block (direct xxh3) addr md wr = to_store addr md (store_write_block wr)"
  "t_list_nodes (direct xxh3) md = to_meta md (\<lambda>m. (m, meta_list_nodes m))"
  "t_allocate (direct xxh3) md al = to_meta md (meta_allocate_blocks xxh3 al)"
  "t_close (direct xxh3) md cl w = to_meta md (meta_close (cw_now w) cl) w"
  "t_open (direct xxh3) md op = to_meta md (meta_open op)"
  "t_create (direct xxh3) md cr w = to_meta md (meta_create (cw_now w) cr) w"
  "t_block_kept (direct xxh3) w k" "t_now (direct xxh3) w = cw_now w"
  "t_invalidate (direct xxh3) P c = c" "t_rmdir (direct xxh3) md rd = to_meta md (meta_rmdir rd)"
  "t_read_dir (direct xxh3) md rq = to_meta md (\<lambda>m. (m, meta_read_dir rq m))"
  by (simp_all add: direct_def)

end
