(* ===== verification/Client_Fetch.thy ===== *)
theory Client_Fetch
  imports Client_Data Cluster
begin

text \<open>
  \<^verbatim>\<open>fetch_block\<close> as a block source.  What the client needs of the world is stated
  about the transport: the nodes of a placement either answer with the block or fail,
  and one of them answers.  Then a fetch returns the block, whatever of it is in the
  cache and whichever connections are in the pool, and the loops of the client read and
  write the file's bytes.
\<close>

section \<open>Nodes that answer and nodes that fail\<close>

text \<open>
  \<open>W\<close> is an invariant of the world that the calls keep, \<open>M\<close> the address of every
  node, \<open>md\<close> the metadata that the client sends.  A node that has never stored a block
  answers NotFound, which the client takes for a block of zeros.
\<close>

definition answers ::
  "'w transport \<Rightarrow> ('w \<Rightarrow> bool) \<Rightarrow> (node_id, string) hmap \<Rightarrow> metadata \<Rightarrow> u64 \<Rightarrow> inode_id \<Rightarrow> (block_idx \<Rightarrow> bytes)
     \<Rightarrow> block_idx \<Rightarrow> node_id \<Rightarrow> bool" where
  "answers T W M md bs ino base idx nid \<longleftrightarrow> (\<exists>addr. hm_get M nid = Some addr \<and> t_uri_ok T addr \<and>
     (\<forall>w. W w \<longrightarrow> fst (t_connect T addr w) \<and> W (snd (t_connect T addr w))
        \<and> W (snd (t_read_block T addr md (block_req ino idx) w))
        \<and> (case fst (t_read_block T addr md (block_req ino idx) w) of
             Inr r \<Rightarrow> rbr_data r = base idx
           | Inl st \<Rightarrow> status_code st = NotFound \<and> base idx = replicate (unat bs) 0)))"

definition fails ::
  "'w transport \<Rightarrow> ('w \<Rightarrow> bool) \<Rightarrow> (node_id, string) hmap \<Rightarrow> metadata \<Rightarrow> inode_id \<Rightarrow> block_idx \<Rightarrow> node_id \<Rightarrow> bool" where
  "fails T W M md ino idx nid \<longleftrightarrow> (\<forall>addr. hm_get M nid = Some addr \<longrightarrow>
     (\<forall>w. W w \<longrightarrow> W (snd (t_connect T addr w)) \<and> W (snd (t_read_block T addr md (block_req ino idx) w))
        \<and> (case fst (t_read_block T addr md (block_req ino idx) w) of
             Inr r \<Rightarrow> False
           | Inl st \<Rightarrow> status_code st \<noteq> NotFound)))"

fun some_answers ::
  "'w transport \<Rightarrow> ('w \<Rightarrow> bool) \<Rightarrow> (node_id, string) hmap \<Rightarrow> metadata \<Rightarrow> u64 \<Rightarrow> inode_id \<Rightarrow> (block_idx \<Rightarrow> bytes)
     \<Rightarrow> block_idx \<Rightarrow> node_id list \<Rightarrow> bool" where
  "some_answers T W M md bs ino base idx [] \<longleftrightarrow> False"
| "some_answers T W M md bs ino base idx (n # ns) \<longleftrightarrow>
     answers T W M md bs ino base idx n
     \<or> (fails T W M md ino idx n \<and> some_answers T W M md bs ino base idx ns)"

text \<open>The client's own part: its token, its block size, its pool, its cache.\<close>

definition client_ok ::
  "'w transport \<Rightarrow> ('w \<Rightarrow> bool) \<Rightarrow> (node_id, string) hmap \<Rightarrow> u64 \<Rightarrow> string \<Rightarrow> inode_id \<Rightarrow> generation
     \<Rightarrow> (block_idx \<Rightarrow> bytes) \<Rightarrow> 'w fs \<Rightarrow> bool" where
  "client_ok T W M bs token ino g base s \<longleftrightarrow> W (fs_world s) \<and> fs_block_size s = bs \<and> fs_token s = token
     \<and> (\<forall>nid c. fs_clients s nid = Some c \<longrightarrow> hm_get M nid = Some c)
     \<and> (\<forall>idx b. fs_block_cache s (ino, g, idx) = Some b \<longrightarrow> b = base idx)"

definition addrs_ok ::
  "'w transport \<Rightarrow> ('w \<Rightarrow> bool) \<Rightarrow> (node_id, string) hmap \<Rightarrow> metadata \<Rightarrow> 'w fs \<Rightarrow> bool" where
  "addrs_ok T W M md s \<longleftrightarrow> (if fs_addrs s = [] then
       (\<forall>w. W w \<longrightarrow> (\<exists>ns. fst (t_list_nodes T md w) = Inr ns \<and> addr_map_of ns = M) \<and> W (snd (t_list_nodes T md w)))
     else fs_addrs s = M)"

definition fetch_ok ::
  "'w transport \<Rightarrow> ('w \<Rightarrow> bool) \<Rightarrow> (node_id, string) hmap \<Rightarrow> string \<Rightarrow> u64 \<Rightarrow> (block_idx \<Rightarrow> bytes)
     \<Rightarrow> open_file \<Rightarrow> 'w fs \<Rightarrow> bool" where
  "fetch_ok T W M token bs base f s \<longleftrightarrow> (\<exists>v. t_parse T token = Some v \<and>
     client_ok T W M bs token (of_ino f) (of_generation f) base s
     \<and> addrs_ok T W M [''cluster-token'' \<mapsto> v] s
     \<and> (\<forall>idx p. bt_get (of_block_map f) idx = Some p \<longrightarrow>
          some_answers T W M [''cluster-token'' \<mapsto> v] bs (of_ino f) base idx (primary p # replicas p)))"

section \<open>Fetching\<close>

lemma client_ok_world:
  "client_ok T W M bs token ino g base s \<Longrightarrow> W w \<Longrightarrow> client_ok T W M bs token ino g base (s\<lparr>fs_world := w\<rparr>)"
  by (simp add: client_ok_def)

lemma pool_get_spec:
  assumes ok: "client_ok T W M bs token ino g base s" and addrs: "fs_addrs s = M"
    and conn: "\<forall>addr w. hm_get M nid = Some addr \<longrightarrow> W w \<longrightarrow> W (snd (t_connect T addr w))"
  shows "\<exists>r s1. pool_get T nid s = (r, s1) \<and> client_ok T W M bs token ino g base s1 \<and> fs_addrs s1 = M
    \<and> (case r of Ok addr \<Rightarrow> hm_get M nid = Some addr | Err e \<Rightarrow> True | Panic \<Rightarrow> False)"
proof (cases "fs_clients s nid")
  case (Some c)
  then show ?thesis using ok addrs by (simp add: pool_get_def client_ok_def)
next
  case None
  show ?thesis
  proof (cases "hm_get M nid")
    case no: None
    then show ?thesis using None addrs ok by (simp add: pool_get_def)
  next
    case (Some addr)
    have w: "W (snd (t_connect T addr (fs_world s)))" using conn Some ok by (simp add: client_ok_def)
    show ?thesis
    proof (cases "t_uri_ok T addr \<and> fst (t_connect T addr (fs_world s))")
      case True
      let ?s1 = "s\<lparr>fs_world := snd (t_connect T addr (fs_world s)), fs_clients := (fs_clients s)(nid \<mapsto> addr)\<rparr>"
      have "pool_get T nid s = (Ok addr, ?s1)"
        using None Some True addrs by (simp add: pool_get_def split_def Let_def)
      moreover have "client_ok T W M bs token ino g base ?s1"
        using ok w Some by (auto simp: client_ok_def)
      ultimately show ?thesis using Some addrs by simp
    next
      case False
      then have "\<exists>s1. pool_get T nid s = (Err (EStoreUnavailable nid), s1)
          \<and> (s1 = s \<or> s1 = s\<lparr>fs_world := snd (t_connect T addr (fs_world s))\<rparr>)"
        using None Some addrs by (auto simp: pool_get_def split_def Let_def)
      then show ?thesis using ok client_ok_world [OF ok w] addrs by auto
    qed
  qed
qed

lemma pool_get_up:
  assumes ok: "client_ok T W M bs token ino g base s" and addrs: "fs_addrs s = M"
    and ans: "answers T W M md bs ino base idx nid"
  obtains addr s1 where "pool_get T nid s = (Ok addr, s1)" "hm_get M nid = Some addr"
      "client_ok T W M bs token ino g base s1" "fs_addrs s1 = M"
proof -
  obtain addr where addr: "hm_get M nid = Some addr" "t_uri_ok T addr"
    and conn: "\<And>w. W w \<Longrightarrow> fst (t_connect T addr w) \<and> W (snd (t_connect T addr w))"
    using ans by (auto simp: answers_def)
  have "W (fs_world s)" using ok by (simp add: client_ok_def)
  then have "\<exists>s1. pool_get T nid s = (Ok addr, s1)" if "fs_clients s nid \<noteq> Some addr"
    using that ok addr conn addrs by (auto simp: pool_get_def client_ok_def split_def Let_def split: option.split)
  moreover have "pool_get T nid s = (Ok addr, s)" if "fs_clients s nid = Some addr"
    using that by (simp add: pool_get_def)
  ultimately obtain s1 where p: "pool_get T nid s = (Ok addr, s1)" by blast
  have "\<forall>addr' w. hm_get M nid = Some addr' \<longrightarrow> W w \<longrightarrow> W (snd (t_connect T addr' w))"
    using addr conn by auto
  from pool_get_spec [OF ok addrs this] show thesis
    using that p by auto
qed

lemma authed_call_eq:
  assumes "t_parse T (fs_token s) = Some v" and "md = [''cluster-token'' \<mapsto> v]"
  shows "authed_call T h s =
    ((case fst (h md (fs_world s)) of Inl e \<Rightarrow> Err e | Inr a \<Rightarrow> Ok a), s\<lparr>fs_world := snd (h md (fs_world s))\<rparr>)"
  using assms by (auto simp: authed_call_def authed_def split: prod.splits sum.splits)

lemma client_ok_cache_insert:
  "client_ok T W M bs token ino g base s \<Longrightarrow> client_ok T W M bs token ino g base (block_cache_insert (ino, g, idx) (base idx) s)"
  by (auto simp: client_ok_def block_cache_insert_def)

lemma client_ok_evict:
  "client_ok T W M bs token ino g base s \<Longrightarrow> client_ok T W M bs token ino g base (evict nid s)"
  by (auto simp: client_ok_def evict_def)

lemma frame_addrs [simp]:
  "fs_addrs (block_cache_insert k b s) = fs_addrs s" "fs_addrs (evict nid s) = fs_addrs s"
  by (simp_all add: block_cache_insert_def evict_def)

lemma answersD:
  assumes "answers T W M md bs ino base idx nid" and "hm_get M nid = Some addr" and "W w"
  shows "W (snd (t_read_block T addr md (block_req ino idx) w))
    \<and> (case fst (t_read_block T addr md (block_req ino idx) w) of Inr r \<Rightarrow> rbr_data r = base idx
       | Inl st \<Rightarrow> status_code st = NotFound \<and> base idx = replicate (unat bs) 0)"
proof -
  obtain addr' where "hm_get M nid = Some addr'" and "\<forall>w. W w \<longrightarrow> fst (t_connect T addr' w) \<and> W (snd (t_connect T addr' w))
        \<and> W (snd (t_read_block T addr' md (block_req ino idx) w))
        \<and> (case fst (t_read_block T addr' md (block_req ino idx) w) of
             Inr r \<Rightarrow> rbr_data r = base idx
           | Inl st \<Rightarrow> status_code st = NotFound \<and> base idx = replicate (unat bs) 0)"
    using assms(1) unfolding answers_def by blast
  with assms(2,3) show ?thesis by simp
qed

lemma failsD:
  assumes "fails T W M md ino idx nid" and "hm_get M nid = Some addr" and "W w"
  shows "W (snd (t_read_block T addr md (block_req ino idx) w))
    \<and> (case fst (t_read_block T addr md (block_req ino idx) w) of Inr r \<Rightarrow> False | Inl st \<Rightarrow> status_code st \<noteq> NotFound)"
  using assms unfolding fails_def by blast

text \<open>
  One node of the list: a node that answers ends the search with the block, a node that
  fails is skipped with another error in hand.
\<close>

lemma fetch_from_answers:
  assumes v: "t_parse T token = Some v" and md: "md = [''cluster-token'' \<mapsto> v]"
    and ans: "answers T W M md bs (of_ino f) base idx n"
    and ok: "client_ok T W M bs token (of_ino f) (of_generation f) base s" "fs_addrs s = M"
  shows "\<exists>s'. fetch_from T f idx (n # ns) e s = (Ok (base idx), s')
    \<and> client_ok T W M bs token (of_ino f) (of_generation f) base s' \<and> fs_addrs s' = M"
proof -
  let ?rd = "\<lambda>addr. t_read_block T addr md (block_req (of_ino f) idx)"
  obtain addr s1 where p: "pool_get T n s = (Ok addr, s1)" "hm_get M n = Some addr"
    and ok1: "client_ok T W M bs token (of_ino f) (of_generation f) base s1" "fs_addrs s1 = M"
    using pool_get_up [OF ok ans] .
  let ?w = "snd (?rd addr (fs_world s1))" and ?s2 = "s1\<lparr>fs_world := snd (?rd addr (fs_world s1))\<rparr>"
  have w1: "W (fs_world s1)" "fs_token s1 = token" "fs_block_size s1 = bs" using ok1 by (simp_all add: client_ok_def)
  have w: "W ?w" and reply: "case fst (?rd addr (fs_world s1)) of Inr r \<Rightarrow> rbr_data r = base idx
      | Inl st \<Rightarrow> status_code st = NotFound \<and> base idx = replicate (unat bs) 0"
    using answersD [OF ans p(2) w1(1)] by simp_all
  have call: "authed_call T (\<lambda>md. t_read_block T addr md (block_req (of_ino f) idx)) s1
      = ((case fst (?rd addr (fs_world s1)) of Inl e \<Rightarrow> Err e | Inr a \<Rightarrow> Ok a), ?s2)"
    by (rule authed_call_eq) (simp_all add: v w1 md)
  have ok2: "client_ok T W M bs token (of_ino f) (of_generation f) base ?s2"
    using ok1(1) w by (rule client_ok_world)
  show ?thesis
  proof (cases "fst (?rd addr (fs_world s1))")
    case (Inl st)
    then show ?thesis using reply p ok2 ok1(2) w1 by (simp add: call zero_block_def)
  next
    case (Inr r)
    then show ?thesis using reply p client_ok_cache_insert [OF ok2, of idx] ok1(2) by (simp add: call)
  qed
qed

lemma fetch_from_fails:
  assumes v: "t_parse T token = Some v" and md: "md = [''cluster-token'' \<mapsto> v]"
    and bad: "fails T W M md (of_ino f) idx n"
    and ok: "client_ok T W M bs token (of_ino f) (of_generation f) base s" "fs_addrs s = M"
  shows "\<exists>e' s'. fetch_from T f idx (n # ns) e s = fetch_from T f idx ns e' s'
    \<and> client_ok T W M bs token (of_ino f) (of_generation f) base s' \<and> fs_addrs s' = M"
proof -
  let ?rd = "\<lambda>addr. t_read_block T addr md (block_req (of_ino f) idx)"
  have "\<forall>addr w. hm_get M n = Some addr \<longrightarrow> W w \<longrightarrow> W (snd (t_connect T addr w))"
    using bad by (auto simp: fails_def)
  from pool_get_spec [OF ok this]
  obtain r s1 where p: "pool_get T n s = (r, s1)" and ok1: "client_ok T W M bs token (of_ino f) (of_generation f) base s1" "fs_addrs s1 = M"
    and r: "case r of Ok addr \<Rightarrow> hm_get M n = Some addr | Err e \<Rightarrow> True | Panic \<Rightarrow> False" by blast
  show ?thesis
  proof (cases r)
    case (Err e')
    then show ?thesis using p ok1 by (intro exI [of _ e'] exI [of _ s1]) simp
  next
    case Panic
    then show ?thesis using r by simp
  next
    case (Ok addr)
    have w1: "W (fs_world s1)" "fs_token s1 = token" using ok1 by (simp_all add: client_ok_def)
    have w: "W (snd (?rd addr (fs_world s1)))"
      and err: "case fst (?rd addr (fs_world s1)) of Inr r \<Rightarrow> False | Inl st \<Rightarrow> status_code st \<noteq> NotFound"
      using failsD [OF bad _ w1(1), of addr] r Ok by simp_all
    let ?s2 = "s1\<lparr>fs_world := snd (?rd addr (fs_world s1))\<rparr>"
    have call: "authed_call T (\<lambda>md. t_read_block T addr md (block_req (of_ino f) idx)) s1
        = ((case fst (?rd addr (fs_world s1)) of Inl e \<Rightarrow> Err e | Inr a \<Rightarrow> Ok a), ?s2)"
      by (rule authed_call_eq) (simp_all add: v w1 md)
    obtain st where "fst (?rd addr (fs_world s1)) = Inl st" "status_code st \<noteq> NotFound"
      using err by (cases "fst (?rd addr (fs_world s1))") auto
    then show ?thesis
      using p Ok ok1(2) client_ok_evict [OF client_ok_world [OF ok1(1) w]]
      by (intro exI [of _ "EStoreUnavailable n"] exI [of _ "evict n ?s2"]) (simp add: call)
  qed
qed

lemma fetch_from_ok:
  assumes v: "t_parse T token = Some v" and md: "md = [''cluster-token'' \<mapsto> v]"
    and "some_answers T W M md bs (of_ino f) base idx nids"
    and "client_ok T W M bs token (of_ino f) (of_generation f) base s" and "fs_addrs s = M"
  shows "\<exists>s'. fetch_from T f idx nids e s = (Ok (base idx), s')
    \<and> client_ok T W M bs token (of_ino f) (of_generation f) base s' \<and> fs_addrs s' = M"
  using assms(3-)
proof (induction nids arbitrary: e s)
  case (Cons n ns)
  show ?case
  proof (cases "answers T W M md bs (of_ino f) base idx n")
    case True
    then show ?thesis by (rule fetch_from_answers [OF v md _ Cons.prems(2,3)])
  next
    case False
    then have bad: "fails T W M md (of_ino f) idx n" and rest: "some_answers T W M md bs (of_ino f) base idx ns"
      using Cons.prems(1) by simp_all
    from fetch_from_fails [OF v md bad Cons.prems(2,3), of ns e] Cons.IH [OF rest] show ?thesis
      by (elim exE conjE) (simp only:)
  qed
qed simp

lemma refresh_ok:
  assumes v: "t_parse T token = Some v" and md: "md = [''cluster-token'' \<mapsto> v]"
    and ok: "client_ok T W M bs token ino g base s" and addrs: "addrs_ok T W M md s"
  shows "\<exists>s1. refresh_if_empty T s = (Ok (), s1) \<and> client_ok T W M bs token ino g base s1 \<and> fs_addrs s1 = M"
proof (cases "fs_addrs s = []")
  case False
  then show ?thesis using ok addrs by (simp add: refresh_if_empty_def addrs_ok_def)
next
  case True
  have w: "W (fs_world s)" "fs_token s = token" using ok by (simp_all add: client_ok_def)
  obtain ns where ns: "fst (t_list_nodes T md (fs_world s)) = Inr ns" "addr_map_of ns = M" and w': "W (snd (t_list_nodes T md (fs_world s)))"
    using addrs True w(1) by (auto simp: addrs_ok_def)
  let ?s1 = "refresh_addrs M (s\<lparr>fs_world := snd (t_list_nodes T md (fs_world s))\<rparr>)"
  have "authed_call T (t_list_nodes T) s = (Ok ns, s\<lparr>fs_world := snd (t_list_nodes T md (fs_world s))\<rparr>)"
    using authed_call_eq [of T s v md "t_list_nodes T"] v w(2) md ns by simp
  then have "refresh_if_empty T s = (Ok (), ?s1)"
    using True ns by (simp add: refresh_if_empty_def)
  moreover have "client_ok T W M bs token ino g base ?s1"
    using ok w' by (simp add: client_ok_def refresh_addrs_def)
  ultimately show ?thesis by (simp add: refresh_addrs_def)
qed

lemma addrs_ok_after:
  assumes "addrs_ok T W M md s" and "fs_addrs s' = M"
  shows "addrs_ok T W M md s'"
  using assms by (cases "fs_addrs s = []"; cases "M = []") (simp_all add: addrs_ok_def)

lemma fetch_block_ok:
  assumes ok: "fetch_ok T W M token bs base f s" and clean: "bt_get (of_dirty f) idx = None"
    and placed: "bt_contains (of_block_map f) idx"
  shows "\<exists>s'. fetch_block T f idx s = (Ok (base idx), s') \<and> fetch_ok T W M token bs base f s'"
proof -
  obtain v where v: "t_parse T token = Some v"
    and c: "client_ok T W M bs token (of_ino f) (of_generation f) base s"
    and a: "addrs_ok T W M [''cluster-token'' \<mapsto> v] s"
    and nodes: "\<forall>idx p. bt_get (of_block_map f) idx = Some p \<longrightarrow>
          some_answers T W M [''cluster-token'' \<mapsto> v] bs (of_ino f) base idx (primary p # replicas p)"
    using ok unfolding fetch_ok_def by blast
  obtain p where p: "bt_get (of_block_map f) idx = Some p" using placed by (auto simp: bt_contains_def)
  show ?thesis
  proof (cases "block_cache_get T (of_ino f, of_generation f, idx) s")
    case (Some b)
    then have "b = base idx" using c by (auto simp: block_cache_get_def client_ok_def split: if_splits)
    then show ?thesis using Some clean ok by (simp add: fetch_block_def)
  next
    case None
    obtain s1 where r: "refresh_if_empty T s = (Ok (), s1)"
      and c1: "client_ok T W M bs token (of_ino f) (of_generation f) base s1" "fs_addrs s1 = M"
      using refresh_ok [OF v refl c a] by blast
    obtain s' where f: "fetch_from T f idx (primary p # replicas p) (EStoreUnavailable (primary p)) s1 = (Ok (base idx), s')"
      and c': "client_ok T W M bs token (of_ino f) (of_generation f) base s'" "fs_addrs s' = M"
      using fetch_from_ok [OF v refl nodes [rule_format, OF p] c1] by blast
    have "fetch_block T f idx s = (Ok (base idx), s')"
      unfolding fetch_block_def using clean None r p f by (simp del: fetch_from.simps)
    moreover have "fetch_ok T W M token bs base f s'"
      unfolding fetch_ok_def using v c' nodes addrs_ok_after [OF a c'(2)] by blast
    ultimately show ?thesis by blast
  qed
qed

interpretation fb: block_source "fetch_block T" "fetch_ok T W M token bs base" base for T W M token bs base
proof
  show "bt_get (of_dirty f) idx = Some b \<Longrightarrow> fetch_block T f idx s = (Ok b, s)" for f idx b s
    by (simp add: fetch_block_def)
  show "fetch_ok T W M token bs base f s \<Longrightarrow> bt_get (of_dirty f) idx = None \<Longrightarrow> bt_contains (of_block_map f) idx
      \<Longrightarrow> \<exists>s'. fetch_block T f idx s = (Ok (base idx), s') \<and> fetch_ok T W M token bs base f s'" for f idx s
    by (rule fetch_block_ok)
  show "same_file f g \<Longrightarrow> fetch_ok T W M token bs base f s \<Longrightarrow> fetch_ok T W M token bs base g s" for f g s
    by (simp add: same_file_def fetch_ok_def)
qed

section \<open>Properties of the block path\<close>

text \<open>
  A cluster with one store that holds block 0 of inode 2, and a client that knows two
  nodes of which the first does not exist.
\<close>

definition sample_store :: store_state where
  "sample_store = fst (store_write_block \<lparr> wb_key = Some \<lparr> pk_ino = 2, pk_block_idx = 0, pk_generation = 0 \<rparr>,
     wb_data = [1, 2, 3, 4] \<rparr> (store_new (NodeId ''n2'') [] 100))"

definition sample_cluster :: cluster where
  "sample_cluster = \<lparr> cw_meta = meta_new 0 2, cw_stores = [''http://b'' \<mapsto> sample_store], cw_tasks = [],
     cw_token = ''t'', cw_now = 0, cw_instant = 0 \<rparr>"

definition sample_addrs :: "(node_id, string) hmap" where
  "sample_addrs = [(NodeId ''n1'', ''http://a''), (NodeId ''n2'', ''http://b'')]"

definition sample_client :: "cluster fs" where
  "sample_client = (build_fs sample_cluster 1000 4 2 ''t'')\<lparr>fs_addrs := sample_addrs\<rparr>"

definition sample_open_file :: open_file where
  "sample_open_file = \<lparr> of_ino = InodeId 2, of_generation = Generation 0,
     of_block_map = [(BlockIdx 0, \<lparr> primary = NodeId ''n1'', replicas = [NodeId ''n2''] \<rparr>)], of_dirty = [],
     of_size_hint = 4, of_flags = 0 \<rparr>"

abbreviation sample_T :: "cluster transport" where
  "sample_T \<equiv> direct (\<lambda>_ _. 0)"

lemma sample_store_read:
  "store_read_block (block_req (InodeId 2) (BlockIdx 0)) sample_store = Ok \<lparr> rbr_data = [1, 2, 3, 4], rbr_len = 4 \<rparr>"
  by (simp add: sample_store_def store_write_block_def store_new_def write_admit_def write_commit_def Let_def
      block_req_def store_read_block_def proto_key_to_block_key_def)

lemma sample_fetch_ok:
  "fetch_ok sample_T (\<lambda>w. w = sample_cluster) sample_addrs ''t'' 4 (\<lambda>_. [1, 2, 3, 4]) sample_open_file sample_client"
proof -
  let ?W = "\<lambda>w. w = sample_cluster" and ?md = "[''cluster-token'' \<mapsto> ''t'']"
  have w: "sample_cluster\<lparr>cw_stores := [''http://b'' \<mapsto> sample_store]\<rparr> = sample_cluster"
    "cw_stores sample_cluster = [''http://b'' \<mapsto> sample_store]" "cw_token sample_cluster = ''t''"
    by (simp_all add: sample_cluster_def)
  have "answers sample_T ?W sample_addrs ?md 4 (InodeId 2) (\<lambda>_. [1, 2, 3, 4]) (BlockIdx 0) (NodeId ''n2'')"
    by (simp add: answers_def sample_addrs_def hm_get_def direct_simps to_store_token w sample_store_read rpc_of_def)
  moreover have "fails sample_T ?W sample_addrs ?md (InodeId 2) (BlockIdx 0) (NodeId ''n1'')"
    by (simp add: fails_def sample_addrs_def hm_get_def direct_simps to_store_def w)
  ultimately have "some_answers sample_T ?W sample_addrs ?md 4 (InodeId 2) (\<lambda>_. [1, 2, 3, 4]) (BlockIdx 0) [NodeId ''n1'', NodeId ''n2'']"
    unfolding some_answers.simps by blast
  moreover have "client_ok sample_T ?W sample_addrs 4 ''t'' (InodeId 2) (Generation 0) (\<lambda>_. [1, 2, 3, 4]) sample_client"
    by (simp add: client_ok_def sample_client_def build_fs_def)
  moreover have "addrs_ok sample_T ?W sample_addrs ?md sample_client"
    by (simp add: addrs_ok_def sample_client_def sample_addrs_def)
  ultimately show ?thesis
    unfolding fetch_ok_def
    by (intro exI [of _ "''t''"]) (auto simp: direct_simps sample_open_file_def bt_get_def split: if_splits)
qed

text \<open>
  C21. Fail-over.  As long as every node of a block's placement either answers with the
  block or fails with an error other than NotFound, and the answering one comes after
  failing ones only, a fetch returns exactly the block, from the cache or over the
  network, with stale connections dropped on the way and missing addresses asked for;
  and it can be repeated.
\<close>

theorem fetch_block_failover:
  assumes "fetch_ok T W M token bs base f s" and "bt_get (of_dirty f) idx = None"
    and "bt_contains (of_block_map f) idx"
  shows "\<exists>s'. fetch_block T f idx s = (Ok (base idx), s') \<and> fetch_ok T W M token bs base f s'"
  using assms by (rule fetch_block_ok)

theorem fetch_block_failover_witness:
  "\<exists>s'. fetch_block sample_T sample_open_file (BlockIdx 0) sample_client = (Ok [1, 2, 3, 4], s')"
  using fetch_block_failover [OF sample_fetch_ok, of "BlockIdx 0"]
  by (auto simp: sample_open_file_def bt_contains_def bt_get_def)

text \<open>
  C18. Writes change exactly their bytes.  A write of \<open>n\<close> bytes at an offset, on a file
  whose blocks can be fetched, returns \<open>n\<close>; afterwards the file's content is the old
  one with exactly these bytes replaced, the size is raised to the end of the write if it
  was below, and the open file is otherwise the same.  This holds for every block size,
  for writes that start and end inside blocks, and for blocks that are dirty, placed or
  new.  The bounds exclude offsets at the end of the 64 bit range and writes of 4 GiB.
\<close>

theorem write_changes_exactly:
  assumes "fetch_ok T W M token bs base f s" and "dirty_ok bs f" and "0 < unat bs"
    and "unat offset + length data + unat bs < 2 ^ 64" and "length data < 2 ^ 32"
  shows "\<exists>f' s'. apply_write T offset data f s = Some (Ok (of_nat (length data)), f', s')
    \<and> same_file f f' \<and> of_size_hint f' = max (of_size_hint f) (offset + of_nat (length data))
    \<and> fetch_ok T W M token bs base f' s' \<and> dirty_ok bs f'
    \<and> (\<forall>p < 2 ^ 64. file_view (unat bs) base f' p =
         (if unat offset \<le> p \<and> p < unat offset + length data then data ! (p - unat offset)
          else file_view (unat bs) base f p))"
proof -
  have "fs_block_size s = bs" using assms(1) by (auto simp: fetch_ok_def client_ok_def)
  moreover obtain d f' s' where "apply_write_with (Suc (length data)) (fetch_block T) bs offset data f s = Some (Ok (of_nat (length data)), f', s')"
    and f': "f' = f\<lparr>of_dirty := d, of_size_hint := max (of_size_hint f) (offset + of_nat (length data))\<rparr>"
    and "fetch_ok T W M token bs base f' s'" "dirty_ok bs f'"
    and "\<forall>p < 2 ^ 64. file_view (unat bs) base f' p =
         (if unat offset \<le> p \<and> p < unat offset + length data then data ! (p - unat offset)
          else file_view (unat bs) base f p)"
    using fb.apply_write_view [OF assms] by blast
  moreover have "same_file f f'" unfolding f' by (simp add: same_file_def)
  moreover have "of_size_hint f' = max (of_size_hint f) (offset + of_nat (length data))" by (simp add: f')
  ultimately show ?thesis unfolding apply_write_def by blast
qed

theorem write_changes_exactly_witness:
  "\<exists>f' s'. apply_write sample_T 2 [9, 8, 7, 6, 5] sample_open_file sample_client = Some (Ok 5, f', s')
     \<and> file_view 4 (\<lambda>_. [1, 2, 3, 4]) f' 1 = 2 \<and> file_view 4 (\<lambda>_. [1, 2, 3, 4]) f' 6 = 5"
proof -
  have d: "dirty_ok 4 sample_open_file" by (simp add: dirty_ok_def sample_open_file_def)
  have v: "file_view 4 (\<lambda>_. [1, 2, 3, 4]) sample_open_file 1 = 2"
    by (simp add: file_view_def block_view_def byte_of_def sample_open_file_def bt_contains_def bt_get_def)
  obtain f' s' where eq: "apply_write sample_T 2 [9, 8, 7, 6, 5] sample_open_file sample_client = Some (Ok (of_nat (length [9, 8, 7, 6, 5 :: u8])), f', s')"
    and view: "\<forall>p < 2 ^ 64. file_view (unat (4 :: u64)) (\<lambda>_. [1, 2, 3, 4]) f' p =
         (if unat (2 :: u64) \<le> p \<and> p < unat (2 :: u64) + length [9, 8, 7, 6, 5 :: u8] then [9, 8, 7, 6, 5] ! (p - unat (2 :: u64))
          else file_view (unat (4 :: u64)) (\<lambda>_. [1, 2, 3, 4]) sample_open_file p)"
    using write_changes_exactly [OF sample_fetch_ok d, of 2 "[9, 8, 7, 6, 5]"] by auto
  have "file_view 4 (\<lambda>_. [1, 2, 3, 4]) f' 1 = 2" "file_view 4 (\<lambda>_. [1, 2, 3, 4]) f' 6 = 5"
    using view [rule_format, of 1] view [rule_format, of 6] v by simp_all
  with eq show ?thesis by simp
qed

lemma read_file_view:
  assumes "fetch_ok T W M token bs base f s" and "0 < unat bs" and "unat offset + unat sz + unat bs < 2 ^ 64"
  shows "\<exists>s'. read_file T offset sz f s
      = Some (Ok (map (file_view (unat bs) base f) [unat offset..<unat offset + unat sz]), s')
    \<and> fetch_ok T W M token bs base f s'"
proof -
  have "fs_block_size s = bs" using assms(1) by (auto simp: fetch_ok_def client_ok_def)
  then show ?thesis
    using fb.read_range_view [OF assms] unfolding read_file_def Let_def by simp
qed

text \<open>
  C19. Reads see the writes.  After a write through a handle, a read of any range through
  the same handle returns, byte by byte, what was written where the ranges overlap and
  the old content elsewhere, zeros where nothing was ever written; in particular a read
  of the range just written returns the data.
\<close>

theorem read_sees_writes:
  assumes "fetch_ok T W M token bs base f s" and "dirty_ok bs f" and "0 < unat bs"
    and "unat offset + length data + unat bs < 2 ^ 64" and "length data < 2 ^ 32"
    and "unat roff + unat rsz + unat bs < 2 ^ 64"
  shows "\<exists>f' s' s''. apply_write T offset data f s = Some (Ok (of_nat (length data)), f', s')
    \<and> read_file T roff rsz f' s' = Some (Ok (map (\<lambda>p. if unat offset \<le> p \<and> p < unat offset + length data
          then data ! (p - unat offset) else file_view (unat bs) base f p) [unat roff..<unat roff + unat rsz]), s'')
    \<and> (unat roff = unat offset \<and> unat rsz = length data \<longrightarrow> read_file T roff rsz f' s' = Some (Ok data, s''))"
proof -
  have "fs_block_size s = bs" using assms(1) by (auto simp: fetch_ok_def client_ok_def)
  then obtain f' s' where w: "apply_write T offset data f s = Some (Ok (of_nat (length data)), f', s')"
    and ok: "fetch_ok T W M token bs base f' s'"
    and view: "\<forall>p < 2 ^ 64. file_view (unat bs) base f' p =
         (if unat offset \<le> p \<and> p < unat offset + length data then data ! (p - unat offset)
          else file_view (unat bs) base f p)"
    using fb.apply_write_view [OF assms(1-5)] unfolding apply_write_def by blast
  obtain s'' where r: "read_file T roff rsz f' s'
      = Some (Ok (map (file_view (unat bs) base f') [unat roff..<unat roff + unat rsz]), s'')"
    using read_file_view [OF ok assms(3,6)] by blast
  let ?new = "\<lambda>p. if unat offset \<le> p \<and> p < unat offset + length data then data ! (p - unat offset)
          else file_view (unat bs) base f p"
  have same: "map (file_view (unat bs) base f') [unat roff..<unat roff + unat rsz] = map ?new [unat roff..<unat roff + unat rsz]"
    using view assms(6) by (intro map_cong) auto
  have whole: "map ?new [unat roff..<unat roff + unat rsz] = data" if "unat roff = unat offset \<and> unat rsz = length data"
    by (rule nth_equalityI) (use that in auto)
  have r': "read_file T roff rsz f' s' = Some (Ok (map ?new [unat roff..<unat roff + unat rsz]), s'')"
    using r unfolding same .
  have "read_file T roff rsz f' s' = Some (Ok data, s'')" if "unat roff = unat offset \<and> unat rsz = length data"
    using r' unfolding whole [OF that] .
  with w r' show ?thesis by blast
qed

theorem read_sees_writes_witness:
  "\<exists>f' s' s''. apply_write sample_T 2 [9, 8, 7, 6, 5] sample_open_file sample_client = Some (Ok 5, f', s')
     \<and> read_file sample_T 2 5 f' s' = Some (Ok [9, 8, 7, 6, 5], s'')"
proof -
  have d: "dirty_ok 4 sample_open_file" by (simp add: dirty_ok_def sample_open_file_def)
  from read_sees_writes [OF sample_fetch_ok d, of 2 "[9, 8, 7, 6, 5]" 2 5] show ?thesis
    by simp
qed

text \<open>
  A lagging replica reads as zeros.  When the primary cannot be reached and the first
  replica does not hold the block, for instance because the asynchronous write to it has
  not run, a fetch replies Ok with zeros, whatever the primary holds.
\<close>

theorem lagging_replica_reads_zeros:
  assumes "fs_world s = w" and "fs_token s = cw_token w" and "fs_clients s = Map.empty" and "fs_addrs s \<noteq> []"
    and "fs_block_cache s = Map.empty" and "of_dirty f = []"
    and "bt_get (of_block_map f) idx = Some \<lparr> primary = n1, replicas = n2 # ns \<rparr>"
    and "hm_get (fs_addrs s) n1 = Some a1" and "hm_get (fs_addrs s) n2 = Some a2"
    and "cw_stores w a1 = None" and "cw_stores w a2 = Some st"
    and "hm_get (blocks st) \<lparr> bk_ino = of_ino f, bk_block_idx = idx, bk_generation = Generation 0 \<rparr> = None"
  shows "fst (fetch_block (direct xxh3) f idx s) = Ok (replicate (unat (fs_block_size s)) 0)"
proof -
  have key: "proto_key_to_block_key \<lparr> pk_ino = raw (of_ino f), pk_block_idx = raw_idx idx, pk_generation = 0 \<rparr>
      = \<lparr> bk_ino = of_ino f, bk_block_idx = idx, bk_generation = Generation 0 \<rparr>"
    by (cases "of_ino f"; cases idx) (simp add: proto_key_to_block_key_def)
  have rd: "store_read_block (block_req (of_ino f) idx) st = Err (st_not_found ''block not found'')"
    using assms(12) by (simp add: store_read_block_def block_req_def key)
  have p1: "pool_get (direct xxh3) n1 s = (Err (EStoreUnavailable n1), s)"
    using assms(1,3,8,10) by (simp add: pool_get_def direct_simps)
  let ?s1 = "s\<lparr>fs_clients := [n2 \<mapsto> a2]\<rparr>"
  have p2: "pool_get (direct xxh3) n2 s = (Ok a2, ?s1)"
    using assms(1,3,9,11) by (simp add: pool_get_def direct_simps)
  have call: "authed_call (direct xxh3) (\<lambda>md. t_read_block (direct xxh3) a2 md (block_req (of_ino f) idx)) ?s1
      = (Err (st_not_found ''block not found''), ?s1\<lparr>fs_world := w\<lparr>cw_stores := (cw_stores w)(a2 \<mapsto> st)\<rparr>\<rparr>)"
    using authed_call_eq [of "direct xxh3" ?s1 "cw_token w" _ "\<lambda>md. t_read_block (direct xxh3) a2 md (block_req (of_ino f) idx)"]
      assms(1,2,11) by (simp add: direct_simps to_store_token rd rpc_of_def)
  show ?thesis
    using assms(4-7) by (simp add: fetch_block_def block_cache_get_def refresh_if_empty_def p1 p2 call zero_block_def)
qed

theorem lagging_replica_reads_zeros_witness:
  "fst (fetch_block sample_T sample_open_file (BlockIdx 0)
     (sample_client\<lparr>fs_world := sample_cluster\<lparr>cw_stores := [''http://b'' \<mapsto> store_new (NodeId ''n2'') [] 100]\<rparr>\<rparr>))
   = Ok [0, 0, 0, 0]"
proof -
  let ?s = "sample_client\<lparr>fs_world := sample_cluster\<lparr>cw_stores := [''http://b'' \<mapsto> store_new (NodeId ''n2'') [] 100]\<rparr>\<rparr>"
  have "fst (fetch_block sample_T sample_open_file (BlockIdx 0) ?s) = Ok (replicate (unat (fs_block_size ?s)) 0)"
    by (rule lagging_replica_reads_zeros [OF refl, where ?n1.0 = "NodeId ''n1''" and ?n2.0 = "NodeId ''n2''" and ns = "[]"
        and ?a1.0 = "''http://a''" and ?a2.0 = "''http://b''" and st = "store_new (NodeId ''n2'') [] 100"])
      (simp_all add: sample_client_def build_fs_def sample_cluster_def sample_addrs_def sample_open_file_def hm_get_def
        bt_get_def store_new_def)
  moreover have "replicate (unat (fs_block_size ?s)) 0 = [0, 0, 0, 0 :: u8]"
    by (simp add: sample_client_def build_fs_def) (simp add: numeral_eq_Suc)
  ultimately show ?thesis by simp
qed

end
