(* ===== verification/Cluster_Writes.thy ===== *)
theory Cluster_Writes
  imports Client_Publish Client_Fetch
begin

text \<open>
  The fan-out of a publish, first on any transport: what all its store calls keep and what
  its tasks carry.  Then on a cluster of the modelled servers: whatever the interleaving, a
  block is the old one or the new one at every moment, a successful fan-out has stored every
  block on all nodes it waits for, and the tasks it leaves write nothing else.
\<close>

section \<open>What the calls of a fan-out keep\<close>

text \<open>A condition on the blocks of a fan-out holds of everything its futures have left to write.\<close>

fun future_data_ok :: "(bytes \<Rightarrow> bool) \<Rightarrow> write_future \<Rightarrow> bool" where
  "future_data_ok ok WMissing \<longleftrightarrow> True"
| "future_data_ok ok (WGet idx buf ns) \<longleftrightarrow> ok buf"
| "future_data_ok ok (WSend idx buf n c ns) \<longleftrightarrow> ok buf"

definition fan_data_ok :: "(bytes \<Rightarrow> bool) \<Rightarrow> fanout \<Rightarrow> bool" where
  "fan_data_ok ok F \<longleftrightarrow> (\<forall>blk \<in> set (fo_waiting F). ok (snd blk)) \<and> (\<forall>f \<in> set (fo_running F). future_data_ok ok f)
     \<and> (\<forall>t \<in> set (fo_tasks F). ok (rt_data t))"

lemma start_future_data: "ok (snd blk) \<Longrightarrow> future_data_ok ok (start_future wait bm blk)"
  by (auto simp: start_future_def split: prod.splits option.split)

lemma future_step_data: "future_step T ino f s = (Goes f', s1) \<Longrightarrow> future_data_ok ok f \<Longrightarrow> future_data_ok ok f'"
  by (cases "(T, ino, f, s)" rule: future_step.cases) (auto split: prod.splits result.splits)

lemma future_tasks_data:
  "future_data_ok ok f \<Longrightarrow> t \<in> set (spawned wait ino bm f) \<Longrightarrow> ok (rt_data t)"
  "future_data_ok ok f \<Longrightarrow> t \<in> set (in_flight ino f) \<Longrightarrow> ok (rt_data t)"
  by (cases f; cases wait; auto split: option.splits)+

lemma fan_data_ok_fill: "fan_data_ok ok F \<Longrightarrow> fan_data_ok ok (fan_fill wait bm F)"
  by (auto simp: fan_data_ok_def fan_fill_sel intro: start_future_data dest: in_set_takeD in_set_dropD)

lemma fan_data_ok_nth: "fan_data_ok ok F \<Longrightarrow> i < length (fo_running F) \<Longrightarrow> future_data_ok ok (fo_running F ! i)"
  by (simp add: fan_data_ok_def)

lemma fan_data_ok_goes:
  "fan_data_ok ok F \<Longrightarrow> i < length (fo_running F) \<Longrightarrow> future_step T ino (fo_running F ! i) s = (Goes f, s1)
     \<Longrightarrow> fan_data_ok ok (F\<lparr>fo_running := (fo_running F)[i := f]\<rparr>)"
  using future_step_data [of T ino "fo_running F ! i" s f s1 ok]
  by (auto simp: fan_data_ok_def dest!: set_update_subset_insert [THEN subsetD])

lemma fan_data_ok_ends:
  "fan_data_ok ok F \<Longrightarrow> i < length (fo_running F)
     \<Longrightarrow> fan_data_ok ok (F\<lparr>fo_running := remove_nth i (fo_running F), fo_tasks := fo_tasks F @ spawned wait ino bm (fo_running F ! i)\<rparr>)"
  using future_tasks_data(1) [OF fan_data_ok_nth [of ok F i]]
  by (auto simp: fan_data_ok_def dest: set_remove_nth [THEN subsetD])

lemma fan_data_ok_init:
  "(\<And>blk. blk \<in> set blks \<Longrightarrow> ok (snd blk)) \<Longrightarrow> fan_data_ok ok \<lparr> fo_waiting = blks, fo_running = [], fo_tasks = [] \<rparr>"
  by (simp add: fan_data_ok_def)

lemma fan_data_ok_tasks: "fan_data_ok ok F \<Longrightarrow> t \<in> set (fo_tasks F) \<Longrightarrow> ok (rt_data t)"
  by (simp add: fan_data_ok_def)

lemma write_all_tasks_data:
  assumes "write_all T wait ino bm pick blks s = (r, ts, s')" and "\<And>blk. blk \<in> set blks \<Longrightarrow> ok (snd blk)"
  shows "\<forall>t \<in> set ts. ok (rt_data t)"
proof (rule fan_out_rule [OF assms(1) [unfolded write_all_def], where I = "\<lambda>F t. fan_data_ok ok F"])
  fix F i s1
  assume "fan_data_ok ok F"
  then show "\<forall>t \<in> set (fo_tasks F @ concat (map (in_flight ino) (remove_nth i (fo_running F)))). ok (rt_data t)"
    by (auto simp: fan_data_ok_def dest!: set_remove_nth [THEN subsetD] intro: future_tasks_data(2))
qed (use assms(2) in \<open>auto intro: fan_data_ok_init fan_data_ok_fill fan_data_ok_goes fan_data_ok_ends dest: fan_data_ok_tasks\<close>)

text \<open>
  What every store call of a publish keeps, all of them together keep.  \<open>R\<close> is a relation
  between client states, stated once for the two steps a write consists of; \<open>ok\<close> is a
  condition on the data under which a write keeps it.
\<close>

locale write_frame =
  fixes T :: "'w transport" and R :: "'w fs \<Rightarrow> 'w fs \<Rightarrow> bool" and ok :: "bytes \<Rightarrow> bool"
  assumes R_refl: "R s s" and R_trans: "R s t \<Longrightarrow> R t u \<Longrightarrow> R s u"
    and R_pool: "pool_get T n s = (r, t) \<Longrightarrow> R s t"
    and R_write: "authed_call T (\<lambda>md. t_write_block T c md rq) s = (q, t) \<Longrightarrow> ok (wb_data rq) \<Longrightarrow> R s t"
begin

lemma send_block_frame:
  assumes "send_block T ino idx n c data s = (r, s')" and "ok data"
  shows "R s s'"
proof -
  obtain a s1 where a: "authed_call T (\<lambda>md. t_write_block T c md \<lparr> wb_key = Some (write_key ino idx), wb_data = data \<rparr>) s = (a, s1)"
    by fastforce
  have "R s s1" by (rule R_write [OF a]) (simp add: assms(2))
  then show ?thesis using assms(1) a by (cases a) (simp_all add: send_block_def)
qed

lemma write_one_frame:
  assumes "write_one T ino idx n data s = (r, s')" and "ok data"
  shows "R s s'"
proof -
  obtain p s1 where p: "pool_get T n s = (p, s1)" by fastforce
  note 1 = R_pool [OF p]
  show ?thesis
    using assms p 1 send_block_frame R_trans [OF 1] by (cases p) (auto simp: write_one_def)
qed

lemma run_replica_task_frame: "ok (rt_data rt) \<Longrightarrow> R s (run_replica_task T rt s)"
  by (auto simp: run_replica_task_def split: option.split intro: write_one_frame send_block_frame prod.collapse [symmetric])

text \<open>The data a future has left to write.\<close>

lemma future_step_frame:
  assumes "future_step T ino f s = (q, s')" and "future_data_ok ok f"
  shows "R s s'"
  using assms
proof (cases "(T, ino, f, s)" rule: future_step.cases)
  case (3 T' ino' idx buf n ns s0)
  then show ?thesis
    using assms R_pool [of n s] by (auto split: prod.splits result.splits)
next
  case (4 T' ino' idx buf n c ns s0)
  then show ?thesis
    using assms send_block_frame [of ino idx n c buf s] by (auto split: prod.splits result.splits)
qed (use R_refl in auto)

lemma write_all_frame:
  assumes "write_all T wait ino bm pick blks s = (r, ts, s')" and "\<And>blk. blk \<in> set blks \<Longrightarrow> ok (snd blk)"
  shows "R s s'"
proof (rule fan_out_rule [OF assms(1) [unfolded write_all_def], where I = "\<lambda>F t. fan_data_ok ok F \<and> R s t"])
  show "fan_data_ok ok \<lparr> fo_waiting = blks, fo_running = [], fo_tasks = [] \<rparr> \<and> R s s"
    using assms(2) R_refl fan_data_ok_init by blast
qed (auto intro: fan_data_ok_fill fan_data_ok_goes fan_data_ok_ends R_trans future_step_frame fan_data_ok_nth)

end

text \<open>The case without a condition on the data.\<close>

locale call_frame =
  fixes T :: "'w transport" and R :: "'w fs \<Rightarrow> 'w fs \<Rightarrow> bool"
  assumes C_refl: "R s s" and C_trans: "R s t \<Longrightarrow> R t u \<Longrightarrow> R s u"
    and C_pool: "pool_get T n s = (r, t) \<Longrightarrow> R s t"
    and C_write: "authed_call T (\<lambda>md. t_write_block T c md rq) s = (q, t) \<Longrightarrow> R s t"

sublocale call_frame \<subseteq> any: write_frame T R "\<lambda>_. True"
  by unfold_locales (rule C_refl, erule C_trans, assumption, erule C_pool, erule C_write)

context call_frame
begin

lemma write_all_call_frame: "write_all T wait ino bm pick blks s = (r, ts, s') \<Longrightarrow> R s s'"
  by (rule any.write_all_frame) simp_all

end

section \<open>Writing to the stores of a cluster\<close>

text \<open>
  The blocks of a cluster, by address and key: the interface of a block store that the
  single store implements holds for the whole cluster too.
\<close>

definition cl_rd :: "cluster \<Rightarrow> string \<times> proto_block_key \<Rightarrow> bytes option" where
  "cl_rd w ak = (case cw_stores w (fst ak) of None \<Rightarrow> None | Some st \<Rightarrow> store_rd st (snd ak))"

definition cl_wr :: "string \<Rightarrow> string \<times> proto_block_key \<Rightarrow> bytes \<Rightarrow> cluster \<Rightarrow> cluster \<times> bool" where
  "cl_wr token ak data w =
     (case to_store (fst ak) [''cluster-token'' \<mapsto> token] (store_write_block \<lparr> wb_key = Some (snd ak), wb_data = data \<rparr>) w of
        (r, w') \<Rightarrow> (w', case r of Inl _ \<Rightarrow> False | Inr _ \<Rightarrow> True))"

definition world_frame :: "cluster \<Rightarrow> cluster \<Rightarrow> bool" where
  "world_frame w w' \<longleftrightarrow> cw_meta w' = cw_meta w \<and> cw_token w' = cw_token w \<and> cw_now w' = cw_now w
     \<and> cw_tasks w' = cw_tasks w \<and> dom (cw_stores w') = dom (cw_stores w)"

lemma world_frame_refl [simp]: "world_frame w w"
  by (simp add: world_frame_def)

lemma world_frame_trans: "world_frame w w' \<Longrightarrow> world_frame w' w'' \<Longrightarrow> world_frame w w''"
  by (simp add: world_frame_def)

lemma cl_wr_cases:
  obtains (refused) w' where "cl_wr token ak data w = (w, False)"
  | (stored) st where "cw_stores w (fst ak) = Some st" "store_wr (snd ak) data st = (fst (store_write_block \<lparr> wb_key = Some (snd ak), wb_data = data \<rparr> st), True)"
      "cl_wr token ak data w = (w\<lparr>cw_stores := (cw_stores w)(fst ak \<mapsto> fst (store_write_block \<lparr> wb_key = Some (snd ak), wb_data = data \<rparr> st))\<rparr>, True)"
proof (cases "cw_stores w (fst ak)")
  case None
  then show ?thesis using refused by (simp add: cl_wr_def to_store_def)
next
  case (Some st)
  let ?r = "\<lparr> wb_key = Some (snd ak), wb_data = data \<rparr>"
  have same: "w\<lparr>cw_stores := (cw_stores w)(fst ak \<mapsto> st)\<rparr> = w" using Some by (simp add: fun_upd_idem)
  show ?thesis
  proof (cases "[''cluster-token'' \<mapsto> token] ''cluster-token'' = Some (cw_token w)")
    case False
    then have "guarded Some (cw_token w) [''cluster-token'' \<mapsto> token] (store_write_block ?r) st
        = (st, Err (st_unauthenticated ''invalid cluster token''))"
      by (simp add: guarded_def check_token_def)
    then show ?thesis using refused Some same by (simp add: cl_wr_def to_store_def rpc_of_def)
  next
    case True
    then have t: "cw_token w = token" by simp
    show ?thesis
    proof (cases rule: store_write_block_cases [of ?r st])
      case (fail e)
      then show ?thesis
        using refused Some same by (simp add: cl_wr_def to_store_token [OF Some t] rpc_of_def)
    next
      case (ok k)
      then show ?thesis
        using stored [OF Some] by (simp add: cl_wr_def to_store_token [OF Some t] rpc_of_def store_wr_def)
    qed
  qed
qed

interpretation cs: block_store cl_rd "cl_wr token" for token
proof
  fix ak data w w'
  assume "cl_wr token ak data w = (w', True)"
  then show "cl_rd w' = (cl_rd w)(ak \<mapsto> data)"
  proof (cases rule: cl_wr_cases [of token ak data w])
    case (stored st)
    with \<open>cl_wr token ak data w = (w', True)\<close> show ?thesis
      using st.rd_wr_ok [OF stored(2)] by (cases ak) (auto simp: cl_rd_def fun_eq_iff)
  qed simp
next
  fix ak data w w'
  assume "cl_wr token ak data w = (w', False)"
  then show "w' = w"
    by (cases rule: cl_wr_cases [of token ak data w]) simp_all
qed

lemma cl_wr_frame: "cl_wr token ak data w = (w', b) \<Longrightarrow> world_frame w w'"
  by (cases rule: cl_wr_cases [of token ak data w]) (auto simp: world_frame_def split: if_splits)

text \<open>The client's side: its pool agrees with the addresses, nothing else changes.\<close>

definition pool_ok :: "(node_id, string) hmap \<Rightarrow> 'w fs \<Rightarrow> bool" where
  "pool_ok M s \<longleftrightarrow> fs_addrs s = M \<and> (\<forall>nid c. fs_clients s nid = Some c \<longrightarrow> hm_get M nid = Some c)"

definition client_frame :: "'w fs \<Rightarrow> 'w fs \<Rightarrow> bool" where
  "client_frame s s' \<longleftrightarrow> fs_open_files s' = fs_open_files s \<and> fs_token s' = fs_token s
     \<and> fs_block_cache s' = fs_block_cache s \<and> fs_block_size s' = fs_block_size s"

lemma client_frame_refl [simp]: "client_frame s s"
  by (simp add: client_frame_def)

lemma client_frame_trans: "client_frame s s' \<Longrightarrow> client_frame s' s'' \<Longrightarrow> client_frame s s''"
  by (simp add: client_frame_def)

lemma pool_get_direct:
  assumes "pool_get (direct xxh3) n s = (r, s1)" and "pool_ok M s"
  shows "pool_ok M s1 \<and> client_frame s s1 \<and> fs_world s1 = fs_world s \<and> (\<forall>a. r = Ok a \<longrightarrow> hm_get M n = Some a)"
proof (cases "fs_clients s n")
  case (Some c)
  then show ?thesis using assms by (auto simp: pool_get_def pool_ok_def)
next
  case None
  then show ?thesis
    using assms by (auto simp: pool_get_def pool_ok_def client_frame_def direct_simps Let_def split: option.splits if_splits)
qed

lemma send_block_direct:
  assumes "send_block (direct xxh3) ino idx n c data s = (r, s1)"
  shows "cl_wr (fs_token s) (c, write_key ino idx) data (fs_world s) = (fs_world s1, r = Ok ())
    \<and> s1 = s\<lparr>fs_world := fs_world s1\<rparr> \<and> r \<noteq> Panic"
proof -
  let ?rq = "\<lparr> wb_key = Some (write_key ino idx), wb_data = data \<rparr>"
  let ?wr = "to_store c [''cluster-token'' \<mapsto> fs_token s] (store_write_block ?rq) (fs_world s)"
  have "authed_call (direct xxh3) (\<lambda>md. t_write_block (direct xxh3) c md ?rq) s
      = ((case fst ?wr of Inl e \<Rightarrow> Err e | Inr a \<Rightarrow> Ok a), s\<lparr>fs_world := snd ?wr\<rparr>)"
    using authed_call_eq [of "direct xxh3" s "fs_token s" _ "\<lambda>md. t_write_block (direct xxh3) c md ?rq", OF _ refl]
    by (simp add: direct_simps)
  then show ?thesis
    using assms by (cases "fst ?wr") (auto simp: send_block_def cl_wr_def split_def)
qed

lemma write_key_inject [simp]: "write_key ino idx = write_key ino' idx' \<longleftrightarrow> ino = ino' \<and> idx = idx'"
  by (cases ino; cases ino'; cases idx; cases idx') (auto simp: write_key_def)

section \<open>The blocks during a fan-out\<close>

text \<open>
  A fan-out on a cluster has fixed data: the addresses, the nodes it may write to, the
  inode, the placements and the dirty blocks.  \<open>aims\<close> says that a block is to be stored at an
  address under a key, \<open>stored\<close> that it is there.
\<close>

record fan_job =
  j_addrs :: "(node_id, string) hmap"
  j_nodes :: "block_placement \<Rightarrow> node_id list"
  j_ino :: inode_id
  j_map :: "(block_idx, block_placement) btree"
  j_blks :: "(block_idx \<times> bytes) list"

definition aims :: "fan_job \<Rightarrow> string \<Rightarrow> proto_block_key \<Rightarrow> bytes \<Rightarrow> bool" where
  "aims J a k buf \<longleftrightarrow> (\<exists>idx p n. (idx, buf) \<in> set (j_blks J) \<and> k = write_key (j_ino J) idx \<and> bt_get (j_map J) idx = Some p
     \<and> n \<in> set (j_nodes J p) \<and> hm_get (j_addrs J) n = Some a)"

definition stored :: "fan_job \<Rightarrow> cluster \<Rightarrow> node_id \<Rightarrow> block_idx \<Rightarrow> bytes \<Rightarrow> bool" where
  "stored J w n idx buf \<longleftrightarrow>
     (\<exists>a. hm_get (j_addrs J) n = Some a \<and> cl_rd w (a, write_key (j_ino J) idx) = Some buf)"

text \<open>What the writes of a job may do to a cluster: nothing, or store blocks it aims at.\<close>

definition job_writes :: "fan_job \<Rightarrow> cluster \<Rightarrow> cluster \<Rightarrow> bool" where
  "job_writes J w w' \<longleftrightarrow> world_frame w w'
     \<and> (\<forall>a k. cl_rd w' (a, k) = cl_rd w (a, k) \<or> (\<exists>buf. aims J a k buf \<and> cl_rd w' (a, k) = Some buf))"

lemma job_writes_refl [simp]: "job_writes J w w"
  by (simp add: job_writes_def)

lemma job_writes_trans:
  assumes "job_writes J w w'" and "job_writes J w' w''"
  shows "job_writes J w w''"
proof -
  have "cl_rd w'' (a, k) = cl_rd w (a, k) \<or> (\<exists>buf. aims J a k buf \<and> cl_rd w'' (a, k) = Some buf)" for a k
  proof (cases "cl_rd w'' (a, k) = cl_rd w' (a, k)")
    case True
    then show ?thesis using assms(1) unfolding job_writes_def by simp
  next
    case False
    then show ?thesis using assms(2) unfolding job_writes_def by blast
  qed
  moreover have "world_frame w w''" using assms world_frame_trans unfolding job_writes_def by blast
  ultimately show ?thesis unfolding job_writes_def by blast
qed

lemma job_writes_wr:
  assumes "cl_wr token (a, k) buf w = (w', b)" and "aims J a k buf"
  shows "job_writes J w w'"
proof -
  have "world_frame w w'" by (rule cl_wr_frame [OF assms(1)])
  moreover have "cl_rd w' (a', k') = cl_rd w (a', k') \<or> (\<exists>buf. aims J a' k' buf \<and> cl_rd w' (a', k') = Some buf)" for a' k'
    using assms cs.rd_wr_ok [of token "(a, k)" buf w w'] cs.rd_wr_fail [of token "(a, k)" buf w w'] by (cases b) auto
  ultimately show ?thesis by (simp add: job_writes_def)
qed

definition job_ok :: "fan_job \<Rightarrow> bool" where
  "job_ok J \<longleftrightarrow> distinct (map fst (j_blks J))"

definition job_covers :: "fan_job \<Rightarrow> wait_policy \<Rightarrow> bool" where
  "job_covers J wait \<longleftrightarrow> (\<forall>p. set (synced wait p) \<subseteq> set (j_nodes J p))"

lemma job_blk_unique:
  "job_ok J \<Longrightarrow> (idx, buf) \<in> set (j_blks J) \<Longrightarrow> (idx, buf') \<in> set (j_blks J) \<Longrightarrow> buf = buf'"
  unfolding job_ok_def by (meson eq_key_imp_eq_value)

lemma stored_keeps:
  assumes "job_ok J" and "job_writes J w w'" and "(idx, buf) \<in> set (j_blks J)" and "stored J w n idx buf"
  shows "stored J w' n idx buf"
proof -
  obtain a where a: "hm_get (j_addrs J) n = Some a" "cl_rd w (a, write_key (j_ino J) idx) = Some buf"
    using assms(4) by (auto simp: stored_def)
  have "cl_rd w' (a, write_key (j_ino J) idx) = Some buf"
  proof (cases "cl_rd w' (a, write_key (j_ino J) idx) = cl_rd w (a, write_key (j_ino J) idx)")
    case False
    then obtain b where "aims J a (write_key (j_ino J) idx) b" "cl_rd w' (a, write_key (j_ino J) idx) = Some b"
      using assms(2) by (auto simp: job_writes_def)
    then show ?thesis using job_blk_unique [OF assms(1,3), of b] by (auto simp: aims_def)
  qed (simp add: a(2))
  with a(1) show ?thesis by (auto simp: stored_def)
qed

text \<open>
  Where a future stands: what it has passed is stored, what is left it still aims at.  A
  task carries a block of the job to a node of its placement.
\<close>

fun future_ok :: "fan_job \<Rightarrow> wait_policy \<Rightarrow> cluster \<Rightarrow> write_future \<Rightarrow> bool" where
  "future_ok J wait w WMissing \<longleftrightarrow> True"
| "future_ok J wait w (WGet idx buf ns) \<longleftrightarrow> (idx, buf) \<in> set (j_blks J)
     \<and> (\<exists>p pre. bt_get (j_map J) idx = Some p \<and> synced wait p = pre @ ns \<and> (\<forall>n \<in> set pre. stored J w n idx buf))"
| "future_ok J wait w (WSend idx buf n c ns) \<longleftrightarrow> (idx, buf) \<in> set (j_blks J) \<and> hm_get (j_addrs J) n = Some c
     \<and> (\<exists>p pre. bt_get (j_map J) idx = Some p \<and> synced wait p = pre @ n # ns \<and> (\<forall>n \<in> set pre. stored J w n idx buf))"

definition task_of_job :: "fan_job \<Rightarrow> replica_task \<Rightarrow> bool" where
  "task_of_job J t \<longleftrightarrow> rt_ino t = j_ino J \<and> (rt_idx t, rt_data t) \<in> set (j_blks J)
     \<and> (\<exists>p. bt_get (j_map J) (rt_idx t) = Some p \<and> rt_node t \<in> set (primary p # replicas p))
     \<and> (\<forall>c. rt_chan t = Some c \<longrightarrow> hm_get (j_addrs J) (rt_node t) = Some c)"

fun future_for :: "block_idx \<times> bytes \<Rightarrow> write_future \<Rightarrow> bool" where
  "future_for blk WMissing \<longleftrightarrow> True"
| "future_for blk (WGet idx buf ns) \<longleftrightarrow> blk = (idx, buf)"
| "future_for blk (WSend idx buf n c ns) \<longleftrightarrow> blk = (idx, buf)"

definition block_done :: "fan_job \<Rightarrow> wait_policy \<Rightarrow> cluster \<Rightarrow> block_idx \<times> bytes \<Rightarrow> bool" where
  "block_done J wait w blk \<longleftrightarrow>
     (\<exists>p. bt_get (j_map J) (fst blk) = Some p \<and> (\<forall>n \<in> set (synced wait p). stored J w n (fst blk) (snd blk)))"

definition fan_ok :: "fan_job \<Rightarrow> wait_policy \<Rightarrow> cluster fs \<Rightarrow> fanout \<Rightarrow> cluster fs \<Rightarrow> bool" where
  "fan_ok J wait s0 F s \<longleftrightarrow> pool_ok (j_addrs J) s \<and> client_frame s0 s \<and> job_writes J (fs_world s0) (fs_world s)
     \<and> set (fo_waiting F) \<subseteq> set (j_blks J)
     \<and> (\<forall>f \<in> set (fo_running F). future_ok J wait (fs_world s) f) \<and> (\<forall>t \<in> set (fo_tasks F). task_of_job J t)
     \<and> (\<forall>blk \<in> set (j_blks J). blk \<in> set (fo_waiting F) \<or> (\<exists>f \<in> set (fo_running F). future_for blk f)
          \<or> block_done J wait (fs_world s) blk)"

lemma future_ok_keeps:
  "job_ok J \<Longrightarrow> job_writes J w w' \<Longrightarrow> future_ok J wait w f \<Longrightarrow> future_ok J wait w' f"
  using stored_keeps by (cases f) (simp_all, blast+)

lemma block_done_keeps:
  "job_ok J \<Longrightarrow> job_writes J w w' \<Longrightarrow> blk \<in> set (j_blks J) \<Longrightarrow> block_done J wait w blk \<Longrightarrow> block_done J wait w' blk"
  using stored_keeps unfolding block_done_def by (metis prod.collapse)

lemma start_future_ok:
  "j_map J = bm \<Longrightarrow> blk \<in> set (j_blks J) \<Longrightarrow> future_ok J wait w (start_future wait bm blk)"
  by (auto simp: start_future_def split: prod.split option.split)

lemma future_for_start: "future_for blk (start_future wait bm blk)"
  by (auto simp: start_future_def split: prod.split option.split)

lemma fan_ok_fill:
  assumes "fan_ok J wait s0 F s" and "j_map J = bm"
  shows "fan_ok J wait s0 (fan_fill wait bm F) s"
proof -
  let ?k = "max_in_flight - length (fo_running F)"
  have "blk \<in> set (fo_waiting (fan_fill wait bm F)) \<or> (\<exists>f \<in> set (fo_running (fan_fill wait bm F)). future_for blk f)"
    if "blk \<in> set (fo_waiting F)" for blk
  proof -
    have "blk \<in> set (take ?k (fo_waiting F)) \<union> set (drop ?k (fo_waiting F))"
      using that by (metis append_take_drop_id set_append)
    then show ?thesis using future_for_start [of blk wait bm] unfolding fan_fill_sel set_append set_map by blast
  qed
  then have "\<forall>blk \<in> set (j_blks J). blk \<in> set (fo_waiting (fan_fill wait bm F))
      \<or> (\<exists>f \<in> set (fo_running (fan_fill wait bm F)). future_for blk f) \<or> block_done J wait (fs_world s) blk"
    using assms(1) unfolding fan_ok_def fan_fill_sel set_append by blast
  moreover have "set (fo_waiting (fan_fill wait bm F)) \<subseteq> set (j_blks J)"
    "\<forall>f \<in> set (fo_running (fan_fill wait bm F)). future_ok J wait (fs_world s) f"
    using assms(1) start_future_ok [OF assms(2)] unfolding fan_ok_def
    by (auto simp: fan_fill_sel dest: in_set_takeD in_set_dropD)
  ultimately show ?thesis using assms(1) by (simp add: fan_ok_def fan_fill_sel(1))
qed

text \<open>One step of a future.\<close>

definition step_ok :: "fan_job \<Rightarrow> wait_policy \<Rightarrow> write_future \<Rightarrow> future_next \<Rightarrow> cluster \<Rightarrow> bool" where
  "step_ok J wait f q w \<longleftrightarrow>
     (case q of
        Goes f' \<Rightarrow> future_ok J wait w f' \<and> (\<forall>blk. future_for blk f \<longrightarrow> future_for blk f')
      | Ends r \<Rightarrow> r = Ok () \<longrightarrow> (\<forall>blk. future_for blk f \<longrightarrow> block_done J wait w blk))"

lemma get_step_job:
  assumes "future_step (direct xxh3) ino (WGet idx buf (n # ns)) s = (q, s1)"
    and "future_ok J wait (fs_world s) (WGet idx buf (n # ns))" and "pool_ok (j_addrs J) s"
  shows "pool_ok (j_addrs J) s1 \<and> client_frame s s1 \<and> job_writes J (fs_world s) (fs_world s1)
    \<and> step_ok J wait (WGet idx buf (n # ns)) q (fs_world s1)"
proof -
  obtain r t where r: "pool_get (direct xxh3) n s = (r, t)" by fastforce
  from pool_get_direct [OF this assms(3)] show ?thesis
    using assms(1,2) r by (cases r) (auto simp: step_ok_def)
qed

lemma send_step_job:
  assumes step: "future_step (direct xxh3) ino (WSend idx buf n c ns) s = (q, s1)"
    and f: "future_ok J wait (fs_world s) (WSend idx buf n c ns)" and pool: "pool_ok (j_addrs J) s"
    and J: "job_ok J" "j_ino J = ino" "job_covers J wait"
  shows "pool_ok (j_addrs J) s1 \<and> client_frame s s1 \<and> job_writes J (fs_world s) (fs_world s1)
    \<and> step_ok J wait (WSend idx buf n c ns) q (fs_world s1)"
proof -
  obtain r t where r: "send_block (direct xxh3) ino idx n c buf s = (r, t)" by fastforce
  have s1: "s1 = t" using step r by (cases r) auto
  obtain p pre where blk: "(idx, buf) \<in> set (j_blks J)" and c: "hm_get (j_addrs J) n = Some c"
    and p: "bt_get (j_map J) idx = Some p" "synced wait p = pre @ n # ns" and pre: "\<forall>n \<in> set pre. stored J (fs_world s) n idx buf"
    using f by auto
  have "n \<in> set (j_nodes J p)" using J(3) p(2) unfolding job_covers_def by (metis in_set_conv_decomp subsetD)
  then have aim: "aims J c (write_key ino idx) buf" using blk c p(1) J(2) unfolding aims_def by blast
  have wr: "cl_wr (fs_token s) (c, write_key ino idx) buf (fs_world s) = (fs_world s1, r = Ok ())"
    and fr: "s1 = s\<lparr>fs_world := fs_world s1\<rparr>" using send_block_direct [OF r] s1 by simp_all
  have jw: "job_writes J (fs_world s) (fs_world s1)" by (rule job_writes_wr [OF wr aim])
  have "pool_ok (j_addrs J) s1" "client_frame s s1"
    using pool by (subst fr, simp add: pool_ok_def client_frame_def)+
  moreover have "step_ok J wait (WSend idx buf n c ns) q (fs_world s1)"
  proof (cases "r = Ok ()")
    case True
    then have "cl_rd (fs_world s1) (c, write_key ino idx) = Some buf" using cs.rd_wr_ok [of "fs_token s" _ buf "fs_world s"] wr by simp
    then have "stored J (fs_world s1) n idx buf" using c J(2) by (auto simp: stored_def)
    moreover have "\<forall>n \<in> set pre. stored J (fs_world s1) n idx buf" using stored_keeps [OF J(1) jw blk] pre by blast
    ultimately have "future_ok J wait (fs_world s1) (WGet idx buf ns)"
      using blk p by (auto intro!: exI [of _ "pre @ [n]"])
    then show ?thesis using step r True by (auto simp: step_ok_def)
  next
    case False
    then show ?thesis using step r by (cases r) (auto simp: step_ok_def)
  qed
  ultimately show ?thesis using jw by blast
qed

lemma future_step_job:
  assumes "future_step (direct xxh3) ino f s = (q, s1)"
    and "future_ok J wait (fs_world s) f" and "pool_ok (j_addrs J) s"
    and "job_ok J" and "j_ino J = ino" and "job_covers J wait"
  shows "pool_ok (j_addrs J) s1 \<and> client_frame s s1 \<and> job_writes J (fs_world s) (fs_world s1) \<and> step_ok J wait f q (fs_world s1)"
proof (cases f)
  case WMissing
  then show ?thesis using assms by (auto simp: step_ok_def)
next
  case (WGet idx buf ns)
  show ?thesis
  proof (cases ns)
    case Nil
    then show ?thesis using assms WGet by (auto simp: step_ok_def block_done_def)
  next
    case (Cons n ns')
    then show ?thesis using get_step_job [of xxh3 ino idx buf n ns' s q s1 J wait] assms WGet by simp
  qed
next
  case (WSend idx buf n c ns)
  then show ?thesis using send_step_job [of xxh3 ino idx buf n c ns s q s1 J wait] assms by simp
qed

lemma fan_ok_nth: "fan_ok J wait s0 F s \<Longrightarrow> i < length (fo_running F) \<Longrightarrow> future_ok J wait (fs_world s) (fo_running F ! i)"
  by (simp add: fan_ok_def)

lemma set_nth_remove:
  assumes "i < length xs"
  shows "set xs = insert (xs ! i) (set (remove_nth i xs))"
proof -
  have "set xs = set (take i xs @ xs ! i # drop (Suc i) xs)" using split_nth [OF assms] by simp
  then show ?thesis by (simp add: remove_nth_def)
qed

text \<open>
  After a step of one future, everything the job had is kept: the other futures stand where
  they stood, the blocks that were done are done.
\<close>

lemma fan_ok_others:
  assumes ok: "fan_ok J wait s0 F s" and i: "i < length (fo_running F)"
    and st: "client_frame s s1" "job_writes J (fs_world s) (fs_world s1)" and J: "job_ok J"
  shows "client_frame s0 s1" and "job_writes J (fs_world s0) (fs_world s1)"
    and "f \<in> set (remove_nth i (fo_running F)) \<Longrightarrow> future_ok J wait (fs_world s1) f"
    and "blk \<in> set (j_blks J) \<Longrightarrow> blk \<in> set (fo_waiting F) \<or> (\<exists>f \<in> set (remove_nth i (fo_running F)). future_for blk f)
         \<or> future_for blk (fo_running F ! i) \<or> block_done J wait (fs_world s1) blk"
proof -
  show "client_frame s0 s1" using ok client_frame_trans [OF _ st(1)] by (simp add: fan_ok_def)
  show "job_writes J (fs_world s0) (fs_world s1)" using ok job_writes_trans [OF _ st(2)] by (simp add: fan_ok_def)
  show "future_ok J wait (fs_world s1) f" if "f \<in> set (remove_nth i (fo_running F))"
    using ok future_ok_keeps [OF J st(2)] subsetD [OF set_remove_nth that] by (simp add: fan_ok_def)
  show "blk \<in> set (fo_waiting F) \<or> (\<exists>f \<in> set (remove_nth i (fo_running F)). future_for blk f)
      \<or> future_for blk (fo_running F ! i) \<or> block_done J wait (fs_world s1) blk" if blk: "blk \<in> set (j_blks J)"
  proof -
    have "blk \<in> set (fo_waiting F) \<or> (\<exists>f \<in> insert (fo_running F ! i) (set (remove_nth i (fo_running F))). future_for blk f)
        \<or> block_done J wait (fs_world s) blk"
      using ok blk by (simp add: fan_ok_def set_nth_remove [OF i])
    then show ?thesis using block_done_keeps [OF J st(2) blk] by blast
  qed
qed

lemma fan_okI:
  assumes "pool_ok (j_addrs J) s" and "client_frame s0 s" and "job_writes J (fs_world s0) (fs_world s)"
    and "set (fo_waiting F) \<subseteq> set (j_blks J)" and "\<And>f. f \<in> set (fo_running F) \<Longrightarrow> future_ok J wait (fs_world s) f"
    and "\<And>t. t \<in> set (fo_tasks F) \<Longrightarrow> task_of_job J t"
    and "\<And>blk. blk \<in> set (j_blks J) \<Longrightarrow> blk \<in> set (fo_waiting F) \<or> (\<exists>f \<in> set (fo_running F). future_for blk f)
          \<or> block_done J wait (fs_world s) blk"
  shows "fan_ok J wait s0 F s"
  using assms by (simp add: fan_ok_def)

lemma fan_ok_goes:
  assumes ok: "fan_ok J wait s0 F s" and i: "i < length (fo_running F)"
    and step: "future_step (direct xxh3) ino (fo_running F ! i) s = (Goes f, s1)"
    and J: "job_ok J" "j_ino J = ino" "job_covers J wait"
  shows "fan_ok J wait s0 (F\<lparr>fo_running := (fo_running F)[i := f]\<rparr>) s1"
proof -
  have pool: "pool_ok (j_addrs J) s" using ok by (simp add: fan_ok_def)
  have st: "pool_ok (j_addrs J) s1" "client_frame s s1" "job_writes J (fs_world s) (fs_world s1)"
    and f: "future_ok J wait (fs_world s1) f" "\<And>blk. future_for blk (fo_running F ! i) \<Longrightarrow> future_for blk f"
    using future_step_job [OF step fan_ok_nth [OF ok i] pool J] by (simp_all add: step_ok_def del: split_paired_All)
  note rest = fan_ok_others [OF ok i st(2,3) J(1)]
  have mem: "set ((fo_running F)[i := f]) = insert f (set (remove_nth i (fo_running F)))"
    using set_nth_remove [of i "(fo_running F)[i := f]"] i by (simp add: remove_nth_update)
  show ?thesis
  proof (rule fan_okI)
    show "future_ok J wait (fs_world s1) g" if "g \<in> set (fo_running (F\<lparr>fo_running := (fo_running F)[i := f]\<rparr>))" for g
      using that rest(3) f(1) by (auto simp: mem)
    show "blk \<in> set (fo_waiting (F\<lparr>fo_running := (fo_running F)[i := f]\<rparr>))
        \<or> (\<exists>g \<in> set (fo_running (F\<lparr>fo_running := (fo_running F)[i := f]\<rparr>)). future_for blk g)
        \<or> block_done J wait (fs_world s1) blk" if "blk \<in> set (j_blks J)" for blk
      using rest(4) [OF that] f(2) [of blk] by (auto simp: mem)
  qed (use st rest(1,2) ok in \<open>simp_all add: fan_ok_def\<close>)
qed

lemma spawned_of_job:
  "future_ok J wait w f \<Longrightarrow> t \<in> set (spawned wait (j_ino J) (j_map J) f) \<Longrightarrow> task_of_job J t"
  by (cases f; cases wait) (auto simp: task_of_job_def)

lemma set_synced: "set (synced wait p) \<subseteq> set (primary p # replicas p)"
  by (auto simp: synced_def split: wait_policy.split)

lemma in_flight_of_job:
  assumes "future_ok J wait w f" and "t \<in> set (in_flight (j_ino J) f)"
  shows "task_of_job J t"
proof (cases f)
  case (WSend idx buf n c ns)
  then obtain p pre where p: "bt_get (j_map J) idx = Some p" "synced wait p = pre @ n # ns" using assms(1) by auto
  then have "n \<in> set (primary p # replicas p)" using set_synced [of wait p] by simp
  then show ?thesis using assms p(1) WSend by (simp add: task_of_job_def)
qed (use assms(2) in simp_all)

lemma fan_ok_ends:
  assumes ok: "fan_ok J wait s0 F s" and i: "i < length (fo_running F)"
    and step: "future_step (direct xxh3) ino (fo_running F ! i) s = (Ends (Ok u), s1)"
    and J: "job_ok J" "j_ino J = ino" "job_covers J wait" "j_map J = bm"
  shows "fan_ok J wait s0 (F\<lparr>fo_running := remove_nth i (fo_running F), fo_tasks := fo_tasks F @ spawned wait ino bm (fo_running F ! i)\<rparr>) s1"
    (is "fan_ok J wait s0 ?F s1")
proof -
  have pool: "pool_ok (j_addrs J) s" using ok by (simp add: fan_ok_def)
  note f = fan_ok_nth [OF ok i]
  have st: "pool_ok (j_addrs J) s1" "client_frame s s1" "job_writes J (fs_world s) (fs_world s1)"
    and fin: "\<And>blk. future_for blk (fo_running F ! i) \<Longrightarrow> block_done J wait (fs_world s1) blk"
    using future_step_job [OF step f pool J(1-3)] by (simp_all add: step_ok_def del: split_paired_All)
  note rest = fan_ok_others [OF ok i st(2,3) J(1)]
  show ?thesis
  proof (rule fan_okI)
    show "task_of_job J t" if "t \<in> set (fo_tasks ?F)" for t
      using that ok spawned_of_job [OF f] J(2,4) by (auto simp: fan_ok_def)
    show "blk \<in> set (fo_waiting ?F) \<or> (\<exists>g \<in> set (fo_running ?F). future_for blk g) \<or> block_done J wait (fs_world s1) blk"
      if "blk \<in> set (j_blks J)" for blk
      using rest(4) [OF that] fin [of blk] by auto
  qed (use st rest(1-3) ok in \<open>simp_all add: fan_ok_def\<close>)
qed

lemma fan_ok_init:
  assumes "pool_ok (j_addrs J) s" and "j_blks J = blks"
  shows "fan_ok J wait s \<lparr> fo_waiting = blks, fo_running = [], fo_tasks = [] \<rparr> s"
  using assms by (simp add: fan_ok_def)

text \<open>The end of a fan-out, however it comes out.\<close>

lemma write_all_job:
  assumes "write_all (direct xxh3) wait ino bm pick blks s = (r, ts, s')" and "pool_ok (j_addrs J) s"
    and J: "job_ok J" "j_ino J = ino" "job_covers J wait" "j_map J = bm" "j_blks J = blks"
  shows "pool_ok (j_addrs J) s' \<and> client_frame s s' \<and> job_writes J (fs_world s) (fs_world s')
    \<and> (\<forall>t \<in> set ts. task_of_job J t) \<and> (r = Ok () \<longrightarrow> (\<forall>blk \<in> set blks. block_done J wait (fs_world s') blk))"
proof (rule fan_out_rule [OF assms(1) [unfolded write_all_def], where I = "fan_ok J wait s"])
  fix F t i e s1
  assume ok: "fan_ok J wait s F t" and i: "i < length (fo_running F)"
    and step: "future_step (direct xxh3) ino (fo_running F ! i) t = (Ends e, s1)" and e: "e \<noteq> Ok ()"
  have pool: "pool_ok (j_addrs J) t" using ok by (simp add: fan_ok_def)
  have st: "pool_ok (j_addrs J) s1" "client_frame t s1" "job_writes J (fs_world t) (fs_world s1)"
    using future_step_job [OF step fan_ok_nth [OF ok i] pool J(1-3)] by simp_all
  note rest = fan_ok_others [OF ok i st(2,3) J(1)]
  have "task_of_job J x" if "x \<in> set (fo_tasks F @ concat (map (in_flight ino) (remove_nth i (fo_running F))))" for x
    using that ok in_flight_of_job [OF rest(3)] J(2) by (auto simp: fan_ok_def)
  then show "pool_ok (j_addrs J) s1 \<and> client_frame s s1 \<and> job_writes J (fs_world s) (fs_world s1)
      \<and> (\<forall>x \<in> set (fo_tasks F @ concat (map (in_flight ino) (remove_nth i (fo_running F)))). task_of_job J x)
      \<and> (e = Ok () \<longrightarrow> (\<forall>blk \<in> set blks. block_done J wait (fs_world s1) blk))"
    using st(1) rest(1,2) e by blast
next
  fix F t assume "fan_ok J wait s F t" "fo_waiting F = []" "fo_running F = []"
  then show "pool_ok (j_addrs J) t \<and> client_frame s t \<and> job_writes J (fs_world s) (fs_world t)
      \<and> (\<forall>x \<in> set (fo_tasks F). task_of_job J x) \<and> (Ok () = Ok () \<longrightarrow> (\<forall>blk \<in> set blks. block_done J wait (fs_world t) blk))"
    using J(5) by (simp add: fan_ok_def)
qed (use assms in \<open>auto intro: fan_ok_init fan_ok_fill fan_ok_goes fan_ok_ends\<close>)

text \<open>The tasks that a fan-out has left behind write what it would have written.\<close>

lemma send_block_job:
  assumes "send_block (direct xxh3) (j_ino J) idx n c data s = (r, s')" and "pool_ok (j_addrs J) s"
    and "aims J c (write_key (j_ino J) idx) data"
  shows "pool_ok (j_addrs J) s' \<and> job_writes J (fs_world s) (fs_world s')"
proof -
  have wr: "cl_wr (fs_token s) (c, write_key (j_ino J) idx) data (fs_world s) = (fs_world s', r = Ok ())"
    and fr: "s' = s\<lparr>fs_world := fs_world s'\<rparr>" using send_block_direct [OF assms(1)] by simp_all
  have "pool_ok (j_addrs J) s'" using assms(2) by (subst fr) (simp add: pool_ok_def)
  then show ?thesis using job_writes_wr [OF wr assms(3)] by blast
qed

lemma run_replica_task_job:
  assumes task: "task_of_job J t" and pool: "pool_ok (j_addrs J) s" and "j_nodes J = (\<lambda>p. primary p # replicas p)"
  shows "pool_ok (j_addrs J) (run_replica_task (direct xxh3) t s)
    \<and> job_writes J (fs_world s) (fs_world (run_replica_task (direct xxh3) t s))"
proof -
  have ino: "rt_ino t = j_ino J" using task by (simp add: task_of_job_def)
  have aim: "aims J a (write_key (j_ino J) (rt_idx t)) (rt_data t)" if "hm_get (j_addrs J) (rt_node t) = Some a" for a
    using task that assms(3) by (auto simp: task_of_job_def aims_def)
  show ?thesis
  proof (cases "rt_chan t")
    case (Some c)
    then have "hm_get (j_addrs J) (rt_node t) = Some c" using task by (simp add: task_of_job_def)
    then show ?thesis
      using send_block_job [OF prod.collapse [symmetric] pool aim] by (simp add: run_replica_task_def Some ino)
  next
    case None
    obtain q s1 where g: "pool_get (direct xxh3) (rt_node t) s = (q, s1)" by fastforce
    note direct = pool_get_direct [OF g pool]
    show ?thesis
    proof (cases q)
      case (Ok c)
      then have "hm_get (j_addrs J) (rt_node t) = Some c" and pool1: "pool_ok (j_addrs J) s1" and w: "fs_world s1 = fs_world s"
        using direct by simp_all
      then show ?thesis
        using send_block_job [OF prod.collapse [symmetric] pool1 aim] g Ok
        by (simp add: run_replica_task_def None ino write_one_def)
    qed (use g direct in \<open>simp_all add: run_replica_task_def None write_one_def\<close>)
  qed
qed

lemma late_tasks_job:
  assumes "\<forall>t \<in> set late. task_of_job J t" and "pool_ok (j_addrs J) s" and "j_nodes J = (\<lambda>p. primary p # replicas p)"
  shows "job_writes J (fs_world s) (fs_world (fold (run_replica_task (direct xxh3)) late s))"
  using assms(1,2)
proof (induction late arbitrary: s)
  case (Cons t late)
  let ?s1 = "run_replica_task (direct xxh3) t s"
  have 1: "pool_ok (j_addrs J) ?s1" "job_writes J (fs_world s) (fs_world ?s1)"
    using run_replica_task_job [OF _ Cons.prems(2) assms(3), of t xxh3] Cons.prems(1) by simp_all
  then show ?case using job_writes_trans [OF 1(2) Cons.IH [OF _ 1(1)]] Cons.prems(1) by simp
qed simp

text \<open>A fan-out that comes out well, whatever the interleaving.\<close>

lemma write_all_direct:
  assumes "write_all (direct xxh3) wait ino bm pick blks s = (Ok u, ts, s')" and "pool_ok M s" and "distinct (map fst blks)"
  shows "pool_ok M s' \<and> client_frame s s' \<and> world_frame (fs_world s) (fs_world s')
    \<and> (\<forall>(idx, buf) \<in> set blks. \<exists>p. bt_get bm idx = Some p \<and> (\<forall>n \<in> set (synced wait p).
         \<exists>a. hm_get M n = Some a \<and> cl_rd (fs_world s') (a, write_key ino idx) = Some buf))
    \<and> (\<forall>a k. k \<notin> write_key ino ` fst ` set blks \<longrightarrow> cl_rd (fs_world s') (a, k) = cl_rd (fs_world s) (a, k))"
proof -
  let ?J = "\<lparr> j_addrs = M, j_nodes = synced wait, j_ino = ino, j_map = bm, j_blks = blks \<rparr>"
  have all: "pool_ok M s'" "client_frame s s'" and jw: "job_writes ?J (fs_world s) (fs_world s')"
    and fin: "\<forall>blk \<in> set blks. block_done ?J wait (fs_world s') blk"
    using write_all_job [OF assms(1), of ?J] assms(2,3) by (simp_all add: job_ok_def job_covers_def)
  have "cl_rd (fs_world s') (a, k) = cl_rd (fs_world s) (a, k)" if "k \<notin> write_key ino ` fst ` set blks" for a k
  proof -
    have "\<not> aims ?J a k buf" for buf using that by (force simp: aims_def)
    then show ?thesis using jw unfolding job_writes_def by blast
  qed
  moreover have "\<exists>p. bt_get bm idx = Some p \<and> (\<forall>n \<in> set (synced wait p).
         \<exists>a. hm_get M n = Some a \<and> cl_rd (fs_world s') (a, write_key ino idx) = Some buf)" if "(idx, buf) \<in> set blks" for idx buf
    using bspec [OF fin that] by (simp add: block_done_def stored_def)
  ultimately show ?thesis using all jw unfolding job_writes_def by blast
qed

end
