(* ===== verification/Publish_Props.thy ===== *)
theory Publish_Props
  imports Cluster_Writes
begin

text \<open>
  What publishing does: that a failed publish loses the dirty data, and, on a cluster of
  the modelled servers, that a successful one stores every dirty block on its nodes,
  leaves every other block alone and installs the next generation, so that a client that
  opens the file afterwards reads the bytes the writer saw.
\<close>

section \<open>What publishing leaves alone in the client\<close>

lemma open_files_pool_get: "pool_get T n s = (r, s1) \<Longrightarrow> fs_open_files s1 = fs_open_files s"
  by (auto simp: pool_get_def Let_def split: option.splits if_splits prod.splits)

lemma open_files_authed_call: "authed_call T h s = (r, s1) \<Longrightarrow> fs_open_files s1 = fs_open_files s"
  by (auto simp: authed_call_def split: result.splits prod.splits sum.splits)

interpretation opf: call_frame T "\<lambda>s s'. fs_open_files s' = fs_open_files s" for T
  by unfold_locales (simp_all add: open_files_pool_get open_files_authed_call)

lemma publish_close_Err:
  "publish_close T fh idxs f s = (Err e, s') \<Longrightarrow> fs_open_files s' = fs_open_files s"
  by (auto simp: publish_close_def Let_def dest!: open_files_authed_call split: prod.splits result.splits)

text \<open>
  C40. A failed flush loses the data.  When a publish got as far as allocating its blocks
  and then fails, at a store or at the metadata server, the open file has no dirty block
  left: the next flush, fsync or release of the handle replies Ok without sending
  anything, and the bytes written are neither on the stores nor in the client.
\<close>

theorem failed_publish_loses_dirty:
  assumes "fs_open_files s fh = Some f" and "of_dirty f \<noteq> []"
    and "publish_addrs T s = (Ok (), s1)" and "publish_allocate T f s1 = (Ok f1, s2)"
    and "publish T pick fh wait s = (Err e, ts, s')"
  shows "\<exists>f'. fs_open_files s' fh = Some f' \<and> of_dirty f' = []
    \<and> publish T pick fh wait' s' = (Ok (), [], s') \<and> fst (fuse_release T pick fh s') = Ok ()"
proof -
  let ?f2 = "f1\<lparr>of_dirty := []\<rparr>"
  obtain r ts1 s4 where w: "write_all T wait (of_ino ?f2) (of_block_map ?f2) pick (of_dirty f1) (put_open_file fh ?f2 s2) = (r, ts1, s4)"
    by (metis prod_cases3)
  have files: "fs_open_files s4 fh = Some ?f2"
    using opf.write_all_call_frame [OF w] by (simp add: put_open_file_def)
  have "fs_open_files s' fh = Some ?f2"
  proof (cases r)
    case (Ok u)
    obtain r' s5 where c: "publish_close T fh (map (raw_idx \<circ> fst) (of_dirty f1)) ?f2 s4 = (r', s5)" by fastforce
    have "r' = Err e" "s5 = s'"
      using assms w Ok c by (simp_all add: publish_def Let_def)
    then show ?thesis using publish_close_Err c files by metis
  qed (use assms w files in \<open>simp_all add: publish_def Let_def\<close>)
  then show ?thesis
    by (simp add: publish_def fuse_release_def flush_path_def)
qed

definition sample_dirty_client :: "cluster fs" where
  "sample_dirty_client = sample_client\<lparr>fs_open_files := [1 \<mapsto> sample_open_file\<lparr>of_dirty := [(BlockIdx 0, [9, 9, 9, 9])]\<rparr>]\<rparr>"

theorem failed_publish_loses_dirty_witness:
  "\<exists>e ts s'. publish sample_T (\<lambda>_. 0) 1 PrimariesOnly sample_dirty_client = (Err e, ts, s')
     \<and> publish sample_T (\<lambda>_. 0) 1 PrimariesOnly s' = (Ok (), [], s')"
proof -
  let ?f = "sample_open_file\<lparr>of_dirty := [(BlockIdx 0, [9, 9, 9, 9])]\<rparr>"
  let ?s1 = "sample_dirty_client\<lparr>fs_addrs := []\<rparr>"
  have w: "fs_world sample_dirty_client = sample_cluster" "fs_token sample_dirty_client = ''t''"
    "fs_clients sample_dirty_client = Map.empty" "fs_open_files sample_dirty_client 1 = Some ?f"
    by (simp_all add: sample_dirty_client_def sample_client_def build_fs_def)
  have "to_meta [''cluster-token'' \<mapsto> ''t''] (\<lambda>m. (m, meta_list_nodes m)) sample_cluster = (Inr [], sample_cluster)"
    by (simp add: to_meta_token sample_cluster_def meta_list_nodes_def meta_new_def rpc_of_def)
  then have "authed_call sample_T (t_list_nodes sample_T) sample_dirty_client = (Ok [], sample_dirty_client\<lparr>fs_world := sample_cluster\<rparr>)"
    using authed_call_eq [of sample_T sample_dirty_client "''t''" _ "t_list_nodes sample_T", OF _ refl] by (simp add: w direct_simps)
  moreover have "sample_dirty_client\<lparr>fs_world := sample_cluster\<rparr> = sample_dirty_client"
    by (simp add: sample_dirty_client_def sample_client_def build_fs_def)
  ultimately have a: "publish_addrs sample_T sample_dirty_client = (Ok (), ?s1)"
    by (simp add: publish_addrs_def refresh_addrs_def addr_map_of_def hm_collect_def)
  have b: "publish_allocate sample_T ?f ?s1 = (Ok ?f, ?s1)"
    by (simp add: publish_allocate_def sample_open_file_def bt_contains_def bt_get_def)
  have "\<exists>s'. publish sample_T (\<lambda>_. 0) 1 PrimariesOnly sample_dirty_client = (Err (EStoreUnavailable (NodeId ''n1'')), [], s')"
    using w a b by (simp add: publish_def Let_def write_all_first synced_def sample_open_file_def bt_get_def write_one_def
        pool_get_def put_open_file_def hm_get_def)
  then obtain s' where "publish sample_T (\<lambda>_. 0) 1 PrimariesOnly sample_dirty_client = (Err (EStoreUnavailable (NodeId ''n1'')), [], s')"
    by blast
  with failed_publish_loses_dirty [OF w(4) _ a b this, of PrimariesOnly] show ?thesis by auto
qed

section \<open>The stages of a publish on a cluster\<close>

definition live_addrs :: "meta_state \<Rightarrow> (node_id, string) hmap" where
  "live_addrs m = addr_map_of (map node_info_to_proto (filter (\<lambda>n. ni_status n = Up) (map snd (nodes m))))"

lemma authed_call_meta_eq:
  assumes "fs_token s = cw_token (fs_world s)" and "h [''cluster-token'' \<mapsto> fs_token s] (fs_world s)
      = to_meta [''cluster-token'' \<mapsto> fs_token s] g (fs_world s)"
  shows "authed_call (direct xxh3) h s =
    ((case rpc_of (snd (g (cw_meta (fs_world s)))) of Inl e \<Rightarrow> Err e | Inr a \<Rightarrow> Ok a),
     s\<lparr>fs_world := (fs_world s)\<lparr>cw_meta := fst (g (cw_meta (fs_world s)))\<rparr>\<rparr>)"
  using authed_call_eq [of "direct xxh3" s "fs_token s" _ h, OF _ refl] to_meta_token [of "fs_world s" "fs_token s" g] assms
  by (simp add: direct_simps)

lemma authed_call_to_meta:
  assumes tok: "fs_token s = cw_token (fs_world s)" and h: "h [''cluster-token'' \<mapsto> fs_token s] (fs_world s)
      = to_meta [''cluster-token'' \<mapsto> fs_token s] g (fs_world s)"
    and ok: "authed_call (direct xxh3) h s = (Ok a, s')"
  shows "snd (g (cw_meta (fs_world s))) = Ok a \<and> s' = s\<lparr>fs_world := (fs_world s)\<lparr>cw_meta := fst (g (cw_meta (fs_world s)))\<rparr>\<rparr>"
  using ok authed_call_meta_eq [of s h g xxh3, OF tok h]
  by (cases "snd (g (cw_meta (fs_world s)))") (simp_all add: rpc_of_def)

lemma publish_addrs_direct:
  assumes tok: "fs_token s = cw_token (fs_world s)" and ok: "publish_addrs (direct xxh3) s = (Ok u, s1)"
  shows "s1 = s\<lparr>fs_addrs := live_addrs (cw_meta (fs_world s))\<rparr>"
proof -
  obtain r t where c: "authed_call (direct xxh3) (t_list_nodes (direct xxh3)) s = (r, t)" by fastforce
  obtain ns where r: "r = Ok ns" using ok c by (cases r) (simp_all add: publish_addrs_def)
  have "snd ((\<lambda>m. (m, meta_list_nodes m)) (cw_meta (fs_world s))) = Ok ns \<and> t = s\<lparr>fs_world := (fs_world s)\<lparr>cw_meta := fst ((\<lambda>m. (m, meta_list_nodes m)) (cw_meta (fs_world s)))\<rparr>\<rparr>"
    by (rule authed_call_to_meta [OF tok _ c [unfolded r]]) (simp add: direct_simps)
  then show ?thesis
    using ok c r by (simp add: publish_addrs_def meta_list_nodes_def live_addrs_def refresh_addrs_def)
qed

lemma insert_loc_placement: "insert_loc (placement_to_block_loc idx p) m = bt_insert idx p m"
proof -
  have "NodeId (as_str n) = n" for n by (cases n) simp
  then show ?thesis
    by (cases idx; cases p) (simp add: insert_loc_def placement_to_block_loc_def map_idI)
qed

lemma fold_insert_locs:
  "bt_get (fold insert_loc (map (\<lambda>i. placement_to_block_loc (BlockIdx i) (g (BlockIdx i))) is) m) idx =
     (if raw_idx idx \<in> set is then Some (g idx) else bt_get m idx)"
  by (induction "is" arbitrary: m) (cases idx, auto simp: insert_loc_placement)

text \<open>
  Placements as the client and the metadata server see them, and the metadata server
  after the allocation.
\<close>

definition maps_agree :: "open_file \<Rightarrow> inode \<Rightarrow> bool" where
  "maps_agree f n \<longleftrightarrow> (\<forall>idx. bt_get (of_block_map f) idx = bt_get (i_blocks n) idx)"

lemma publish_allocate_direct:
  assumes tok: "fs_token s = cw_token (fs_world s)" and ok: "publish_allocate (direct xxh3) f s = (Ok f1, s2)"
    and n: "inodes (cw_meta (fs_world s)) (of_ino f) = Some n" and agree: "maps_agree f n"
  shows "\<exists>b bm. f1 = f\<lparr>of_block_map := bm\<rparr> \<and> maps_agree f1 (n\<lparr>i_blocks := b\<rparr>)
    \<and> s2 = s\<lparr>fs_world := (fs_world s)\<lparr>cw_meta := put_inode (of_ino f) (n\<lparr>i_blocks := b\<rparr>) (cw_meta (fs_world s))\<rparr>\<rparr>
    \<and> (\<forall>idx. bt_get (of_block_map f) idx \<noteq> None \<longrightarrow> bt_get b idx = bt_get (of_block_map f) idx)
    \<and> (\<forall>idx. bt_get b idx \<noteq> None \<longrightarrow> bt_get (of_block_map f) idx \<noteq> None \<or> idx \<in> fst ` set (of_dirty f))
    \<and> (bt_wf (i_blocks n) \<longrightarrow> bt_wf b)"
proof -
  let ?w = "fs_world s" and ?m = "cw_meta (fs_world s)"
  let ?new = "map raw_idx (filter (\<lambda>i. \<not> bt_contains (of_block_map f) i) (map fst (of_dirty f)))"
  let ?r = "\<lparr> al_ino = raw (of_ino f), al_block_idxs = ?new \<rparr>"
  show ?thesis
  proof (cases "?new = []")
    case True
    have "f1 = f \<and> s2 = s" using ok True by (simp add: publish_allocate_def Let_def)
    moreover have "put_inode (of_ino f) (n\<lparr>i_blocks := i_blocks n\<rparr>) ?m = ?m" using n by (simp add: put_inode_same)
    ultimately show ?thesis
      using agree by (intro exI [of _ "i_blocks n"] exI [of _ "of_block_map f"]) (simp add: maps_agree_def)
  next
    case False
    obtain q t where c: "authed_call (direct xxh3) (\<lambda>md. t_allocate (direct xxh3) md ?r) s = (q, t)" by fastforce
    obtain locs where q: "q = Ok locs" and f1: "f1 = f\<lparr>of_block_map := fold insert_loc locs (of_block_map f)\<rparr>" and t: "s2 = t"
      using ok c False by (cases q) (simp_all add: publish_allocate_def Let_def)
    have al: "snd (meta_allocate_blocks xxh3 ?r ?m) = Ok locs" "t = s\<lparr>fs_world := ?w\<lparr>cw_meta := fst (meta_allocate_blocks xxh3 ?r ?m)\<rparr>\<rparr>"
      using authed_call_to_meta [OF tok _ c [unfolded q], of "meta_allocate_blocks xxh3 ?r"] by (simp_all add: direct_simps)
    have ino: "InodeId (raw (of_ino f)) = of_ino f" by (cases "of_ino f") simp
    have n': "inodes ?m (InodeId (al_ino ?r)) = Some n" using n by (simp add: ino)
    define g where "g = place_block xxh3 (live_nodes ?m) (replication_factor ?m) (InodeId (al_ino ?r))"
    define b where "b = alloc_blocks g (map BlockIdx (al_block_idxs ?r)) (i_blocks n)"
    note eq = meta_allocate_blocks_eq [OF n' g_def b_def]
    have locs: "locs = map (\<lambda>i. placement_to_block_loc (BlockIdx i) (the (bt_get b (BlockIdx i)))) ?new"
      and t': "t = s\<lparr>fs_world := ?w\<lparr>cw_meta := put_inode (of_ino f) (n\<lparr>i_blocks := b\<rparr>) ?m\<rparr>\<rparr>"
      using al unfolding eq by (simp_all add: ino)
    have in_new: "raw_idx idx \<in> set ?new \<longleftrightarrow> idx \<in> fst ` set (of_dirty f) \<and> bt_get (of_block_map f) idx = None" for idx
    proof -
      have "raw_idx i = raw_idx idx \<longleftrightarrow> i = idx" for i by (cases i; cases idx) simp
      then show ?thesis by (auto simp: bt_contains_def rev_image_eqI)
    qed
    have mem: "idx \<in> set (map BlockIdx L) \<longleftrightarrow> raw_idx idx \<in> set L" for idx L by (cases idx) auto
    have bget: "bt_get b idx = (case bt_get (of_block_map f) idx of Some p \<Rightarrow> Some p
        | None \<Rightarrow> if idx \<in> fst ` set (of_dirty f) then Some (g idx) else None)" for idx
      using agree unfolding b_def bt_get_alloc_blocks maps_agree_def alloc_req.simps mem in_new
      by (auto split: option.split)
    define bm where "bm = fold insert_loc locs (of_block_map f)"
    have "bt_get bm idx = (if raw_idx idx \<in> set ?new then Some (the (bt_get b idx)) else bt_get (of_block_map f) idx)" for idx
      unfolding bm_def locs by (rule fold_insert_locs)
    then have "bt_get bm idx = bt_get b idx" for idx
      unfolding in_new bget by (auto split: option.split)
    then have "maps_agree f1 (n\<lparr>i_blocks := b\<rparr>)" "f1 = f\<lparr>of_block_map := bm\<rparr>"
      by (simp_all add: maps_agree_def f1 bm_def)
    moreover have "bt_wf (i_blocks n) \<longrightarrow> bt_wf b" unfolding b_def by (simp add: bt_wf_alloc_blocks)
    ultimately show ?thesis
      using t t' bget by (intro exI [of _ b] exI [of _ bm]) (auto split: option.splits if_splits)
  qed
qed

lemma meta_close_OkD:
  assumes "meta_close now r m = (m', Ok a)" and "cl_written_block_idxs r \<noteq> []"
    and "open_handles m (cl_fh r) = Some h" and "inodes m (oh_ino h) = Some n"
  shows "i_generation n = Generation (cl_expected_generation r)
    \<and> (\<exists>t. m' = put_inode (oh_ino h) (close_apply now t r n) (m\<lparr>open_handles := (open_handles m)(cl_fh r := None)\<rparr>)
         \<and> a = Some (build_attr (close_apply now t r n)))"
  using assms by (auto simp: meta_close_def Let_def split: option.splits if_splits)

lemma publish_close_direct:
  assumes tok: "fs_token s = cw_token (fs_world s)" and ok: "publish_close (direct xxh3) fh idxs f s = (Ok u, s')"
    and idxs: "idxs \<noteq> []" and h: "open_handles (cw_meta (fs_world s)) fh = Some h" "oh_ino h = of_ino f"
    and n: "inodes (cw_meta (fs_world s)) (of_ino f) = Some n"
  shows "\<exists>n'. i_generation n = of_generation f \<and> i_generation n' = bump (of_generation f) \<and> i_size n' = of_size_hint f
    \<and> i_blocks n' = i_blocks n \<and> i_kind n' = i_kind n
    \<and> inodes (cw_meta (fs_world s')) = (inodes (cw_meta (fs_world s)))(of_ino f \<mapsto> n')
    \<and> open_handles (cw_meta (fs_world s')) = (open_handles (cw_meta (fs_world s)))(fh := None)
    \<and> nodes (cw_meta (fs_world s')) = nodes (cw_meta (fs_world s))
    \<and> cw_stores (fs_world s') = cw_stores (fs_world s) \<and> cw_token (fs_world s') = cw_token (fs_world s)
    \<and> fs_open_files s' = (fs_open_files s)(fh \<mapsto> f\<lparr>of_generation := bump (of_generation f)\<rparr>)
    \<and> fs_clients s' = fs_clients s \<and> fs_addrs s' = fs_addrs s \<and> fs_token s' = fs_token s \<and> fs_block_size s' = fs_block_size s"
proof -
  let ?w = "fs_world s" and ?now = "time_parts (t_now (direct xxh3) (fs_world s))"
  let ?r = "\<lparr> cl_fh = fh, cl_ino = raw (of_ino f), cl_expected_generation = raw_gen (of_generation f),
      cl_new_size = of_size_hint f, cl_written_block_idxs = idxs, cl_mtime_s = fst ?now, cl_mtime_ns = snd ?now \<rparr>"
  obtain q t where c: "authed_call (direct xxh3) (\<lambda>md. t_close (direct xxh3) md ?r) s = (q, t)" by fastforce
  obtain a where q: "q = Ok a" using ok c by (cases q) (simp_all add: publish_close_def Let_def)
  obtain m' where m': "meta_close (cw_now ?w) ?r (cw_meta ?w) = (m', Ok a)" and t: "t = s\<lparr>fs_world := ?w\<lparr>cw_meta := m'\<rparr>\<rparr>"
    using authed_call_to_meta [OF tok _ c [unfolded q], of "meta_close (cw_now ?w) ?r"]
    by (cases "meta_close (cw_now ?w) ?r (cw_meta ?w)") (simp_all add: direct_simps)
  have gen: "Generation (raw_gen g) = g" for g by (cases g) simp
  obtain tm where g: "i_generation n = of_generation f"
    and put: "m' = put_inode (of_ino f) (close_apply (cw_now ?w) tm ?r n) ((cw_meta ?w)\<lparr>open_handles := (open_handles (cw_meta ?w))(fh := None)\<rparr>)"
    and at: "a = Some (build_attr (close_apply (cw_now ?w) tm ?r n))"
    using meta_close_OkD [OF m', of h n] idxs h n by (auto simp: gen)
  have "at_generation (build_attr m) = raw_gen (i_generation m)" for m
    by (simp add: build_attr_def Let_def split: prod.split)
  then have "s' = put_open_file fh (f\<lparr>of_generation := bump (of_generation f)\<rparr>) t"
    using ok c q at g by (simp add: publish_close_def Let_def direct_simps gen close_apply_def put_open_file_def)
  then show ?thesis
    using t put g by (intro exI [of _ "close_apply (cw_now ?w) tm ?r n"]) (simp add: put_open_file_def close_apply_def ns_simps)
qed

lemma publish_OkD:
  assumes "publish T pick fh wait s = (Ok u, ts, s')" and "fs_open_files s fh = Some f" and "of_dirty f \<noteq> []"
  shows "\<exists>s1 f1 s2 s4. publish_addrs T s = (Ok (), s1) \<and> publish_allocate T f s1 = (Ok f1, s2)
    \<and> write_all T wait (of_ino f1) (of_block_map f1) pick (of_dirty f1) (put_open_file fh (f1\<lparr>of_dirty := []\<rparr>) s2) = (Ok (), ts, s4)
    \<and> publish_close T fh (map (raw_idx \<circ> fst) (of_dirty f1)) (f1\<lparr>of_dirty := []\<rparr>) s4 = (Ok (), s')"
  using assms by (auto simp: publish_def Let_def split: prod.splits result.splits)

text \<open>The first three stages: the placements are made, the blocks are stored, nothing else has changed.\<close>

lemma publish_stages:
  assumes 1: "publish_addrs (direct xxh3) s = (Ok (), s1)" and 2: "publish_allocate (direct xxh3) f s1 = (Ok f1, s2)"
    and 3: "write_all (direct xxh3) wait (of_ino f1) (of_block_map f1) pick (of_dirty f1) (put_open_file fh (f1\<lparr>of_dirty := []\<rparr>) s2) = (Ok (), ts, s4)"
    and wfd: "bt_wf (of_dirty f)" and tok: "fs_token s = cw_token (fs_world s)"
    and m: "m = cw_meta (fs_world s)" and n: "inodes m (of_ino f) = Some n" and ag: "maps_agree f n"
    and pool: "\<forall>nid c. fs_clients s nid = Some c \<longrightarrow> hm_get (live_addrs m) nid = Some c"
  shows "\<exists>b bm. f1 = f\<lparr>of_block_map := bm\<rparr> \<and> (\<forall>idx. bt_get bm idx = bt_get b idx)
    \<and> cw_meta (fs_world s4) = put_inode (of_ino f) (n\<lparr>i_blocks := b\<rparr>) m
    \<and> cw_token (fs_world s4) = cw_token (fs_world s) \<and> fs_token s4 = fs_token s
    \<and> dom (cw_stores (fs_world s4)) = dom (cw_stores (fs_world s))
    \<and> (\<forall>idx p. bt_get (i_blocks n) idx = Some p \<longrightarrow> bt_get b idx = Some p)
    \<and> (\<forall>idx. bt_get b idx \<noteq> None \<longrightarrow> bt_get (of_block_map f) idx \<noteq> None \<or> idx \<in> fst ` set (of_dirty f))
    \<and> (bt_wf (i_blocks n) \<longrightarrow> bt_wf b)
    \<and> (\<forall>(idx, buf) \<in> set (of_dirty f). \<exists>p. bt_get b idx = Some p \<and> (\<forall>nid \<in> set (synced wait p).
         \<exists>a. hm_get (live_addrs m) nid = Some a \<and> cl_rd (fs_world s4) (a, write_key (of_ino f) idx) = Some buf))
    \<and> (\<forall>a k. k \<notin> write_key (of_ino f) ` fst ` set (of_dirty f) \<longrightarrow> cl_rd (fs_world s4) (a, k) = cl_rd (fs_world s) (a, k))"
proof -
  have s1: "s1 = s\<lparr>fs_addrs := live_addrs m\<rparr>" using publish_addrs_direct [OF tok 1] m by simp
  have tok1: "fs_token s1 = cw_token (fs_world s1)" and n1: "inodes (cw_meta (fs_world s1)) (of_ino f) = Some n"
    using s1 tok m n by simp_all
  obtain b bm where f1: "f1 = f\<lparr>of_block_map := bm\<rparr>" and agree: "maps_agree f1 (n\<lparr>i_blocks := b\<rparr>)"
    and s2: "s2 = s1\<lparr>fs_world := (fs_world s1)\<lparr>cw_meta := put_inode (of_ino f) (n\<lparr>i_blocks := b\<rparr>) (cw_meta (fs_world s1))\<rparr>\<rparr>"
    and old: "\<forall>idx. bt_get (of_block_map f) idx \<noteq> None \<longrightarrow> bt_get b idx = bt_get (of_block_map f) idx"
    and new: "\<forall>idx. bt_get b idx \<noteq> None \<longrightarrow> bt_get (of_block_map f) idx \<noteq> None \<or> idx \<in> fst ` set (of_dirty f)"
    and wf: "bt_wf (i_blocks n) \<longrightarrow> bt_wf b"
    using publish_allocate_direct [OF tok1 2 n1 ag] by blast
  let ?s3 = "put_open_file fh (f1\<lparr>of_dirty := []\<rparr>) s2"
  have 3: "write_all (direct xxh3) wait (of_ino f) bm pick (of_dirty f) ?s3 = (Ok (), ts, s4)" using 3 by (simp add: f1)
  have pool3: "pool_ok (live_addrs m) ?s3" using pool by (simp add: pool_ok_def put_open_file_def s2 s1)
  note W = write_all_direct [OF 3 pool3 bt_wf_distinct [OF wfd]]
  have w3: "cl_rd (fs_world ?s3) = cl_rd (fs_world s)" by (simp add: put_open_file_def s2 s1 cl_rd_def fun_eq_iff)
  have bmb: "bt_get bm idx = bt_get b idx" for idx using agree f1 by (simp add: maps_agree_def)
  have "cw_meta (fs_world s4) = put_inode (of_ino f) (n\<lparr>i_blocks := b\<rparr>) m" "cw_token (fs_world s4) = cw_token (fs_world s)"
    "fs_token s4 = fs_token s" "dom (cw_stores (fs_world s4)) = dom (cw_stores (fs_world s))"
    using W s1 s2 m by (simp_all add: world_frame_def client_frame_def put_open_file_def)
  moreover have "bt_get b idx = Some p" if "bt_get (i_blocks n) idx = Some p" for idx p
    using old ag that by (metis maps_agree_def option.distinct(1))
  moreover have "\<forall>a k. k \<notin> write_key (of_ino f) ` fst ` set (of_dirty f) \<longrightarrow> cl_rd (fs_world s4) (a, k) = cl_rd (fs_world s) (a, k)"
    unfolding w3 [symmetric] using W by blast
  moreover have "\<forall>(idx, buf) \<in> set (of_dirty f). \<exists>p. bt_get b idx = Some p \<and> (\<forall>nid \<in> set (synced wait p).
         \<exists>a. hm_get (live_addrs m) nid = Some a \<and> cl_rd (fs_world s4) (a, write_key (of_ino f) idx) = Some buf)"
    using W by (simp add: bmb)
  ultimately show ?thesis
    using f1 bmb new wf by - (rule exI [of _ b], rule exI [of _ bm], simp)
qed

lemma publish_direct:
  assumes "publish (direct xxh3) pick fh wait s = (Ok (), ts, s')" and "fs_open_files s fh = Some f" and "of_dirty f \<noteq> []"
    and "bt_wf (of_dirty f)" and "fs_token s = cw_token (fs_world s)"
    and "m = cw_meta (fs_world s)" and "open_handles m fh = Some h" and "oh_ino h = of_ino f"
    and "inodes m (of_ino f) = Some n" and "maps_agree f n"
    and "\<forall>nid c. fs_clients s nid = Some c \<longrightarrow> hm_get (live_addrs m) nid = Some c"
  shows "\<exists>n' f'. inodes (cw_meta (fs_world s')) = (inodes m)(of_ino f \<mapsto> n') \<and> i_generation n = of_generation f
    \<and> i_generation n' = bump (of_generation f) \<and> i_size n' = of_size_hint f \<and> i_kind n' = i_kind n
    \<and> fs_open_files s' fh = Some f' \<and> of_dirty f' = [] \<and> of_generation f' = bump (of_generation f) \<and> maps_agree f' n'
    \<and> (\<forall>(idx, buf) \<in> set (of_dirty f). \<exists>p. bt_get (i_blocks n') idx = Some p \<and> (\<forall>nid \<in> set (synced wait p).
         \<exists>a. hm_get (live_addrs m) nid = Some a \<and> cl_rd (fs_world s') (a, write_key (of_ino f) idx) = Some buf))
    \<and> (\<forall>a k. k \<notin> write_key (of_ino f) ` fst ` set (of_dirty f) \<longrightarrow> cl_rd (fs_world s') (a, k) = cl_rd (fs_world s) (a, k))
    \<and> (\<forall>idx p. bt_get (i_blocks n) idx = Some p \<longrightarrow> bt_get (i_blocks n') idx = Some p)
    \<and> open_handles (cw_meta (fs_world s')) fh = None
    \<and> nodes (cw_meta (fs_world s')) = nodes m \<and> cw_token (fs_world s') = cw_token (fs_world s)
    \<and> dom (cw_stores (fs_world s')) = dom (cw_stores (fs_world s)) \<and> (bt_wf (i_blocks n) \<longrightarrow> bt_wf (i_blocks n'))
    \<and> (\<forall>idx. bt_get (i_blocks n') idx \<noteq> None \<longrightarrow> bt_get (of_block_map f) idx \<noteq> None \<or> idx \<in> fst ` set (of_dirty f))"
proof -
  obtain s1 f1 s2 s4 where 1: "publish_addrs (direct xxh3) s = (Ok (), s1)"
    and 2: "publish_allocate (direct xxh3) f s1 = (Ok f1, s2)"
    and 3: "write_all (direct xxh3) wait (of_ino f1) (of_block_map f1) pick (of_dirty f1) (put_open_file fh (f1\<lparr>of_dirty := []\<rparr>) s2) = (Ok (), ts, s4)"
    and 4: "publish_close (direct xxh3) fh (map (raw_idx \<circ> fst) (of_dirty f1)) (f1\<lparr>of_dirty := []\<rparr>) s4 = (Ok (), s')"
    using publish_OkD [OF assms(1-3)] by blast
  obtain b bm where f1: "f1 = f\<lparr>of_block_map := bm\<rparr>" and bmb: "\<forall>idx. bt_get bm idx = bt_get b idx"
    and meta4: "cw_meta (fs_world s4) = put_inode (of_ino f) (n\<lparr>i_blocks := b\<rparr>) m" "cw_token (fs_world s4) = cw_token (fs_world s)"
      "fs_token s4 = fs_token s"
    and doms: "dom (cw_stores (fs_world s4)) = dom (cw_stores (fs_world s))"
    and old: "\<forall>idx p. bt_get (i_blocks n) idx = Some p \<longrightarrow> bt_get b idx = Some p"
    and new: "\<forall>idx. bt_get b idx \<noteq> None \<longrightarrow> bt_get (of_block_map f) idx \<noteq> None \<or> idx \<in> fst ` set (of_dirty f)"
    and wf: "bt_wf (i_blocks n) \<longrightarrow> bt_wf b"
    and dirty: "\<forall>(idx, buf) \<in> set (of_dirty f). \<exists>p. bt_get b idx = Some p \<and> (\<forall>nid \<in> set (synced wait p).
         \<exists>a. hm_get (live_addrs m) nid = Some a \<and> cl_rd (fs_world s4) (a, write_key (of_ino f) idx) = Some buf)"
    and other: "\<forall>a k. k \<notin> write_key (of_ino f) ` fst ` set (of_dirty f) \<longrightarrow> cl_rd (fs_world s4) (a, k) = cl_rd (fs_world s) (a, k)"
    using publish_stages [where pick = pick, OF 1 2 3 assms(4-6,9-11)] by (elim exE conjE)
  let ?f2 = "f1\<lparr>of_dirty := []\<rparr>"
  have 4: "publish_close (direct xxh3) fh (map (raw_idx \<circ> fst) (of_dirty f)) ?f2 s4 = (Ok (), s')" using 4 by (simp add: f1)
  have tok4: "fs_token s4 = cw_token (fs_world s4)" using meta4 assms(5) by simp
  have h4: "open_handles (cw_meta (fs_world s4)) fh = Some h" "oh_ino h = of_ino ?f2"
    and n4: "inodes (cw_meta (fs_world s4)) (of_ino ?f2) = Some (n\<lparr>i_blocks := b\<rparr>)"
    using assms(7,8) f1 meta4 by (simp_all add: ns_simps)
  have "map (raw_idx \<circ> fst) (of_dirty f) \<noteq> []" using assms(3) by simp
  from publish_close_direct [OF tok4 4 this h4 n4] obtain n' where
    g: "i_generation n = of_generation f" "i_generation n' = bump (of_generation f)" "i_size n' = of_size_hint f"
    "i_blocks n' = b" "i_kind n' = i_kind n"
    and inos: "inodes (cw_meta (fs_world s')) = (inodes (cw_meta (fs_world s4)))(of_ino f \<mapsto> n')"
    and hs: "open_handles (cw_meta (fs_world s')) fh = None" and st: "cw_stores (fs_world s') = cw_stores (fs_world s4)"
    and nds: "nodes (cw_meta (fs_world s')) = nodes (cw_meta (fs_world s4))" and tk: "cw_token (fs_world s') = cw_token (fs_world s4)"
    and files: "fs_open_files s' = (fs_open_files s4)(fh \<mapsto> ?f2\<lparr>of_generation := bump (of_generation f)\<rparr>)"
    using f1 by auto
  have rd: "cl_rd (fs_world s') = cl_rd (fs_world s4)" using st by (simp add: cl_rd_def fun_eq_iff)
  have "inodes (cw_meta (fs_world s')) = (inodes m)(of_ino f \<mapsto> n')" using inos meta4(1) by (simp add: ns_simps)
  moreover have "nodes (cw_meta (fs_world s')) = nodes m" "cw_token (fs_world s') = cw_token (fs_world s)"
    "dom (cw_stores (fs_world s')) = dom (cw_stores (fs_world s))"
    using nds tk st doms meta4(1,2) by simp_all
  ultimately show ?thesis
    using g hs files f1 bmb old new wf dirty other unfolding rd
    by (intro exI [of _ n'] exI [of _ "?f2\<lparr>of_generation := bump (of_generation f)\<rparr>"]) (simp add: maps_agree_def)
qed

text \<open>
  C6. A successful publish is complete.  On a cluster of the modelled servers, let a
  client publish an open file with dirty blocks, whose handle and placements the
  metadata server knows, with connections that are up to date, under any
  interleaving of the writes.  If it replies Ok, then the file's generation at the metadata server was the
  one of the open file and is now the next one, in the client too; the size is the
  client's; every dirty block has a placement and is stored, with exactly its bytes, on
  the primary, and for fsync on every replica; every other block of every store is
  unchanged, placements made before are unchanged, every other inode is unchanged; and
  the handle is closed at the metadata server.
\<close>

theorem publish_complete:
  assumes "publish (direct xxh3) pick fh wait s = (Ok (), ts, s')" and "fs_open_files s fh = Some f" and "of_dirty f \<noteq> []"
    and "bt_wf (of_dirty f)" and "fs_token s = cw_token (fs_world s)"
    and "m = cw_meta (fs_world s)" and "open_handles m fh = Some h" and "oh_ino h = of_ino f"
    and "inodes m (of_ino f) = Some n" and "maps_agree f n"
    and "\<forall>nid c. fs_clients s nid = Some c \<longrightarrow> hm_get (live_addrs m) nid = Some c"
  shows "\<exists>n' f'. inodes (cw_meta (fs_world s')) = (inodes m)(of_ino f \<mapsto> n') \<and> i_generation n = of_generation f
    \<and> i_generation n' = bump (of_generation f) \<and> i_size n' = of_size_hint f \<and> i_kind n' = i_kind n
    \<and> fs_open_files s' fh = Some f' \<and> of_dirty f' = [] \<and> of_generation f' = bump (of_generation f) \<and> maps_agree f' n'
    \<and> (\<forall>(idx, buf) \<in> set (of_dirty f). \<exists>p. bt_get (i_blocks n') idx = Some p \<and> (\<forall>nid \<in> set (synced wait p).
         \<exists>a. hm_get (live_addrs m) nid = Some a \<and> cl_rd (fs_world s') (a, write_key (of_ino f) idx) = Some buf))
    \<and> (\<forall>a k. k \<notin> write_key (of_ino f) ` fst ` set (of_dirty f) \<longrightarrow> cl_rd (fs_world s') (a, k) = cl_rd (fs_world s) (a, k))
    \<and> (\<forall>idx p. bt_get (i_blocks n) idx = Some p \<longrightarrow> bt_get (i_blocks n') idx = Some p)
    \<and> open_handles (cw_meta (fs_world s')) fh = None"
  using publish_direct [OF assms] by (elim exE conjE) (intro exI conjI; assumption)

definition pub_meta :: meta_state where
  "pub_meta = fst (meta_heartbeat_node 5 \<lparr> hb_node_id = ''n2'', hb_addr = ''b'', hb_used_bytes = 0, hb_capacity_bytes = 100, hb_epoch_s = 0 \<rparr> sample_state)"

definition pub_cluster :: cluster where
  "pub_cluster = sample_cluster\<lparr>cw_meta := pub_meta, cw_stores := [''http://b'' \<mapsto> store_new (NodeId ''n2'') [] 100]\<rparr>"

definition pub_file :: "u64 \<Rightarrow> open_file" where
  "pub_file g = \<lparr> of_ino = InodeId 2, of_generation = Generation g, of_block_map = [], of_dirty = [(BlockIdx 0, [1, 2, 3, 4])],
     of_size_hint = 3, of_flags = 0 \<rparr>"

text \<open>The client that has the file open; the attributes it was created with are in its cache.\<close>

definition pub_attr :: cached_attr where
  "pub_attr = \<lparr> ca_attr = the (proto_attr_to_fuse (build_attr (the (inodes pub_meta (InodeId 2))))), ca_fetched = 0 \<rparr>"

definition pub_client :: "u64 \<Rightarrow> cluster fs" where
  "pub_client g = (build_fs pub_cluster 1000 4 2 ''t'')\<lparr>fs_open_files := [1 \<mapsto> (pub_file g)],
     fs_attr_cache := (build_attr_cache 1000)\<lparr>ac_entries := [InodeId 2 \<mapsto> pub_attr]\<rparr>\<rparr>"

lemma pub_meta_simps:
  "inodes pub_meta = inodes sample_state" "open_handles pub_meta = open_handles sample_state"
  "nodes pub_meta = [(NodeId ''n2'', \<lparr> ni_node_id = NodeId ''n2'', ni_addr = ''b'', ni_ram_used = 0, ni_ram_total = 100, ni_status = Up \<rparr>)]"
  "live_nodes pub_meta = [NodeId ''n2'']" "replication_factor pub_meta = 2"
  by (simp_all add: pub_meta_def meta_heartbeat_node_def Let_def sample_file hm_insert_def live_nodes_def)
    (simp_all add: sample_state_def meta_create_def Let_def meta_new_def ROOT_def alloc_ino_def alloc_fh_def
      with_dir_def bt_contains_def put_inode_def)

lemma pub_addrs: "live_addrs pub_meta = [(NodeId ''n2'', ''http://b'')]"
  by (simp add: live_addrs_def pub_meta_simps node_info_to_proto_def addr_map_of_def hm_collect_def hm_insert_def)

lemma pub_client_simps:
  "fs_world (pub_client g) = pub_cluster" "fs_token (pub_client g) = ''t''" "fs_clients (pub_client g) = Map.empty"
  "fs_open_files (pub_client g) 1 = Some (pub_file g)" "cw_token pub_cluster = ''t''" "cw_meta pub_cluster = pub_meta" "cw_now pub_cluster = 0"
  "cw_stores pub_cluster = [''http://b'' \<mapsto> store_new (NodeId ''n2'') [] 100]"
  by (simp_all add: pub_client_def build_fs_def pub_cluster_def sample_cluster_def)

lemma pub_stage1: "publish_addrs sample_T (pub_client g) = (Ok (), (pub_client g)\<lparr>fs_addrs := [(NodeId ''n2'', ''http://b'')]\<rparr>)"
proof -
  have "authed_call sample_T (t_list_nodes sample_T) (pub_client g)
      = (Ok (map node_info_to_proto (filter (\<lambda>n. ni_status n = Up) (map snd (nodes pub_meta)))), (pub_client g))"
    using authed_call_meta_eq [of "pub_client g" "t_list_nodes sample_T" "\<lambda>m. (m, meta_list_nodes m)" "\<lambda>_ _. 0"]
    by (simp add: pub_client_simps direct_simps meta_list_nodes_def rpc_of_def)
  then show ?thesis
    using pub_addrs by (simp add: publish_addrs_def refresh_addrs_def live_addrs_def)
qed

abbreviation pub_place :: block_placement where
  "pub_place \<equiv> \<lparr> primary = NodeId ''n2'', replicas = [] \<rparr>"

definition pub_meta2 :: meta_state where
  "pub_meta2 = put_inode (InodeId 2) ((the (inodes pub_meta (InodeId 2)))\<lparr>i_blocks := [(BlockIdx 0, pub_place)]\<rparr>) pub_meta"

definition pub_client2 :: "u64 \<Rightarrow> cluster fs" where
  "pub_client2 g = (pub_client g)\<lparr>fs_addrs := [(NodeId ''n2'', ''http://b'')], fs_world := pub_cluster\<lparr>cw_meta := pub_meta2\<rparr>\<rparr>"

lemma pub_alloc:
  "meta_allocate_blocks (\<lambda>_ _. 0) \<lparr> al_ino = 2, al_block_idxs = [0] \<rparr> pub_meta
     = (pub_meta2, Ok [placement_to_block_loc (BlockIdx 0) pub_place])"
proof -
  let ?r = "\<lparr> al_ino = 2, al_block_idxs = [0] \<rparr>"
  obtain n where n: "inodes pub_meta (InodeId (al_ino ?r)) = Some n" "i_blocks n = []"
    by (simp add: pub_meta_simps sample_file new_file_inode_def)
  have p: "place_block (\<lambda>_ _. 0) [NodeId ''n2''] 2 i k = pub_place" for i k
    by (simp add: place_block_def pick_nodes_def Let_def sort_unstable_desc_def)
  show ?thesis
    unfolding meta_allocate_blocks_eq [OF n(1) refl refl]
    using n by (simp add: pub_meta_simps p pub_meta2_def bt_get_def)
qed

lemma pub_stage2:
  "publish_allocate sample_T (pub_file g) ((pub_client g)\<lparr>fs_addrs := [(NodeId ''n2'', ''http://b'')]\<rparr>)
     = (Ok ((pub_file g)\<lparr>of_block_map := [(BlockIdx 0, pub_place)]\<rparr>), (pub_client2 g))"
proof -
  let ?r = "\<lparr> al_ino = 2, al_block_idxs = [0] \<rparr>"
  let ?s = "(pub_client g)\<lparr>fs_addrs := [(NodeId ''n2'', ''http://b'')]\<rparr>"
  have "authed_call sample_T (\<lambda>md. t_allocate sample_T md ?r) ?s = (Ok [placement_to_block_loc (BlockIdx 0) pub_place], (pub_client2 g))"
    using authed_call_meta_eq [of ?s "\<lambda>md. t_allocate sample_T md ?r" "meta_allocate_blocks (\<lambda>_ _. 0) ?r" "\<lambda>_ _. 0"]
    by (simp add: pub_client_simps direct_simps pub_alloc rpc_of_def pub_client2_def)
  then show ?thesis
    by (simp add: publish_allocate_def pub_file_def bt_contains_def insert_loc_placement)
qed

definition pub_client3 :: "u64 \<Rightarrow> cluster fs" where
  "pub_client3 g = (put_open_file 1 ((pub_file g)\<lparr>of_block_map := [(BlockIdx 0, pub_place)], of_dirty := []\<rparr>) (pub_client2 g))
     \<lparr>fs_clients := [NodeId ''n2'' \<mapsto> ''http://b''],
      fs_world := pub_cluster\<lparr>cw_meta := pub_meta2, cw_stores := [''http://b'' \<mapsto>
        write_commit (proto_key_to_block_key (write_key (InodeId 2) (BlockIdx 0))) [1, 2, 3, 4] (store_new (NodeId ''n2'') [] 100)]\<rparr>\<rparr>"

lemma pub_stage3:
  "write_all sample_T AllReplicas (InodeId 2) [(BlockIdx 0, pub_place)] (\<lambda>_. 0) [(BlockIdx 0, [1, 2, 3, 4])]
     (put_open_file 1 ((pub_file g)\<lparr>of_block_map := [(BlockIdx 0, pub_place)], of_dirty := []\<rparr>) (pub_client2 g)) = (Ok (), [], (pub_client3 g))"
proof -
  let ?s = "put_open_file 1 ((pub_file g)\<lparr>of_block_map := [(BlockIdx 0, pub_place)], of_dirty := []\<rparr>) (pub_client2 g)"
  let ?r = "\<lparr> wb_key = Some (write_key (InodeId 2) (BlockIdx 0)), wb_data = [1, 2, 3, 4] \<rparr>"
  let ?s1 = "?s\<lparr>fs_clients := [NodeId ''n2'' \<mapsto> ''http://b'']\<rparr>"
  have pool: "pool_get sample_T (NodeId ''n2'') ?s = (Ok ''http://b'', ?s1)"
    by (simp add: pool_get_def put_open_file_def pub_client2_def pub_client_simps hm_get_def direct_simps)
  have wr: "store_write_block ?r (store_new (NodeId ''n2'') [] 100)
      = (write_commit (proto_key_to_block_key (write_key (InodeId 2) (BlockIdx 0))) [1, 2, 3, 4] (store_new (NodeId ''n2'') [] 100), Ok 4)"
    by (simp add: store_write_block_def Let_def write_admit_def store_new_def)
  have "authed_call sample_T (\<lambda>md. t_write_block sample_T ''http://b'' md ?r) ?s1 = (Ok 4, (pub_client3 g))"
    using authed_call_eq [of sample_T ?s1 "''t''" _ "\<lambda>md. t_write_block sample_T ''http://b'' md ?r", OF _ refl]
    by (simp add: direct_simps put_open_file_def pub_client2_def pub_client_simps to_store_def wr rpc_of_def pub_client3_def)
  then show ?thesis
    using pool by (simp add: write_all_first synced_def bt_get_def write_one_def send_block_def)
qed

lemma pub_ok: "\<exists>s'. publish sample_T (\<lambda>_. 0) 1 AllReplicas (pub_client 0) = (Ok (), [], s')"
proof -
  let ?f2 = "(pub_file 0)\<lparr>of_block_map := [(BlockIdx 0, pub_place)], of_dirty := []\<rparr>"
  let ?r = "\<lparr> cl_fh = 1, cl_ino = 2, cl_expected_generation = 0, cl_new_size = 3, cl_written_block_idxs = [0],
      cl_mtime_s = 0, cl_mtime_ns = 0 \<rparr>"
  have w: "fs_world (pub_client3 0) = pub_cluster\<lparr>cw_meta := pub_meta2, cw_stores := cw_stores (fs_world (pub_client3 0))\<rparr>" "fs_token (pub_client3 0) = ''t''"
    by (simp_all add: pub_client3_def put_open_file_def pub_client2_def pub_client_simps)
  then have w': "cw_meta (fs_world (pub_client3 0)) = pub_meta2" "cw_token (fs_world (pub_client3 0)) = ''t''" "cw_now (fs_world (pub_client3 0)) = 0"
    by (simp_all add: pub_client3_def pub_client_simps)
  have u: "unix_time (cl_mtime_s ?r) (cl_mtime_ns ?r) = Some 0"
    by (simp add: unix_time_def time_add_def duration_new_def max0_def nanos_per_sec_def representable_time_def)
  have h: "open_handles pub_meta2 (cl_fh ?r) = Some \<lparr> oh_fh = 1, oh_ino = InodeId 2, oh_flags = 0, oh_generation_at_open = Generation 0 \<rparr>"
    by (simp add: pub_meta2_def pub_meta_simps sample_file)
  obtain n where n: "inodes pub_meta2 (InodeId 2) = Some n" "i_generation n = Generation 0"
    by (simp add: pub_meta2_def pub_meta_simps sample_file new_file_inode_def ns_simps)
  obtain m' a where cl: "meta_close 0 ?r pub_meta2 = (m', Ok (Some a))"
    using meta_close_ok [OF h _ _ _ u sample_close_times(2), of n] n by simp
  have now: "time_parts 0 = (0, 0)" by (simp add: time_parts_def)
  have "\<exists>t. authed_call sample_T (\<lambda>md. t_close sample_T md ?r) (pub_client3 0) = (Ok (Some a), t)"
    using authed_call_meta_eq [of "pub_client3 0" "\<lambda>md. t_close sample_T md ?r" "meta_close 0 ?r" "\<lambda>_ _. 0"] w w' cl
    by (simp add: direct_simps rpc_of_def)
  then have "\<exists>s'. publish_close sample_T 1 [0] ?f2 (pub_client3 0) = (Ok (), s')"
    using w' by (auto simp: publish_close_def Let_def direct_simps now pub_file_def)
  then show ?thesis
    using pub_stage1 pub_stage2 pub_stage3 by (auto simp: publish_def pub_client_simps Let_def) (simp_all add: pub_file_def)
qed

theorem publish_complete_witness:
  "\<exists>s' n'. publish sample_T (\<lambda>_. 0) 1 AllReplicas (pub_client 0) = (Ok (), [], s')
     \<and> inodes (cw_meta (fs_world s')) (InodeId 2) = Some n' \<and> i_generation n' = Generation 1 \<and> i_size n' = 3
     \<and> cl_rd (fs_world s') (''http://b'', write_key (InodeId 2) (BlockIdx 0)) = Some [1, 2, 3, 4]"
proof -
  obtain s' where pub: "publish sample_T (\<lambda>_. 0) 1 AllReplicas (pub_client 0) = (Ok (), [], s')" using pub_ok by blast
  obtain n where n: "inodes pub_meta (of_ino (pub_file 0)) = Some n" "maps_agree (pub_file 0) n"
    by (simp add: pub_meta_simps sample_file new_file_inode_def pub_file_def maps_agree_def)
  have fl: "of_dirty (pub_file 0) \<noteq> []" "bt_wf (of_dirty (pub_file 0))"
    by (simp_all add: pub_file_def)
  have tok: "fs_token (pub_client 0) = cw_token (fs_world (pub_client 0))" and m: "pub_meta = cw_meta (fs_world (pub_client 0))"
    by (simp_all add: pub_client_simps)
  have h: "open_handles pub_meta 1 = Some \<lparr> oh_fh = 1, oh_ino = InodeId 2, oh_flags = 0, oh_generation_at_open = Generation 0 \<rparr>"
    "oh_ino \<lparr> oh_fh = 1, oh_ino = InodeId 2, oh_flags = 0, oh_generation_at_open = Generation 0 \<rparr> = of_ino (pub_file 0)"
    by (simp_all add: pub_meta_simps sample_file pub_file_def)
  have pool: "\<forall>nid c. fs_clients (pub_client 0) nid = Some c \<longrightarrow> hm_get (live_addrs pub_meta) nid = Some c"
    by (simp add: pub_client_simps)
  obtain n' f' where r: "inodes (cw_meta (fs_world s')) = (inodes pub_meta)(of_ino (pub_file 0) \<mapsto> n')"
    "i_generation n' = bump (of_generation (pub_file 0))" "i_size n' = of_size_hint (pub_file 0)"
    "\<forall>(idx, buf) \<in> set (of_dirty (pub_file 0)). \<exists>p. bt_get (i_blocks n') idx = Some p \<and> (\<forall>nid \<in> set (synced AllReplicas p).
         \<exists>a. hm_get (live_addrs pub_meta) nid = Some a \<and> cl_rd (fs_world s') (a, write_key (of_ino (pub_file 0)) idx) = Some buf)"
    using publish_complete [OF pub pub_client_simps(4) fl tok m h n pool] by blast
  have d: "(BlockIdx 0, [1, 2, 3, 4]) \<in> set (of_dirty (pub_file 0))" by (simp add: pub_file_def)
  obtain p where "\<forall>nid \<in> set (synced AllReplicas p).
         \<exists>a. hm_get (live_addrs pub_meta) nid = Some a \<and> cl_rd (fs_world s') (a, write_key (of_ino (pub_file 0)) (BlockIdx 0)) = Some [1, 2, 3, 4]"
    using bspec [OF r(4) d] by blast
  then obtain a where "hm_get (live_addrs pub_meta) (primary p) = Some a" "cl_rd (fs_world s') (a, write_key (InodeId 2) (BlockIdx 0)) = Some [1, 2, 3, 4]"
    by (auto simp: pub_file_def synced_def)
  then have "cl_rd (fs_world s') (''http://b'', write_key (InodeId 2) (BlockIdx 0)) = Some [1, 2, 3, 4]"
    by (auto simp: pub_addrs hm_get_def split: if_splits)
  with pub r show ?thesis by (auto simp: pub_file_def)
qed

end
