(* ===== verification/Client_Fuse.thy ===== *)
theory Client_Fuse
  imports Client_Publish Cluster
begin

text \<open>
  \<^verbatim>\<open>impl Filesystem for DtmpfsFs\<close>, the requests that go to the metadata server:
  \<^verbatim>\<open>lookup\<close>, \<^verbatim>\<open>getattr\<close>, \<^verbatim>\<open>setattr\<close>, \<^verbatim>\<open>create\<close>,
  \<^verbatim>\<open>open\<close>, \<^verbatim>\<open>mkdir\<close>, \<^verbatim>\<open>unlink\<close>, \<^verbatim>\<open>rmdir\<close>, \<^verbatim>\<open>rename\<close>,
  \<^verbatim>\<open>readdir\<close>, \<^verbatim>\<open>statfs\<close>, and the requests that are refused.  A request is a
  function of the client state; its value is what the reply object receives and the new
  state.  A zero attribute time-to-live and a zero generation accompany every reply of
  the code and are left out.
\<close>

section \<open>The shape of a request\<close>

definition fuse_call ::
  "'w transport \<Rightarrow> (metadata \<Rightarrow> 'w \<Rightarrow> 'a rpc \<times> 'w) \<Rightarrow> ('a \<Rightarrow> 'w fs \<Rightarrow> ('b, errno) result \<times> 'w fs) \<Rightarrow> 'w fs
     \<Rightarrow> ('b, errno) result \<times> 'w fs" where
  "fuse_call T f k s =
     (case authed_call T f s of
        (Ok a, s1) \<Rightarrow> k a s1
      | (Err st, s1) \<Rightarrow> (Err (to_errno (from_status st None)), s1)
      | (Panic, s1) \<Rightarrow> (Panic, s1))"

definition attr_reply ::
  "'w transport \<Rightarrow> (file_attr \<Rightarrow> inode_id) \<Rightarrow> attr \<Rightarrow> 'w fs \<Rightarrow> (file_attr, errno) result \<times> 'w fs" where
  "attr_reply T key a s =
     (case proto_attr_to_fuse a of
        None \<Rightarrow> (Panic, s)
      | Some fa \<Rightarrow> (Ok fa, attr_cache_insert T (key fa) fa s))"

definition unit_reply :: "unit \<Rightarrow> 'w fs \<Rightarrow> (unit, errno) result \<times> 'w fs" where
  "unit_reply u s = (Ok (), s)"

section \<open>Attributes\<close>

definition fuse_lookup :: "'w transport \<Rightarrow> u64 \<Rightarrow> string \<Rightarrow> 'w fs \<Rightarrow> (file_attr, errno) result \<times> 'w fs" where
  "fuse_lookup T parent name =
     fuse_call T (\<lambda>md. t_lookup T md \<lparr> lk_parent_ino = parent, lk_name = to_string_lossy name \<rparr>)
       (\<lambda>r s. case r of
          None \<Rightarrow> (Err ENOENT, s)
        | Some a \<Rightarrow> attr_reply T (\<lambda>fa. InodeId (fa_ino fa)) a s)"

definition fuse_getattr :: "'w transport \<Rightarrow> u64 \<Rightarrow> 'w fs \<Rightarrow> (file_attr, errno) result \<times> 'w fs" where
  "fuse_getattr T ino s =
     (case attr_cache_get T (InodeId ino) s of
        Some c \<Rightarrow> (Ok (ca_attr c), s)
      | None \<Rightarrow> fuse_call T (\<lambda>md. t_get_attr T md ino) (attr_reply T (\<lambda>_. InodeId ino)) s)"

text \<open>
  \<^verbatim>\<open>TimeOrNow::Now\<close> sends no time at all.  The wrapped
  \<^verbatim>\<open>duration_since(UNIX_EPOCH).unwrap_or_default()\<close> is \<^const>\<open>time_parts\<close>.
\<close>

datatype time_or_now = SpecificTime system_time | Now

definition time_arg :: "time_or_now option \<Rightarrow> i64 option \<times> u32 option" where
  "time_arg t = (case t of
     Some (SpecificTime x) \<Rightarrow> (Some (fst (time_parts x)), Some (snd (time_parts x)))
   | _ \<Rightarrow> (None, None))"

definition fuse_setattr ::
  "'w transport \<Rightarrow> u64 \<Rightarrow> u32 option \<Rightarrow> u32 option \<Rightarrow> u32 option \<Rightarrow> u64 option \<Rightarrow> time_or_now option
     \<Rightarrow> time_or_now option \<Rightarrow> 'w fs \<Rightarrow> (file_attr, errno) result \<times> 'w fs" where
  "fuse_setattr T ino mode uid gid sz atime mtime =
     fuse_call T (\<lambda>md. t_set_attr T md \<lparr> sa_ino = ino, sa_size = sz, sa_mode = mode, sa_uid = uid,
         sa_gid = gid, sa_atime_s = fst (time_arg atime), sa_atime_ns = snd (time_arg atime),
         sa_mtime_s = fst (time_arg mtime), sa_mtime_ns = snd (time_arg mtime) \<rparr>)
       (\<lambda>r s. case r of
          None \<Rightarrow> (Err EIO, s)
        | Some a \<Rightarrow> attr_reply T (\<lambda>_. InodeId ino) a s)"

section \<open>Opening\<close>

definition fuse_create ::
  "'w transport \<Rightarrow> u32 \<Rightarrow> u32 \<Rightarrow> u64 \<Rightarrow> string \<Rightarrow> u32 \<Rightarrow> i32 \<Rightarrow> 'w fs \<Rightarrow> (file_attr \<times> u64, errno) result \<times> 'w fs" where
  "fuse_create T uid gid parent name mode flags =
     fuse_call T (\<lambda>md. t_create T md \<lparr> cr_parent_ino = parent, cr_name = to_string_lossy name,
         cr_mode = mode, cr_uid = uid, cr_gid = gid \<rparr>)
       (\<lambda>r s. case crr_attr r of
          None \<Rightarrow> (Err EIO, s)
        | Some a \<Rightarrow>
            (case proto_attr_to_fuse a of
               None \<Rightarrow> (Panic, s)
             | Some fa \<Rightarrow>
                 (case build_open_file (InodeId (at_ino a)) (crr_fh r) a (crr_block_map r) flags of
                    (fh, f) \<Rightarrow>
                      (Ok (fa, fh), attr_cache_insert T (InodeId (fa_ino fa)) fa (put_open_file fh f s)))))"

definition fuse_open :: "'w transport \<Rightarrow> u64 \<Rightarrow> i32 \<Rightarrow> 'w fs \<Rightarrow> (u64, errno) result \<times> 'w fs" where
  "fuse_open T ino flags =
     fuse_call T (\<lambda>md. t_open T md \<lparr> op_ino = ino, op_flags = flags \<rparr>)
       (\<lambda>r s. case opr_attr r of
          None \<Rightarrow> (Err EIO, s)
        | Some a \<Rightarrow>
            (case build_open_file (InodeId ino) (opr_fh r) a (opr_block_map r) flags of
               (fh, f) \<Rightarrow> (Ok fh, put_open_file fh f s)))"

section \<open>The namespace\<close>

definition fuse_mkdir ::
  "'w transport \<Rightarrow> u32 \<Rightarrow> u32 \<Rightarrow> u64 \<Rightarrow> string \<Rightarrow> u32 \<Rightarrow> 'w fs \<Rightarrow> (file_attr, errno) result \<times> 'w fs" where
  "fuse_mkdir T uid gid parent name mode =
     fuse_call T (\<lambda>md. t_mkdir T md \<lparr> mk_parent_ino = parent, mk_name = to_string_lossy name,
         mk_mode = mode, mk_uid = uid, mk_gid = gid \<rparr>)
       (attr_reply T (\<lambda>fa. InodeId (fa_ino fa)))"

definition fuse_unlink :: "'w transport \<Rightarrow> u64 \<Rightarrow> string \<Rightarrow> 'w fs \<Rightarrow> (unit, errno) result \<times> 'w fs" where
  "fuse_unlink T parent name =
     fuse_call T (\<lambda>md. t_unlink T md \<lparr> ul_parent_ino = parent, ul_name = to_string_lossy name \<rparr>) unit_reply"

definition fuse_rmdir :: "'w transport \<Rightarrow> u64 \<Rightarrow> string \<Rightarrow> 'w fs \<Rightarrow> (unit, errno) result \<times> 'w fs" where
  "fuse_rmdir T parent name =
     fuse_call T (\<lambda>md. t_rmdir T md \<lparr> rd_parent_ino = parent, rd_name = to_string_lossy name \<rparr>) unit_reply"

definition fuse_rename ::
  "'w transport \<Rightarrow> u64 \<Rightarrow> string \<Rightarrow> u64 \<Rightarrow> string \<Rightarrow> 'w fs \<Rightarrow> (unit, errno) result \<times> 'w fs" where
  "fuse_rename T parent name newparent newname =
     fuse_call T (\<lambda>md. t_rename T md \<lparr> rn_src_parent_ino = parent, rn_src_name = to_string_lossy name,
         rn_dst_parent_ino = newparent, rn_dst_name = to_string_lossy newname \<rparr>) unit_reply"

section \<open>Listing a directory\<close>

text \<open>
  The loop over the pages has no bound in the code; \<open>None\<close> is the answer of the model
  when the fuel is used up.  \<open>full\<close> stands for the kernel's buffer behind
  \<^verbatim>\<open>ReplyDirectory::add\<close>, which takes an entry or answers that there is no room.
\<close>

record dirent =
  d_ino :: u64
  d_offset :: i64
  d_kind :: file_type
  d_name :: string

fun readdir_loop ::
  "nat \<Rightarrow> 'w transport \<Rightarrow> u64 \<Rightarrow> string \<Rightarrow> dir_entry list \<Rightarrow> 'w fs
     \<Rightarrow> ((dir_entry list, dtmpfs_error) result \<times> 'w fs) option" where
  "readdir_loop 0 T ino cookie entries s = None"
| "readdir_loop (Suc fuel) T ino cookie entries s =
     (case authed_call T (\<lambda>md. t_read_dir T md \<lparr> rq_ino = ino, rq_cookie = cookie, rq_max_entries = 256 \<rparr>) s of
        (Err st, s1) \<Rightarrow> Some (Err (from_status st None), s1)
      | (Panic, s1) \<Rightarrow> Some (Panic, s1)
      | (Ok resp, s1) \<Rightarrow>
          let entries1 = entries @ rr_entries resp in
          if rr_eof resp then Some (Ok entries1, s1)
          else readdir_loop fuel T ino (rr_next_cookie resp) entries1 s1)"

fun fill_reply :: "(dirent list \<Rightarrow> dirent \<Rightarrow> bool) \<Rightarrow> (nat \<times> dir_entry) list \<Rightarrow> dirent list \<Rightarrow> dirent list" where
  "fill_reply full [] acc = acc"
| "fill_reply full ((i, e) # es) acc =
     (let d = \<lparr> d_ino = de_ino e, d_offset = of_nat (i + 1), d_kind = proto_kind_to_fuse (de_kind e),
                d_name = de_name e \<rparr>
      in if full acc d then acc else fill_reply full es (acc @ [d]))"

definition fuse_readdir ::
  "nat \<Rightarrow> 'w transport \<Rightarrow> (dirent list \<Rightarrow> dirent \<Rightarrow> bool) \<Rightarrow> u64 \<Rightarrow> i64 \<Rightarrow> 'w fs
     \<Rightarrow> ((dirent list, errno) result \<times> 'w fs) option" where
  "fuse_readdir fuel T full ino offset s =
     (case readdir_loop fuel T ino [] [] s of
        None \<Rightarrow> None
      | Some (Ok entries, s1) \<Rightarrow> Some (Ok (fill_reply full (drop (unat offset) (enumerate 0 entries)) []), s1)
      | Some (Err e, s1) \<Rightarrow> Some (Err (to_errno e), s1)
      | Some (Panic, s1) \<Rightarrow> Some (Panic, s1))"

section \<open>File system statistics and refused requests\<close>

record statfs_reply =
  sf_blocks :: u64
  sf_bfree :: u64
  sf_bavail :: u64
  sf_files :: u64
  sf_ffree :: u64
  sf_bsize :: u32
  sf_namelen :: u32
  sf_frsize :: u32

definition statfs_of :: "u64 \<Rightarrow> proto_node_info list \<Rightarrow> statfs_reply" where
  "statfs_of bs ns =
     (let total = sum_list (map pn_capacity_bytes ns);
          used = sum_list (map pn_used_bytes ns);
          free = (if used \<le> total then total - used else 0)
      in \<lparr> sf_blocks = total div bs, sf_bfree = free div bs, sf_bavail = free div bs,
           sf_files = 0, sf_ffree = 0, sf_bsize = ucast bs, sf_namelen = 255, sf_frsize = 0 \<rparr>)"

definition fuse_statfs :: "'w transport \<Rightarrow> 'w fs \<Rightarrow> (statfs_reply, errno) result \<times> 'w fs" where
  "fuse_statfs T s =
     (case authed_call T (t_list_nodes T) s of
        (Ok ns, s1) \<Rightarrow> (if fs_block_size s1 = 0 then (Panic, s1) else (Ok (statfs_of (fs_block_size s1) ns), s1))
      | (Err st, s1) \<Rightarrow>
          (Ok \<lparr> sf_blocks = 0, sf_bfree = 0, sf_bavail = 0, sf_files = 0, sf_ffree = 0,
               sf_bsize = ucast (fs_block_size s1), sf_namelen = 255, sf_frsize = 0 \<rparr>, s1)
      | (Panic, s1) \<Rightarrow> (Panic, s1))"

definition fuse_link :: "u64 \<Rightarrow> u64 \<Rightarrow> string \<Rightarrow> 'w fs \<Rightarrow> (file_attr, errno) result \<times> 'w fs" where
  "fuse_link ino newparent newname s = (Err EPERM, s)"

definition fuse_setxattr :: "u64 \<Rightarrow> string \<Rightarrow> bytes \<Rightarrow> 'w fs \<Rightarrow> (unit, errno) result \<times> 'w fs" where
  "fuse_setxattr ino name v s = (Err ENOSYS, s)"

definition fuse_getxattr :: "u64 \<Rightarrow> string \<Rightarrow> u32 \<Rightarrow> 'w fs \<Rightarrow> (bytes, errno) result \<times> 'w fs" where
  "fuse_getxattr ino name sz s = (Err ENOSYS, s)"

definition fuse_listxattr :: "u64 \<Rightarrow> u32 \<Rightarrow> 'w fs \<Rightarrow> (bytes, errno) result \<times> 'w fs" where
  "fuse_listxattr ino sz s = (Err ENOSYS, s)"

definition fuse_removexattr :: "u64 \<Rightarrow> string \<Rightarrow> 'w fs \<Rightarrow> (unit, errno) result \<times> 'w fs" where
  "fuse_removexattr ino name s = (Err ENOSYS, s)"

end
