(* ===== verification/Client_Calls.thy ===== *)
theory Client_Calls
  imports Publish_Props Client_Fuse
begin

text \<open>
  A client changes the world through the calls of its transport and in no other way.
  \<open>client_calls\<close> fixes a relation \<open>R\<close> on worlds that the single calls keep; inside it, the
  loops, the publish and the FUSE requests of the client keep it too.  Requests that make
  one call to the metadata server ask for that call alone.
\<close>

lemma publish_allocate_dirty: "publish_allocate T f s = (Ok f1, t) \<Longrightarrow> of_dirty f1 = of_dirty f"
  by (auto simp: publish_allocate_def Let_def split: if_splits prod.splits result.splits)

locale client_calls =
  fixes T :: "'w transport" and R :: "'w \<Rightarrow> 'w \<Rightarrow> bool" and ok :: "bytes \<Rightarrow> bool"
  assumes refl_R: "R w w" and trans_R: "R u v \<Longrightarrow> R v w \<Longrightarrow> R u w"
    and connect_R: "R w (snd (t_connect T a w))"
    and read_block_R: "R w (snd (t_read_block T c md rb w))"
    and write_block_R: "ok (wb_data wb) \<Longrightarrow> R w (snd (t_write_block T c md wb w))"
    and list_nodes_R: "R w (snd (t_list_nodes T md w))"
    and allocate_R: "R w (snd (t_allocate T md al w))"
    and close_R: "R w (snd (t_close T md cl w))"
    and read_dir_R: "R w (snd (t_read_dir T md rd w))"
begin

lemma authed_call_R:
  assumes "authed_call T h s = (r, t)" and "\<And>md. R (fs_world s) (snd (h md (fs_world s)))"
  shows "R (fs_world s) (fs_world t)"
proof (cases "authed (t_parse T) (fs_token s)")
  case (Ok md)
  then show ?thesis
    using assms(1) assms(2) [of md] by (auto simp: authed_call_def split: prod.splits sum.splits)
qed (use assms(1) in \<open>simp_all add: authed_call_def refl_R\<close>)

lemma pool_get_R:
  assumes "pool_get T n s = (r, t)"
  shows "R (fs_world s) (fs_world t)"
proof -
  have "fs_world t = fs_world s \<or> (\<exists>a. fs_world t = snd (t_connect T a (fs_world s)))"
    using assms by (auto simp: pool_get_def Let_def split: option.splits if_splits prod.splits) (metis snd_conv)+
  then show ?thesis using refl_R connect_R by auto
qed

end

text \<open>So a client of such a transport is a frame for the writes of a publish.\<close>

sublocale client_calls \<subseteq> wf: write_frame T "\<lambda>s t. R (fs_world s) (fs_world t)" ok
proof
  fix c rq s q t
  assume "authed_call T (\<lambda>md. t_write_block T c md rq) s = (q, t)" and "ok (wb_data rq)"
  then show "R (fs_world s) (fs_world t)" by (auto intro: authed_call_R write_block_R)
qed (auto intro: refl_R trans_R pool_get_R)

context client_calls
begin

lemma fetch_from_R: "fetch_from T f idx ns e s = (r, t) \<Longrightarrow> R (fs_world s) (fs_world t)"
proof (induction ns arbitrary: e s)
  case Nil
  then show ?case by (simp add: refl_R)
next
  case (Cons n ns)
  obtain p s1 where p: "pool_get T n s = (p, s1)" by fastforce
  note 1 = pool_get_R [OF p]
  show ?case
  proof (cases p)
    case (Ok c)
    obtain a s2 where a: "authed_call T (\<lambda>md. t_read_block T c md (block_req (of_ino f) idx)) s1 = (a, s2)"
      by fastforce
    have 2: "R (fs_world s) (fs_world s2)" using authed_call_R [OF a read_block_R] trans_R [OF 1] by blast
    have "fs_world (evict n s2) = fs_world s2" by (simp add: evict_def)
    then show ?thesis
      using Cons.prems p Ok a 2 Cons.IH [of "EStoreUnavailable n" "evict n s2"] trans_R [OF 2]
      by (cases a) (auto simp: block_cache_insert_def split: if_splits)
  next
    case (Err x)
    then show ?thesis using Cons.prems p Cons.IH [of x s1] trans_R [OF 1] by simp
  qed (use Cons.prems p 1 in simp_all)
qed

lemma refresh_R:
  assumes "refresh_if_empty T s = (r, t)"
  shows "R (fs_world s) (fs_world t)"
proof (cases "fs_addrs s = []")
  case True
  obtain q u where c: "authed_call T (t_list_nodes T) s = (q, u)" by fastforce
  have "R (fs_world s) (fs_world u)" by (rule authed_call_R [OF c list_nodes_R])
  then show ?thesis
    using assms True c by (cases q) (auto simp: refresh_if_empty_def refresh_addrs_def)
qed (use assms in \<open>simp add: refresh_if_empty_def refl_R\<close>)

lemma fetch_block_R:
  assumes "fetch_block T f idx s = (r, t)"
  shows "R (fs_world s) (fs_world t)"
proof -
  obtain q u where q: "refresh_if_empty T s = (q, u)" by fastforce
  note 1 = refresh_R [OF q]
  show ?thesis
    using assms q 1 trans_R [OF 1] fetch_from_R [of f idx _ _ u r t] refl_R
    by (auto simp: fetch_block_def simp del: fetch_from.simps split: option.splits result.splits)
qed

lemma read_loop_R:
  "read_loop fuel (fetch_block T) bs e cur buf f s = Some (r, t) \<Longrightarrow> R (fs_world s) (fs_world t)"
proof (induction fuel arbitrary: cur buf s)
  case (Suc fuel)
  obtain q u where q: "fetch_block T f (BlockIdx (cur div bs)) s = (q, u)" by fastforce
  note 1 = fetch_block_R [OF q]
  show ?case
    using Suc.prems q 1 trans_R [OF 1 Suc.IH] Suc.IH refl_R
    by (auto simp: Let_def split: if_splits result.splits)
qed simp

lemma load_block_R:
  "load_block (fetch_block T) bs idx whole f s = (r, f', t) \<Longrightarrow> R (fs_world s) (fs_world t)"
  by (auto simp: load_block_def refl_R dest: fetch_block_R split: if_splits prod.splits result.splits)

lemma write_loop_R:
  "write_loop fuel (fetch_block T) bs e data cur written f s = Some (r, f', t) \<Longrightarrow> R (fs_world s) (fs_world t)"
proof (induction fuel arbitrary: cur written f s)
  case (Suc fuel)
  let ?off = "cur div bs * bs"
  let ?len = "min (?off + bs) e - cur"
  obtain q f1 u where q: "load_block (fetch_block T) bs (BlockIdx (cur div bs)) (cur - ?off = 0 \<and> ?len = bs) f s = (q, f1, u)"
    by (metis prod_cases3)
  note 1 = load_block_R [OF q]
  show ?case
    using Suc.prems q 1 trans_R [OF 1 Suc.IH] refl_R
    by (auto simp: Let_def split: if_splits result.splits option.splits)
qed simp

lemma fuse_read_R:
  assumes "fuse_read T fh offset sz s = Some (r, t)"
  shows "R (fs_world s) (fs_world t)"
  using assms
  by (auto simp: fuse_read_def read_file_def refl_R dest: read_loop_R simp del: read_loop.simps split: option.splits)

lemma fuse_write_R:
  assumes "fuse_write T fh offset data s = Some (r, t)"
  shows "R (fs_world s) (fs_world t)"
proof (cases "fs_open_files s fh")
  case (Some f)
  then obtain q f1 u where "apply_write T offset data f s = Some (q, f1, u)" and t: "t = put_open_file fh f1 u"
    using assms by (auto simp: fuse_write_def split: option.splits)
  then have "R (fs_world s) (fs_world u)"
    by (auto simp: apply_write_def apply_write_with_def Let_def dest!: write_loop_R
        simp del: write_loop.simps split: option.splits result.splits)
  then show ?thesis by (simp add: t put_open_file_def)
qed (use assms in \<open>simp add: fuse_write_def refl_R\<close>)

section \<open>Publishing\<close>

lemma publish_addrs_R:
  assumes "publish_addrs T s = (r, t)"
  shows "R (fs_world s) (fs_world t)"
proof -
  obtain q u where c: "authed_call T (t_list_nodes T) s = (q, u)" by fastforce
  have "R (fs_world s) (fs_world u)" by (rule authed_call_R [OF c list_nodes_R])
  then show ?thesis using assms c by (cases q) (auto simp: publish_addrs_def refresh_addrs_def)
qed

lemma publish_allocate_R:
  assumes "publish_allocate T f s = (r, t)"
  shows "R (fs_world s) (fs_world t)"
proof -
  let ?new = "map raw_idx (filter (\<lambda>i. \<not> bt_contains (of_block_map f) i) (map fst (of_dirty f)))"
  obtain q u where c: "authed_call T (\<lambda>md. t_allocate T md \<lparr> al_ino = raw (of_ino f), al_block_idxs = ?new \<rparr>) s = (q, u)"
    by fastforce
  have "R (fs_world s) (fs_world u)" by (rule authed_call_R [OF c allocate_R])
  then show ?thesis
    using assms c refl_R by (cases q; cases "?new = []") (auto simp: publish_allocate_def Let_def)
qed

lemma publish_close_R:
  assumes "publish_close T fh idxs f s = (r, t)"
  shows "R (fs_world s) (fs_world t)"
proof -
  let ?now = "time_parts (t_now T (fs_world s))"
  let ?r = "\<lparr> cl_fh = fh, cl_ino = raw (of_ino f), cl_expected_generation = raw_gen (of_generation f),
      cl_new_size = of_size_hint f, cl_written_block_idxs = idxs, cl_mtime_s = fst ?now, cl_mtime_ns = snd ?now \<rparr>"
  obtain q u where c: "authed_call T (\<lambda>md. t_close T md ?r) s = (q, u)" by fastforce
  have "R (fs_world s) (fs_world u)" by (rule authed_call_R [OF c close_R])
  then show ?thesis
    using assms c by (cases q) (auto simp: publish_close_def Let_def put_open_file_def)
qed

lemma publish_R:
  assumes "publish T pick fh wait s = (r, ts, t)"
    and "\<And>f. fs_open_files s fh = Some f \<Longrightarrow> \<forall>blk \<in> set (of_dirty f). ok (snd blk)"
  shows "R (fs_world s) (fs_world t)"
proof (cases "fs_open_files s fh")
  case None
  then show ?thesis using assms(1) by (simp add: publish_def refl_R)
next
  case (Some f)
  obtain a s1 where a: "publish_addrs T s = (a, s1)" by fastforce
  obtain b s2 where b: "publish_allocate T f s1 = (b, s2)" by fastforce
  note 1 = publish_addrs_R [OF a] and 12 = trans_R [OF publish_addrs_R [OF a] publish_allocate_R [OF b]]
  show ?thesis
  proof (cases "of_dirty f = [] \<or> a \<noteq> Ok () \<or> (\<forall>f1. b \<noteq> Ok f1)")
    case True
    then show ?thesis
      using assms(1) Some a b 1 12 refl_R by (cases a; cases b) (auto simp: publish_def split: if_splits)
  next
    case False
    then obtain f1 where b1: "b = Ok f1" and a1: "a = Ok ()" and dirty: "of_dirty f \<noteq> []" by blast
    let ?f2 = "f1\<lparr>of_dirty := []\<rparr>"
    obtain c ts1 s4 where c: "write_all T wait (of_ino ?f2) (of_block_map ?f2) pick (of_dirty f1) (put_open_file fh ?f2 s2) = (c, ts1, s4)"
      by (metis prod_cases3)
    have "\<forall>blk \<in> set (of_dirty f1). ok (snd blk)"
      using assms(2) [OF Some] publish_allocate_dirty b b1 by metis
    then have "R (fs_world s2) (fs_world s4)"
      using wf.write_all_frame [OF c] by (simp add: put_open_file_def)
    then have 4: "R (fs_world s) (fs_world s4)" by (rule trans_R [OF 12])
    obtain d s5 where d: "publish_close T fh (map (raw_idx \<circ> fst) (of_dirty f1)) ?f2 s4 = (d, s5)" by fastforce
    have "t = s4 \<or> t = s5"
      using assms(1) Some a b c d a1 b1 dirty by (cases c) (auto simp: publish_def Let_def)
    then show ?thesis using 4 trans_R [OF 4 publish_close_R [OF d]] by blast
  qed
qed

lemma run_replica_task_R: "ok (rt_data rt) \<Longrightarrow> R (fs_world s) (fs_world (run_replica_task T rt s))"
  by (rule wf.run_replica_task_frame)

section \<open>Requests to the metadata server\<close>

lemma fuse_call_R:
  assumes "fuse_call T h k s = (r, t)" and "\<And>md. R (fs_world s) (snd (h md (fs_world s)))"
    and "\<And>a u q v. k a u = (q, v) \<Longrightarrow> fs_world v = fs_world u"
  shows "R (fs_world s) (fs_world t)"
proof -
  obtain q u where c: "authed_call T h s = (q, u)" by fastforce
  have "R (fs_world s) (fs_world u)" by (rule authed_call_R [OF c assms(2)])
  then show ?thesis using assms(1,3) c by (cases q) (auto simp: fuse_call_def)
qed

lemma readdir_loop_R:
  "readdir_loop fuel T ino cookie es s = Some (r, t) \<Longrightarrow> R (fs_world s) (fs_world t)"
proof (induction fuel arbitrary: cookie es s)
  case (Suc fuel)
  obtain q u where c: "authed_call T (\<lambda>md. t_read_dir T md \<lparr> rq_ino = ino, rq_cookie = cookie, rq_max_entries = 256 \<rparr>) s = (q, u)"
    by fastforce
  have 1: "R (fs_world s) (fs_world u)" by (rule authed_call_R [OF c read_dir_R])
  show ?case
    using Suc.prems c 1 trans_R [OF 1 Suc.IH] by (cases q) (auto simp: Let_def split: if_splits)
qed simp

lemma fuse_readdir_R: "fuse_readdir fuel T full ino offset s = Some (r, t) \<Longrightarrow> R (fs_world s) (fs_world t)"
  by (auto simp: fuse_readdir_def dest: readdir_loop_R simp del: readdir_loop.simps split: option.splits result.splits)

lemma fuse_statfs_R:
  assumes "fuse_statfs T s = (r, t)"
  shows "R (fs_world s) (fs_world t)"
proof -
  obtain q u where c: "authed_call T (t_list_nodes T) s = (q, u)" by fastforce
  have "R (fs_world s) (fs_world u)" by (rule authed_call_R [OF c list_nodes_R])
  then show ?thesis using assms c by (cases q) (auto simp: fuse_statfs_def split: if_splits)
qed

end

end
