(* ===== verification/Startup.thy ===== *)
theory Startup
  imports Cluster
begin

text \<open>
  \<^verbatim>\<open>config.rs\<close>, \<^verbatim>\<open>heartbeat.rs\<close>, the three \<^verbatim>\<open>main.rs\<close> and both
  \<^verbatim>\<open>debug.rs\<close>: how a process gets its settings, the state it starts with, how a store
  makes itself known, and what the debug pages show.

  The TOML parser is outside the program and a parameter of \<open>load\<close>.  What it yields is
  a table of values; the definitions below read the keys that the \<^verbatim>\<open>serde\<close>
  attributes of the structs name, with the default each attribute names for a key that is
  missing, and refuse a value of the wrong type.  Keys that no struct names are ignored.
\<close>

section \<open>Settings\<close>

datatype toml = TStr string | TInt int | TBool bool | TTable "(string \<times> toml) list"

type_synonym table = "(string \<times> toml) list"

datatype cfg_error = ReadFailed | SyntaxError | MissingField string | InvalidType string | UnknownRole | WrongRole string
  | BadAddress | ConnectFailed

fun as_string :: "toml \<Rightarrow> string option" where
  "as_string (TStr s) = Some s"
| "as_string _ = None"

fun as_bool :: "toml \<Rightarrow> bool option" where
  "as_bool (TBool b) = Some b"
| "as_bool _ = None"

fun as_u64 :: "toml \<Rightarrow> u64 option" where
  "as_u64 (TInt i) = (if 0 \<le> i \<and> i < 2 ^ 64 then Some (of_int i) else None)"
| "as_u64 _ = None"

fun as_u32 :: "toml \<Rightarrow> u32 option" where
  "as_u32 (TInt i) = (if 0 \<le> i \<and> i < 2 ^ 32 then Some (of_int i) else None)"
| "as_u32 _ = None"

definition field :: "table \<Rightarrow> string \<Rightarrow> (toml \<Rightarrow> 'a option) \<Rightarrow> 'a option \<Rightarrow> ('a, cfg_error) result" where
  "field t k conv dflt =
     (case map_of t k of
        None \<Rightarrow> ok_or dflt (MissingField k)
      | Some v \<Rightarrow> ok_or (conv v) (InvalidType k))"

definition opt_field :: "table \<Rightarrow> string \<Rightarrow> (toml \<Rightarrow> 'a option) \<Rightarrow> ('a option, cfg_error) result" where
  "opt_field t k conv = field t k (\<lambda>v. map_option Some (conv v)) (Some None)"

definition d_replication :: u64 where "d_replication = 1"
definition d_block_size :: u64 where "d_block_size = push_bit 20 1"
definition d_heartbeat_timeout_ms :: u64 where "d_heartbeat_timeout_ms = 5000"
definition d_attr_ttl_ms :: u64 where "d_attr_ttl_ms = 1000"
definition d_block_cache_mb :: u64 where "d_block_cache_mb = 1024"
definition d_fuse_threads :: u64 where "d_fuse_threads = 4"
definition d_max_open_handles :: u64 where "d_max_open_handles = 100000"
definition d_keepalive_secs :: u64 where "d_keepalive_secs = 30"
definition d_rpc_timeout_ms :: u64 where "d_rpc_timeout_ms = 5000"
definition d_write_rpc_timeout_ms :: u64 where "d_write_rpc_timeout_ms = 30000"
definition d_true :: bool where [simp]: "d_true = True"

record meta_config =
  mc_node_id :: node_id
  mc_listen :: string
  mc_cluster_token :: string
  mc_replication_factor :: u64
  mc_block_size :: u64
  mc_heartbeat_timeout_ms :: u64
  mc_max_open_handles :: u64
  mc_gc_interval_ms :: "u64 option"
  mc_debug_http_listen :: "string option"

record store_config =
  sc_node_id :: node_id
  sc_listen :: string
  sc_advertise_addr :: string
  sc_meta_addr :: string
  sc_cluster_token :: string
  sc_ram_budget_bytes :: u64
  sc_debug_http_listen :: "string option"

record client_mount_options =
  mo_allow_other :: bool
  mo_default_permissions :: bool
  mo_auto_unmount :: bool
  mo_no_atime :: bool

record client_config =
  cc_node_id :: node_id
  cc_mount_point :: string
  cc_meta_addr :: string
  cc_cluster_token :: string
  cc_block_size :: u64
  cc_replication_factor :: u64
  cc_attr_cache_ttl_ms :: u64
  cc_block_cache_capacity_mb :: u64
  cc_fuse_threads :: u64
  cc_tokio_worker_threads :: "u32 option"
  cc_keepalive_interval_secs :: u64
  cc_rpc_timeout_ms :: u64
  cc_write_rpc_timeout_ms :: u64
  cc_mount_options :: client_mount_options

datatype config = Meta meta_config | Store store_config | Client client_config

definition meta_config_of :: "table \<Rightarrow> (meta_config, cfg_error) result" where
  "meta_config_of t =
     bind_result (field t ''node_id'' as_string None) (\<lambda>nid.
     bind_result (field t ''listen'' as_string None) (\<lambda>listen.
     bind_result (field t ''cluster_token'' as_string None) (\<lambda>token.
     bind_result (field t ''replication_factor'' as_u64 (Some d_replication)) (\<lambda>rf.
     bind_result (field t ''block_size'' as_u64 (Some d_block_size)) (\<lambda>bs.
     bind_result (field t ''heartbeat_timeout_ms'' as_u64 (Some d_heartbeat_timeout_ms)) (\<lambda>hb.
     bind_result (field t ''max_open_handles'' as_u64 (Some d_max_open_handles)) (\<lambda>mx.
     bind_result (opt_field t ''gc_interval_ms'' as_u64) (\<lambda>gc.
     bind_result (opt_field t ''debug_http_listen'' as_string) (\<lambda>dbg.
     Ok \<lparr> mc_node_id = NodeId nid, mc_listen = listen, mc_cluster_token = token, mc_replication_factor = rf,
          mc_block_size = bs, mc_heartbeat_timeout_ms = hb, mc_max_open_handles = mx, mc_gc_interval_ms = gc,
          mc_debug_http_listen = dbg \<rparr>)))))))))"

definition store_config_of :: "table \<Rightarrow> (store_config, cfg_error) result" where
  "store_config_of t =
     bind_result (field t ''node_id'' as_string None) (\<lambda>nid.
     bind_result (field t ''listen'' as_string None) (\<lambda>listen.
     bind_result (field t ''advertise_addr'' as_string None) (\<lambda>adv.
     bind_result (field t ''meta_addr'' as_string None) (\<lambda>maddr.
     bind_result (field t ''cluster_token'' as_string None) (\<lambda>token.
     bind_result (field t ''ram_budget_bytes'' as_u64 None) (\<lambda>ram.
     bind_result (opt_field t ''debug_http_listen'' as_string) (\<lambda>dbg.
     Ok \<lparr> sc_node_id = NodeId nid, sc_listen = listen, sc_advertise_addr = adv, sc_meta_addr = maddr,
          sc_cluster_token = token, sc_ram_budget_bytes = ram, sc_debug_http_listen = dbg \<rparr>)))))))"

text \<open>
  Two defaults meet here: a key that is missing in the table of the mount options is
  true, by \<^verbatim>\<open>d_true\<close>; the table itself, when it is missing, is the derived
  \<^verbatim>\<open>Default\<close> of the struct, in which every \<^verbatim>\<open>bool\<close> is false.
\<close>

definition mount_options_default :: client_mount_options where
  "mount_options_default = \<lparr> mo_allow_other = False, mo_default_permissions = False, mo_auto_unmount = False,
     mo_no_atime = False \<rparr>"

definition mount_options_of :: "table \<Rightarrow> (client_mount_options, cfg_error) result" where
  "mount_options_of t =
     bind_result (field t ''allow_other'' as_bool (Some d_true)) (\<lambda>ao.
     bind_result (field t ''default_permissions'' as_bool (Some d_true)) (\<lambda>dp.
     bind_result (field t ''auto_unmount'' as_bool (Some d_true)) (\<lambda>au.
     bind_result (field t ''no_atime'' as_bool (Some d_true)) (\<lambda>na.
     Ok \<lparr> mo_allow_other = ao, mo_default_permissions = dp, mo_auto_unmount = au, mo_no_atime = na \<rparr>))))"

definition mount_field :: "table \<Rightarrow> (client_mount_options, cfg_error) result" where
  "mount_field t =
     (case map_of t ''mount_options'' of
        None \<Rightarrow> Ok mount_options_default
      | Some (TTable u) \<Rightarrow> mount_options_of u
      | Some _ \<Rightarrow> Err (InvalidType ''mount_options''))"

definition client_config_of :: "table \<Rightarrow> (client_config, cfg_error) result" where
  "client_config_of t =
     bind_result (field t ''node_id'' as_string None) (\<lambda>nid.
     bind_result (field t ''mount_point'' as_string None) (\<lambda>mp.
     bind_result (field t ''meta_addr'' as_string None) (\<lambda>maddr.
     bind_result (field t ''cluster_token'' as_string None) (\<lambda>token.
     bind_result (field t ''block_size'' as_u64 (Some d_block_size)) (\<lambda>bs.
     bind_result (field t ''replication_factor'' as_u64 (Some d_replication)) (\<lambda>rf.
     bind_result (field t ''attr_cache_ttl_ms'' as_u64 (Some d_attr_ttl_ms)) (\<lambda>ttl.
     bind_result (field t ''block_cache_capacity_mb'' as_u64 (Some d_block_cache_mb)) (\<lambda>cap.
     bind_result (field t ''fuse_threads'' as_u64 (Some d_fuse_threads)) (\<lambda>thr.
     bind_result (opt_field t ''tokio_worker_threads'' as_u32) (\<lambda>wt.
     bind_result (field t ''keepalive_interval_secs'' as_u64 (Some d_keepalive_secs)) (\<lambda>ka.
     bind_result (field t ''rpc_timeout_ms'' as_u64 (Some d_rpc_timeout_ms)) (\<lambda>rt.
     bind_result (field t ''write_rpc_timeout_ms'' as_u64 (Some d_write_rpc_timeout_ms)) (\<lambda>wr.
     bind_result (mount_field t) (\<lambda>mo.
     Ok \<lparr> cc_node_id = NodeId nid, cc_mount_point = mp, cc_meta_addr = maddr, cc_cluster_token = token,
          cc_block_size = bs, cc_replication_factor = rf, cc_attr_cache_ttl_ms = ttl, cc_block_cache_capacity_mb = cap,
          cc_fuse_threads = thr, cc_tokio_worker_threads = wt, cc_keepalive_interval_secs = ka, cc_rpc_timeout_ms = rt,
          cc_write_rpc_timeout_ms = wr, cc_mount_options = mo \<rparr>))))))))))))))"

definition config_of :: "table \<Rightarrow> (config, cfg_error) result" where
  "config_of t =
     bind_result (field t ''role'' as_string None) (\<lambda>role.
       if role = ''meta'' then bind_result (meta_config_of t) (\<lambda>c. Ok (Meta c))
       else if role = ''store'' then bind_result (store_config_of t) (\<lambda>c. Ok (Store c))
       else if role = ''client'' then bind_result (client_config_of t) (\<lambda>c. Ok (Client c))
       else Err UnknownRole)"

text \<open>\<open>contents\<close> is what reading the file gives, \<open>None\<close> when that fails.\<close>

definition load :: "(string \<Rightarrow> table option) \<Rightarrow> string option \<Rightarrow> (config, cfg_error) result" where
  "load parse contents =
     bind_result (ok_or contents ReadFailed) (\<lambda>s. bind_result (ok_or (parse s) SyntaxError) config_of)"

section \<open>The heartbeat of a store\<close>

text \<open>
  \<^verbatim>\<open>spawn_heartbeat\<close>.  The task reads the clock once, then tries to connect until it
  succeeds, then sends a request every second and ignores the replies; a token that does
  not parse as a header value ends it by a panic.  A step is one attempt to connect or
  one round.  The timers are not modelled; whether the attempt or the request gets
  through is the argument \<open>up\<close> of a step.
\<close>

datatype heartbeat_phase = Connecting | Beating | Panicked

record heartbeat_task =
  ht_advertise_addr :: string
  ht_token :: string
  ht_epoch_s :: u64
  ht_phase :: heartbeat_phase

text \<open>\<^verbatim>\<open>duration_since(UNIX_EPOCH).unwrap_or_default().as_secs()\<close>\<close>

definition epoch_secs :: "system_time \<Rightarrow> u64" where
  "epoch_secs t = (if t < 0 then 0 else of_nat (nat t div nanos_per_sec))"

definition spawn_heartbeat :: "system_time \<Rightarrow> string \<Rightarrow> string \<Rightarrow> heartbeat_task" where
  "spawn_heartbeat now advertise_addr token =
     \<lparr> ht_advertise_addr = advertise_addr, ht_token = token, ht_epoch_s = epoch_secs now, ht_phase = Connecting \<rparr>"

definition heartbeat_req_of :: "store_state \<Rightarrow> string \<Rightarrow> u64 \<Rightarrow> heartbeat_req" where
  "heartbeat_req_of st advertise_addr epoch_s =
     \<lparr> hb_node_id = as_str (st_node_id st), hb_addr = advertise_addr, hb_used_bytes = ram_used st,
       hb_capacity_bytes = ram_budget st, hb_epoch_s = epoch_s \<rparr>"

text \<open>The call of one round, on the cluster whose store listens at \<open>addr\<close>.\<close>

definition heartbeat_round :: "string \<Rightarrow> string \<Rightarrow> metadata \<Rightarrow> u64 \<Rightarrow> cluster \<Rightarrow> cluster" where
  "heartbeat_round addr advertise_addr md epoch_s w =
     (case cw_stores w addr of
        None \<Rightarrow> w
      | Some st \<Rightarrow>
          snd (to_meta md
            (meta_heartbeat_node (cw_instant w) (heartbeat_req_of st advertise_addr epoch_s)) w))"

definition heartbeat_step ::
  "(string \<Rightarrow> string option) \<Rightarrow> string \<Rightarrow> bool \<Rightarrow> heartbeat_task \<times> cluster \<Rightarrow> heartbeat_task \<times> cluster" where
  "heartbeat_step parse_md addr up = (\<lambda>(t, w).
     case ht_phase t of
       Connecting \<Rightarrow> (if up then t\<lparr>ht_phase := Beating\<rparr> else t, w)
     | Beating \<Rightarrow>
         (case authed parse_md (ht_token t) of
            Ok md \<Rightarrow>
              (t, if up then heartbeat_round addr (ht_advertise_addr t) md (ht_epoch_s t) w else w)
          | _ \<Rightarrow> (t\<lparr>ht_phase := Panicked\<rparr>, w))
     | Panicked \<Rightarrow> (t, w))"

fun run_heartbeat ::
  "(string \<Rightarrow> string option) \<Rightarrow> string \<Rightarrow> bool list \<Rightarrow> heartbeat_task \<times> cluster \<Rightarrow> heartbeat_task \<times> cluster" where
  "run_heartbeat parse_md addr [] tw = tw"
| "run_heartbeat parse_md addr (up # ups) tw = run_heartbeat parse_md addr ups (heartbeat_step parse_md addr up tw)"

section \<open>Starting the processes\<close>

text \<open>
  What \<^verbatim>\<open>main\<close> of each binary builds before it serves.  \<open>addr_ok\<close> says whether the
  listen address parses.  A server record holds the state that the service and the
  background tasks share, and what those tasks start with; the debug page is served when
  it has an address.
\<close>

record meta_server =
  ms_state :: meta_state
  ms_token :: string
  ms_dead_after :: duration
  ms_debug :: "string option"

definition meta_main :: "(string \<Rightarrow> bool) \<Rightarrow> system_time \<Rightarrow> config \<Rightarrow> (meta_server, cfg_error) result" where
  "meta_main addr_ok now cfg =
     (case cfg of
        Meta c \<Rightarrow>
          if addr_ok (mc_listen c)
          then Ok \<lparr> ms_state = meta_new now (unat (mc_replication_factor c)), ms_token = mc_cluster_token c,
                    ms_dead_after = from_millis (mc_heartbeat_timeout_ms c),
                    ms_debug = mc_debug_http_listen c \<rparr>
          else Err BadAddress
      | _ \<Rightarrow> Err (WrongRole ''expected role=meta in config''))"

record store_server =
  sv_state :: store_state
  sv_token :: string
  sv_heartbeat :: heartbeat_task
  sv_debug :: "string option"

definition store_main :: "(string \<Rightarrow> bool) \<Rightarrow> system_time \<Rightarrow> config \<Rightarrow> (store_server, cfg_error) result" where
  "store_main addr_ok now cfg =
     (case cfg of
        Store c \<Rightarrow>
          if addr_ok (sc_listen c)
          then Ok \<lparr> sv_state = store_new (sc_node_id c) (sc_meta_addr c) (sc_ram_budget_bytes c),
                    sv_token = sc_cluster_token c,
                    sv_heartbeat = spawn_heartbeat now (sc_advertise_addr c) (sc_cluster_token c),
                    sv_debug = sc_debug_http_listen c \<rparr>
          else Err BadAddress
      | _ \<Rightarrow> Err (WrongRole ''expected role=store in config''))"

datatype mount_option = FSName string | Subtype string | DefaultPermissions | AllowOther | AutoUnmount | NoAtime

definition mount_opts :: "client_mount_options \<Rightarrow> mount_option list" where
  "mount_opts o' =
     [FSName ''dtmpfs'', Subtype ''dtmpfs'']
     @ (if mo_default_permissions o' then [DefaultPermissions] else [])
     @ (if mo_allow_other o' then [AllowOther] else [])
     @ (if mo_auto_unmount o' then [AutoUnmount] else [])
     @ (if mo_no_atime o' then [NoAtime] else [])"

text \<open>The number of threads the runtime is asked for; without one it takes its own default.\<close>

definition runtime_threads :: "client_config \<Rightarrow> u64 option" where
  "runtime_threads c =
     (case cc_tokio_worker_threads c of
        Some n \<Rightarrow> if n > 0 then Some (ucast n) else None
      | None \<Rightarrow> None)"

definition client_main ::
  "'w transport \<Rightarrow> 'w \<Rightarrow> config \<Rightarrow> ('w fs \<times> string \<times> mount_option list, cfg_error) result" where
  "client_main T w cfg =
     (case cfg of
        Client c \<Rightarrow>
          if \<not> t_uri_ok T (cc_meta_addr c) then Err BadAddress
          else (case t_connect T (cc_meta_addr c) w of (up, w1) \<Rightarrow>
            if \<not> up then Err ConnectFailed
            else Ok (build_fs w1 (cc_attr_cache_ttl_ms c) (cc_block_size c) (cc_replication_factor c) (cc_cluster_token c),
                     cc_mount_point c, mount_opts (cc_mount_options c)))
      | _ \<Rightarrow> Err (WrongRole ''expected role=client in config''))"

text \<open>The three binaries, from the contents of their configuration file.\<close>

definition meta_start ::
  "(string \<Rightarrow> table option) \<Rightarrow> (string \<Rightarrow> bool) \<Rightarrow> system_time \<Rightarrow> string option \<Rightarrow> (meta_server, cfg_error) result" where
  "meta_start parse addr_ok now contents = bind_result (load parse contents) (meta_main addr_ok now)"

definition store_start ::
  "(string \<Rightarrow> table option) \<Rightarrow> (string \<Rightarrow> bool) \<Rightarrow> system_time \<Rightarrow> string option \<Rightarrow> (store_server, cfg_error) result" where
  "store_start parse addr_ok now contents = bind_result (load parse contents) (store_main addr_ok now)"

definition client_start ::
  "(string \<Rightarrow> table option) \<Rightarrow> 'w transport \<Rightarrow> 'w \<Rightarrow> string option
     \<Rightarrow> ('w fs \<times> string \<times> mount_option list, cfg_error) result" where
  "client_start parse T w contents = bind_result (load parse contents) (client_main T w)"

section \<open>The debug pages\<close>

record block_dump =
  bd_ino :: u64
  bd_idx :: u64
  bd_gen :: u64
  bd_len :: nat

record blocks_dump =
  bs_count :: nat
  bs_ram_used :: u64
  bs_blocks :: "block_dump list"

definition debug_blocks :: "store_state \<Rightarrow> blocks_dump" where
  "debug_blocks st =
     (let bs = map (\<lambda>(k, v). \<lparr> bd_ino = raw (bk_ino k), bd_idx = raw_idx (bk_block_idx k),
                                bd_gen = raw_gen (bk_generation k), bd_len = length v \<rparr>) (blocks st)
      in \<lparr> bs_count = length bs, bs_ram_used = ram_used st, bs_blocks = bs \<rparr>)"

record state_dump =
  sd_inodes :: nat
  sd_open_handles :: nat
  sd_nodes :: "string list"

definition debug_state :: "meta_state \<Rightarrow> state_dump" where
  "debug_state m = \<lparr> sd_inodes = card (dom (inodes m)), sd_open_handles = card (dom (open_handles m)),
     sd_nodes = map (\<lambda>(k, _). as_str k) (nodes m) \<rparr>"

end
