(* ===== verification/World.thy ===== *)
theory World
  imports Client_Calls Startup
begin

text \<open>
  Runs of a whole cluster.  \<open>world_step\<close> has one rule per thing that can happen to the
  servers: the metadata server handles a request, a heartbeat or a tick of its watcher, a
  store handles a write or a delete, a spawned delete task runs, a store process starts or
  ends, time passes.  A step is one handler, so the steps of the RPCs of several clients
  and of the background tasks can come in any order; what holds in every reachable world
  holds whatever the interleaving is.  Which renames occur is a parameter of the run, since
  the server does not check the directories a rename names; without restriction it is
  \<open>\<lambda>_ _. True\<close>.  WriteBlock and DeleteBlock are one step each here, although the
  code makes several accesses; \<open>Store_Race\<close> has those, and what it proves of them, an overrun
  of the budget, is why no property of whole runs speaks of the budget.  Replicate is no
  step, because no process calls it.  The second half shows that nothing else happens:
  each FUSE request of a client is a sequence of such steps.
\<close>

section \<open>Steps\<close>

fun meta_tasks :: "string \<Rightarrow> meta_op \<Rightarrow> meta_state \<Rightarrow> delete_task list" where
  "meta_tasks token (OpSetAttr now r) s = fst (snd (meta_set_attr token now r s))"
| "meta_tasks token (OpUnlink r) s = fst (snd (meta_unlink token r s))"
| "meta_tasks token (OpRename r) s = fst (snd (meta_rename token r s))"
| "meta_tasks token x s = []"

text \<open>
  The requests that take a number from a counter must find it below its end.  The server
  checks nothing about the directories a rename names, so a run carries as its parameter
  which renames occur in it: \<open>\<lambda>_ _. True\<close> for all runs, \<^const>\<open>rename_safe\<close> for those in
  which every rename meets the conditions the server leaves to its callers.
\<close>

type_synonym renames = "rename_req \<Rightarrow> meta_state \<Rightarrow> bool"

fun meta_guard :: "renames \<Rightarrow> meta_op \<Rightarrow> meta_state \<Rightarrow> bool" where
  "meta_guard G (OpCreate now r) s \<longleftrightarrow> counters_ok s"
| "meta_guard G (OpMkdir now r) s \<longleftrightarrow> counters_ok s"
| "meta_guard G (OpRegister r g) s \<longleftrightarrow> counters_ok s"
| "meta_guard G (OpRename r) s \<longleftrightarrow> G r s"
| "meta_guard G x s \<longleftrightarrow> True"

text \<open>A byte vector has at most \<^verbatim>\<open>isize::MAX\<close> elements; budgets are taken to be below that too.\<close>

abbreviation vec_ok :: "bytes \<Rightarrow> bool" where
  "vec_ok data \<equiv> length data < 2 ^ 63"

fun store_guard :: "store_op \<Rightarrow> bool" where
  "store_guard (StWrite r) \<longleftrightarrow> vec_ok (wb_data r)"
| "store_guard (StDelete k) \<longleftrightarrow> True"

definition serve :: "(string \<Rightarrow> u64 \<Rightarrow> u64) \<Rightarrow> meta_op \<Rightarrow> cluster \<Rightarrow> cluster" where
  "serve xxh3 x w = w\<lparr>cw_meta := meta_exec xxh3 (cw_token w) x (cw_meta w),
     cw_tasks := cw_tasks w @ meta_tasks (cw_token w) x (cw_meta w)\<rparr>"

definition on_store :: "string \<Rightarrow> store_state option \<Rightarrow> cluster \<Rightarrow> cluster" where
  "on_store a st w = w\<lparr>cw_stores := (cw_stores w)(a := st)\<rparr>"

inductive world_step :: "(string \<Rightarrow> u64 \<Rightarrow> u64) \<Rightarrow> renames \<Rightarrow> cluster \<Rightarrow> cluster \<Rightarrow> bool" for xxh3 G where
  serve: "meta_guard G x (cw_meta w) \<Longrightarrow> world_step xxh3 G w (serve xxh3 x w)"
| store: "cw_stores w a = Some st \<Longrightarrow> store_guard x \<Longrightarrow> world_step xxh3 G w (on_store a (Some (store_exec x st)) w)"
| delete: "t \<in> set (cw_tasks w) \<Longrightarrow>
    world_step xxh3 G w ((run_delete_task t w)\<lparr>cw_tasks := remove1 t (cw_tasks w)\<rparr>)"
| start: "unat budget < 2 ^ 63 \<Longrightarrow> world_step xxh3 G w (on_store a (Some (store_new nid maddr budget)) w)"
| ends: "world_step xxh3 G w (on_store a None w)"
| clock: "cw_instant w \<le> i \<Longrightarrow> world_step xxh3 G w (w\<lparr>cw_now := now, cw_instant := i\<rparr>)"

section \<open>What every reachable world keeps\<close>

definition store_ok :: "store_state \<Rightarrow> bool" where
  "store_ok st \<longleftrightarrow> store_wf st \<and> unat (ram_budget st) < 2 ^ 63"

definition task_ok :: "string \<Rightarrow> meta_state \<Rightarrow> delete_task \<Rightarrow> bool" where
  "task_ok token m t \<longleftrightarrow> raw (dt_ino t) < next_ino m \<and> dt_token t = token"

definition world_ok :: "cluster \<Rightarrow> bool" where
  "world_ok w \<longleftrightarrow> meta_wf (cw_meta w)
     \<and> (\<forall>a st. cw_stores w a = Some st \<longrightarrow> store_ok st)
     \<and> (\<forall>t \<in> set (cw_tasks w). task_ok (cw_token w) (cw_meta w) t)"

lemma meta_wf_exec:
  assumes wf: "meta_wf m" and "meta_guard G x m"
  shows "meta_wf (meta_exec xxh3 token x m)"
  using assms(2) handler_refines [OF wf] handler_wf [OF wf] by (cases x) simp_all

text \<open>Where every rename meets its conditions, the namespace stays a tree.\<close>

lemma tree_exec:
  assumes wf: "meta_wf m" and ns: "ns_ok (abs_ns m)" and "meta_guard G x m" and "\<And>r m. G r m \<Longrightarrow> rename_safe r m"
  shows "ns_ok (abs_ns (meta_exec xxh3 token x m))"
proof (cases x)
  case (OpRename r)
  then show ?thesis using ns_serve_ok [OF rename_refines [OF wf ns] ns] assms(3,4) by simp
next
  case (OpCreate now r)
  then show ?thesis using ns_serve_ok [OF create_refines [OF wf] ns] by simp
next
  case (OpMkdir now r)
  then show ?thesis using ns_serve_ok [OF mkdir_refines [OF wf] ns] by simp
next
  case (OpUnlink r)
  then show ?thesis using ns_serve_ok [OF unlink_refines [OF wf ns] ns] by simp
next
  case (OpRmdir r)
  then show ?thesis using ns_serve_ok [OF rmdir_refines [OF wf] ns] by simp
qed (use assms(3) ns handler_refines [OF wf] in simp_all)

lemma task_of_fire: "t \<in> set (fire_delete_blocks bs addrs ino token) \<Longrightarrow> dt_ino t = ino \<and> dt_token t = token"
  by (auto simp: fire_delete_blocks_def split: option.splits)

lemma fire_task_ok:
  assumes "meta_wf m" and "inodes m ino = Some n" and "t \<in> set (fire_delete_blocks bs addrs ino token)"
  shows "task_ok token m t"
proof -
  have "raw ino < next_ino m" using inodes_wfD [OF meta_wf_inodes [OF assms(1)] assms(2)] by blast
  then show ?thesis using task_of_fire [OF assms(3)] by (simp add: task_ok_def)
qed

lemma set_attr_tasks:
  assumes "t \<in> set (fst (snd (meta_set_attr token now r m)))"
  shows "\<exists>n bs. inodes m (InodeId (sa_ino r)) = Some n
    \<and> t \<in> set (fire_delete_blocks bs (node_addrs_of m) (InodeId (sa_ino r)) token)"
proof (cases "inodes m (InodeId (sa_ino r))")
  case None
  then show ?thesis using assms by (simp add: meta_set_attr_missing)
next
  case (Some n)
  show ?thesis
  proof (cases "req_time (sa_atime_s r) (sa_atime_ns r) (i_atime n) = None
      \<or> req_time (sa_mtime_s r) (sa_mtime_ns r) (i_mtime n) = None")
    case True
    then show ?thesis using assms meta_set_attr_panic [OF Some, of token now] by auto
  next
    case False
    then obtain ta tm where t: "req_time (sa_atime_s r) (sa_atime_ns r) (i_atime n) = Some ta"
      "req_time (sa_mtime_s r) (sa_mtime_ns r) (i_mtime n) = Some tm" by auto
    obtain n6 dropped where sz:
      "set_attr_size (sa_size r) ((set_attr_fields r n)\<lparr>i_atime := ta, i_mtime := tm\<rparr>) = (n6, dropped)"
      by fastforce
    show ?thesis using assms Some meta_set_attr_ok [OF Some t sz, of token now] by auto
  qed
qed

lemma meta_tasks_ok:
  assumes wf: "meta_wf m" and "t \<in> set (meta_tasks token x m)"
  shows "task_ok token m t"
proof (cases x)
  case (OpSetAttr now r)
  then obtain n bs where "inodes m (InodeId (sa_ino r)) = Some n"
    "t \<in> set (fire_delete_blocks bs (node_addrs_of m) (InodeId (sa_ino r)) token)"
    using assms(2) set_attr_tasks [of t token now r m] by auto
  then show ?thesis by (rule fire_task_ok [OF wf])
next
  case (OpUnlink r)
  then show ?thesis
    using assms(2) meta_unlink_ok [OF wf, of r _ _ _ token]
    by (cases rule: meta_unlink_cases [of token r m]) (auto intro: fire_task_ok [OF wf])
next
  case (OpRename r)
  then show ?thesis using assms(2) rename_any(2) [OF wf, of t token r] fire_task_ok [OF wf] by auto
qed (use assms(2) in simp_all)

text \<open>Only Create and Mkdir take an inode number.\<close>

lemma next_ino_namespace:
  "next_ino (fst (meta_unlink token ul m)) = next_ino m" "next_ino (fst (meta_rmdir rd m)) = next_ino m"
  "next_ino (fst (meta_close now cl m)) = next_ino m"
  "next_ino (fst (meta_heartbeat_node i hb m)) = next_ino m"
  by (auto simp: meta_unlink_def meta_rmdir_def meta_close_def meta_heartbeat_node_def Let_def with_dir_def split: option.split)

lemma next_ino_rename: "next_ino (fst (meta_rename token r m)) = next_ino m"
proof -
  obtain s1 v where s1: "rename_drop_dst (InodeId (rn_dst_parent_ino r)) (rn_dst_name r) m = (s1, v)"
    by fastforce
  then have "next_ino s1 = next_ino m"
    using counters_drop_dst [of "InodeId (rn_dst_parent_ino r)" "rn_dst_name r" m] by simp
  then show ?thesis
    by (cases v) (auto simp: meta_rename_def s1 Let_def with_dir_def split: option.split prod.split)
qed

lemma next_ino_set_attr: "next_ino (fst (meta_set_attr token now r m)) = next_ino m"
  using meta_set_attr_core [of m r _ token now]
  by (cases "inodes m (InodeId (sa_ino r))") (auto simp: meta_set_attr_missing)

lemma next_ino_allocate: "next_ino (fst (meta_allocate_blocks xxh3 r m)) = next_ino m"
  by (cases "inodes m (InodeId (al_ino r))") (simp_all add: meta_allocate_blocks_eq, simp add: meta_allocate_blocks_def)

lemma next_ino_guarded:
  assumes "meta_guard G x m"
  shows "next_ino m \<le> next_ino (meta_exec xxh3 token x m)"
proof (cases "counters_ok m")
  case True
  then show ?thesis using next_ino_grows [of m 0 xxh3 token x] by (simp add: counters_ok_def)
next
  case False
  then show ?thesis
    using assms
    by (cases x) (simp_all add: next_ino_namespace next_ino_rename next_ino_set_attr next_ino_allocate)
qed

section \<open>The invariant\<close>

lemma store_ok_exec: "store_ok st \<Longrightarrow> store_guard x \<Longrightarrow> store_ok (store_exec x st)"
  by (cases x) (simp_all add: store_ok_def store_write_block_wf store_delete_block_wf,
      simp_all flip: store_exec.simps)

lemma world_ok_serve:
  assumes "world_ok w" and "meta_guard G x (cw_meta w)"
  shows "world_ok (serve xxh3 x w)"
proof -
  let ?m = "cw_meta w" and ?m' = "meta_exec xxh3 (cw_token w) x (cw_meta w)"
  have m: "meta_wf ?m" and t: "\<forall>t \<in> set (cw_tasks w). task_ok (cw_token w) ?m t"
    using assms(1) by (simp_all add: world_ok_def)
  have "\<forall>t \<in> set (cw_tasks w @ meta_tasks (cw_token w) x ?m). task_ok (cw_token w) ?m t"
    using t meta_tasks_ok [OF m] by auto
  then have "\<forall>t \<in> set (cw_tasks w @ meta_tasks (cw_token w) x ?m). task_ok (cw_token w) ?m' t"
    using next_ino_guarded [OF assms(2), of xxh3 "cw_token w"] unfolding task_ok_def by (metis order_less_le_trans)
  then show ?thesis
    using assms meta_wf_exec [OF m assms(2)] by (simp add: world_ok_def serve_def)
qed

lemma world_ok_on_store:
  "world_ok w \<Longrightarrow> (\<And>s. st = Some s \<Longrightarrow> store_ok s) \<Longrightarrow> world_ok (on_store a st w)"
  by (simp add: world_ok_def on_store_def)

lemma run_delete_task_eq:
  assumes "dt_token t = cw_token w"
  shows "run_delete_task t w = (case cw_stores w (dt_addr t) of None \<Rightarrow> w
    | Some st \<Rightarrow> on_store (dt_addr t) (Some (store_exec (StDelete (Some (write_key (dt_ino t) (dt_idx t)))) st)) w)"
  using assms by (auto simp: run_delete_task_def on_store_def write_key_def to_store_def split_def split: option.split)

lemma world_ok_delete:
  assumes "world_ok w" and "t \<in> set (cw_tasks w)"
  shows "world_ok ((run_delete_task t w)\<lparr>cw_tasks := remove1 t (cw_tasks w)\<rparr>)"
proof -
  have "dt_token t = cw_token w" using assms by (simp add: world_ok_def task_ok_def)
  note eq = run_delete_task_eq [OF this]
  have "world_ok (run_delete_task t w)"
  proof (cases "cw_stores w (dt_addr t)")
    case (Some st)
    then have "store_ok (store_exec (StDelete (Some (write_key (dt_ino t) (dt_idx t)))) st)"
      using assms(1) by (intro store_ok_exec) (simp_all add: world_ok_def)
    then show ?thesis using Some assms(1) by (auto simp: eq intro: world_ok_on_store)
  qed (use assms(1) in \<open>simp add: eq\<close>)
  moreover have "cw_tasks (run_delete_task t w) = cw_tasks w" "cw_meta (run_delete_task t w) = cw_meta w"
    unfolding eq by (simp_all add: on_store_def split: option.split)
  ultimately show ?thesis
    using set_remove1_subset [of t "cw_tasks w"] by (auto simp: world_ok_def)
qed

lemma world_ok_step: "world_step xxh3 G w w' \<Longrightarrow> world_ok w \<Longrightarrow> world_ok w'"
proof (induction rule: world_step.induct)
  case (store w a st x)
  then show ?case by (intro world_ok_on_store) (auto intro: store_ok_exec simp: world_ok_def)
next
  case (start budget w a nid maddr)
  then show ?case by (intro world_ok_on_store) (auto simp: store_ok_def store_wf_new, simp add: store_new_def)
next
  case (clock w i now)
  then show ?case by (simp add: world_ok_def)
qed (auto intro: world_ok_serve world_ok_delete world_ok_on_store)

lemma world_ok_steps: "(world_step xxh3 G)\<^sup>*\<^sup>* w w' \<Longrightarrow> world_ok w \<Longrightarrow> world_ok w'"
  by (induction rule: rtranclp_induct) (auto intro: world_ok_step)

text \<open>The tree of the namespace, in runs whose renames meet their conditions.\<close>

lemma world_tree_step:
  assumes "world_step xxh3 G w w'" and "world_ok w" and "ns_ok (abs_ns (cw_meta w))"
    and safe: "\<And>r m. G r m \<Longrightarrow> rename_safe r m"
  shows "ns_ok (abs_ns (cw_meta w'))"
  using assms(1-3)
proof (induction rule: world_step.induct)
  case (serve x w)
  then have wf: "meta_wf (cw_meta w)" by (simp add: world_ok_def)
  have "ns_ok (abs_ns (meta_exec xxh3 (cw_token w) x (cw_meta w)))"
    by (rule tree_exec [OF wf serve(3,1) safe])
  then show ?case by (simp add: serve_def)
next
  case (delete t w)
  then have "dt_token t = cw_token w" by (simp add: world_ok_def task_ok_def)
  then show ?case using delete(3) by (simp add: run_delete_task_eq on_store_def split: option.split)
qed (simp_all add: on_store_def)

lemma world_tree_steps:
  assumes "(world_step xxh3 G)\<^sup>*\<^sup>* w w'" and "world_ok w" and "ns_ok (abs_ns (cw_meta w))"
    and safe: "\<And>r m. G r m \<Longrightarrow> rename_safe r m"
  shows "ns_ok (abs_ns (cw_meta w'))"
  using assms(1)
proof (induction rule: rtranclp_induct)
  case (step v v')
  show ?case by (rule world_tree_step [OF step(2) world_ok_steps [OF step(1) assms(2)] step(3) safe])
qed (rule assms(3))

section \<open>The calls of a client are steps\<close>

lemma to_meta_R:
  assumes "(world_step xxh3 G)\<^sup>*\<^sup>* w (w\<lparr>cw_meta := fst (h (cw_meta w))\<rparr>)"
  shows "(world_step xxh3 G)\<^sup>*\<^sup>* w (snd (to_meta md h w))"
  using assms by (auto simp: to_meta_def guarded_def split: result.splits prod.splits)

lemma to_meta_read: "(world_step xxh3 G)\<^sup>*\<^sup>* w (snd (to_meta md (\<lambda>m. (m, h m)) w))"
  by (rule to_meta_R) simp

lemma to_meta_serve:
  assumes "meta_guard G x (cw_meta w)" and "meta_tasks (cw_token w) x (cw_meta w) = []"
    and "fst (h (cw_meta w)) = meta_exec xxh3 (cw_token w) x (cw_meta w)"
  shows "(world_step xxh3 G)\<^sup>*\<^sup>* w (snd (to_meta md h w))"
  using world_step.serve [OF assms(1), of xxh3] assms(2,3)
  by (intro to_meta_R r_into_rtranclp) (simp add: serve_def)

lemma to_meta_tasks_serve:
  assumes "meta_guard G x (cw_meta w)" and "fst (h (cw_meta w)) = meta_exec xxh3 (cw_token w) x (cw_meta w)"
    and "fst (snd (h (cw_meta w))) = meta_tasks (cw_token w) x (cw_meta w)"
  shows "(world_step xxh3 G)\<^sup>*\<^sup>* w (snd (to_meta_tasks md h w))"
  using world_step.serve [OF assms(1), of xxh3] assms(2,3)
  by (auto simp: to_meta_tasks_def serve_def split: result.splits prod.splits)

lemma to_store_R:
  assumes "\<And>st. cw_stores w a = Some st \<Longrightarrow> fst (h st) = st \<or> (\<exists>x. store_guard x \<and> fst (h st) = store_exec x st)"
  shows "(world_step xxh3 G)\<^sup>*\<^sup>* w (snd (to_store a md h w))"
proof (cases "cw_stores w a")
  case (Some st)
  have same: "w\<lparr>cw_stores := (cw_stores w)(a \<mapsto> st)\<rparr> = w" using Some by (simp add: fun_upd_idem)
  have "(world_step xxh3 G)\<^sup>*\<^sup>* w (w\<lparr>cw_stores := (cw_stores w)(a \<mapsto> fst (h st))\<rparr>)"
    using assms [OF Some] same world_step.store [of w a st _ xxh3, OF Some] by (auto simp: on_store_def)
  then show ?thesis
    using Some same by (auto simp: to_store_def guarded_def split: result.splits prod.splits)
qed (simp add: to_store_def)

lemma direct_open_R:
  assumes "counters_ok (cw_meta w)"
  shows "(world_step xxh3 G)\<^sup>*\<^sup>* w (snd (t_open (direct xxh3) md rq w))"
proof (cases "open_read rq (cw_meta w)")
  case (Ok v)
  obtain a g bm where v: "v = (a, g, bm)" by (metis prod_cases3)
  have "fst (meta_open rq (cw_meta w)) = meta_exec xxh3 (cw_token w) (OpRegister rq g) (cw_meta w)"
    using Ok v by (simp add: meta_open_def split_def Let_def)
  then show ?thesis
    using assms to_meta_serve [of G "OpRegister rq g" w "meta_open rq" xxh3] by (simp add: direct_simps)
qed (use to_meta_R [of xxh3 G w "meta_open rq"] in \<open>simp_all add: direct_simps meta_open_def\<close>)

interpretation dw: client_calls "direct xxh3" "(world_step xxh3 G)\<^sup>*\<^sup>*" vec_ok for xxh3 G
proof
  fix w a c md and rb :: read_block_req and wb :: write_block_req and al cl rd
  show "(world_step xxh3 G)\<^sup>*\<^sup>* w (snd (t_connect (direct xxh3) a w))" by (simp add: direct_simps)
  show "(world_step xxh3 G)\<^sup>*\<^sup>* w (snd (t_read_block (direct xxh3) c md rb w))"
    by (simp add: direct_simps to_store_R)
  show "(world_step xxh3 G)\<^sup>*\<^sup>* w (snd (t_write_block (direct xxh3) c md wb w))" if "vec_ok (wb_data wb)"
    using that by (auto simp: direct_simps intro!: to_store_R exI [of _ "StWrite wb"])
  show "(world_step xxh3 G)\<^sup>*\<^sup>* w (snd (t_list_nodes (direct xxh3) md w))"
    "(world_step xxh3 G)\<^sup>*\<^sup>* w (snd (t_read_dir (direct xxh3) md rd w))"
    by (simp_all add: direct_simps to_meta_read)
  show "(world_step xxh3 G)\<^sup>*\<^sup>* w (snd (t_allocate (direct xxh3) md al w))"
    using to_meta_serve [of G "OpAllocate al" w "meta_allocate_blocks xxh3 al" xxh3] by (simp add: direct_simps)
  show "(world_step xxh3 G)\<^sup>*\<^sup>* w (snd (t_close (direct xxh3) md cl w))"
    using to_meta_serve [of G "OpClose (cw_now w) cl" w "meta_close (cw_now w) cl" xxh3] by (simp add: direct_simps)
qed auto

section \<open>The requests of a client are steps\<close>

text \<open>
  All FUSE requests as one type.  Where the model has an argument for what the code leaves
  open, it is an argument of \<open>fuse_exec\<close>: the order of the writes of a publish, the fuel of
  the paging loop, the size of the kernel's directory buffer.
\<close>

datatype fuse_req =
    RqLookup u64 string
  | RqGetattr u64
  | RqSetattr u64 "u32 option" "u32 option" "u32 option" "u64 option" "time_or_now option" "time_or_now option"
  | RqCreate u32 u32 u64 string u32 i32
  | RqOpen u64 i32
  | RqMkdir u32 u32 u64 string u32
  | RqUnlink u64 string
  | RqRmdir u64 string
  | RqRename u64 string u64 string
  | RqReaddir u64 i64
  | RqStatfs
  | RqRead u64 i64 u32
  | RqWrite u64 i64 bytes
  | RqFlush u64
  | RqFsync u64
  | RqRelease u64

record fuse_env =
  fe_pick :: "fanout \<Rightarrow> nat"
  fe_fuel :: nat
  fe_full :: "dirent list \<Rightarrow> dirent \<Rightarrow> bool"

fun fuse_exec :: "fuse_env \<Rightarrow> 'w transport \<Rightarrow> fuse_req \<Rightarrow> 'w fs \<Rightarrow> 'w fs option" where
  "fuse_exec e T (RqLookup p n) s = Some (snd (fuse_lookup T p n s))"
| "fuse_exec e T (RqGetattr i) s = Some (snd (fuse_getattr T i s))"
| "fuse_exec e T (RqSetattr i m u g sz at mt) s = Some (snd (fuse_setattr T i m u g sz at mt s))"
| "fuse_exec e T (RqCreate u g p n m fl) s = Some (snd (fuse_create T u g p n m fl s))"
| "fuse_exec e T (RqOpen i fl) s = Some (snd (fuse_open T i fl s))"
| "fuse_exec e T (RqMkdir u g p n m) s = Some (snd (fuse_mkdir T u g p n m s))"
| "fuse_exec e T (RqUnlink p n) s = Some (snd (fuse_unlink T p n s))"
| "fuse_exec e T (RqRmdir p n) s = Some (snd (fuse_rmdir T p n s))"
| "fuse_exec e T (RqRename p n p' n') s = Some (snd (fuse_rename T p n p' n' s))"
| "fuse_exec e T (RqReaddir i off) s = map_option snd (fuse_readdir (fe_fuel e) T (fe_full e) i off s)"
| "fuse_exec e T RqStatfs s = Some (snd (fuse_statfs T s))"
| "fuse_exec e T (RqRead fh off sz) s = map_option snd (fuse_read T fh off sz s)"
| "fuse_exec e T (RqWrite fh off data) s = map_option snd (fuse_write T fh off data s)"
| "fuse_exec e T (RqFlush fh) s = Some (snd (snd (fuse_flush T (fe_pick e) fh s)))"
| "fuse_exec e T (RqFsync fh) s = Some (snd (snd (fuse_fsync T (fe_pick e) fh s)))"
| "fuse_exec e T (RqRelease fh) s = Some (snd (snd (fuse_release T (fe_pick e) fh s)))"

definition dirty_vecs :: "u64 \<Rightarrow> 'w fs \<Rightarrow> bool" where
  "dirty_vecs fh s \<longleftrightarrow> (case fs_open_files s fh of None \<Rightarrow> True
     | Some f \<Rightarrow> list_all (\<lambda>blk. vec_ok (snd blk)) (of_dirty f))"

fun fuse_guard :: "renames \<Rightarrow> fuse_req \<Rightarrow> cluster fs \<Rightarrow> bool" where
  "fuse_guard G (RqCreate u g p n m fl) s \<longleftrightarrow> counters_ok (cw_meta (fs_world s))"
| "fuse_guard G (RqOpen i fl) s \<longleftrightarrow> counters_ok (cw_meta (fs_world s))"
| "fuse_guard G (RqMkdir u g p n m) s \<longleftrightarrow> counters_ok (cw_meta (fs_world s))"
| "fuse_guard G (RqRename p n p' n') s \<longleftrightarrow> G \<lparr> rn_src_parent_ino = p, rn_src_name = to_string_lossy n,
     rn_dst_parent_ino = p', rn_dst_name = to_string_lossy n' \<rparr> (cw_meta (fs_world s))"
| "fuse_guard G (RqFlush fh) s \<longleftrightarrow> dirty_vecs fh s"
| "fuse_guard G (RqFsync fh) s \<longleftrightarrow> dirty_vecs fh s"
| "fuse_guard G (RqRelease fh) s \<longleftrightarrow> dirty_vecs fh s"
| "fuse_guard G rq s \<longleftrightarrow> True"

lemma attr_reply_world [simp]: "fs_world (snd (attr_reply T key a s)) = fs_world s"
  by (simp add: attr_reply_def attr_cache_insert_def split: option.split)

lemma fuse_call_steps:
  assumes "\<And>md. (world_step xxh3 G)\<^sup>*\<^sup>* (fs_world s) (snd (h md (fs_world s)))"
    and "\<And>a u. fs_world (snd (k a u)) = fs_world u"
  shows "(world_step xxh3 G)\<^sup>*\<^sup>* (fs_world s) (fs_world (snd (fuse_call (direct xxh3) h k s)))"
proof -
  obtain q t where c: "fuse_call (direct xxh3) h k s = (q, t)" by fastforce
  have "fs_world v = fs_world u" if "k a u = (q', v)" for a u q' v
    using assms(2) [of a u] that by simp
  from dw.fuse_call_R [OF c assms(1) this] show ?thesis by (simp add: c)
qed

text \<open>The guard of a request that is a single call, as a guard of that call.\<close>

lemma direct_meta_R:
  "(world_step xxh3 G)\<^sup>*\<^sup>* w (snd (t_lookup (direct xxh3) md lk w))"
  "(world_step xxh3 G)\<^sup>*\<^sup>* w (snd (t_get_attr (direct xxh3) md ino w))"
  "(world_step xxh3 G)\<^sup>*\<^sup>* w (snd (t_set_attr (direct xxh3) md sa w))"
  "(world_step xxh3 G)\<^sup>*\<^sup>* w (snd (t_unlink (direct xxh3) md ul w))"
  "(world_step xxh3 G)\<^sup>*\<^sup>* w (snd (t_rmdir (direct xxh3) md rd w))"
  using to_meta_tasks_serve [of G "OpSetAttr (cw_now w) sa" w "meta_set_attr (cw_token w) (cw_now w) sa" xxh3 md]
    to_meta_tasks_serve [of G "OpUnlink ul" w "meta_unlink (cw_token w) ul" xxh3 md]
    to_meta_serve [of G "OpRmdir rd" w "meta_rmdir rd" xxh3 md]
  by (simp_all add: direct_def to_meta_read)

lemma direct_create_R:
  "counters_ok (cw_meta w) \<Longrightarrow> (world_step xxh3 G)\<^sup>*\<^sup>* w (snd (t_create (direct xxh3) md cr w))"
  "counters_ok (cw_meta w) \<Longrightarrow> (world_step xxh3 G)\<^sup>*\<^sup>* w (snd (t_mkdir (direct xxh3) md mk w))"
  "G rn (cw_meta w) \<Longrightarrow> (world_step xxh3 G)\<^sup>*\<^sup>* w (snd (t_rename (direct xxh3) md rn w))"
  using to_meta_serve [of G "OpCreate (cw_now w) cr" w "meta_create (cw_now w) cr" xxh3 md]
    to_meta_serve [of G "OpMkdir (cw_now w) mk" w "meta_mkdir (cw_now w) mk" xxh3 md]
    to_meta_tasks_serve [of G "OpRename rn" w "meta_rename (cw_token w) rn" xxh3 md]
  by (simp_all add: direct_def)

lemma single_calls_R:
  "(world_step xxh3 G)\<^sup>*\<^sup>* (fs_world s) (fs_world (snd (fuse_lookup (direct xxh3) p n s)))"
  "(world_step xxh3 G)\<^sup>*\<^sup>* (fs_world s) (fs_world (snd (fuse_getattr (direct xxh3) ino s)))"
  "(world_step xxh3 G)\<^sup>*\<^sup>* (fs_world s) (fs_world (snd (fuse_setattr (direct xxh3) ino m u g sz at mt s)))"
  "(world_step xxh3 G)\<^sup>*\<^sup>* (fs_world s) (fs_world (snd (fuse_unlink (direct xxh3) p n s)))"
  "(world_step xxh3 G)\<^sup>*\<^sup>* (fs_world s) (fs_world (snd (fuse_rmdir (direct xxh3) p n s)))"
  by (auto simp: fuse_lookup_def fuse_setattr_def fuse_getattr_def fuse_unlink_def fuse_rmdir_def unit_reply_def
      direct_meta_R split: option.split intro!: fuse_call_steps)

lemma guarded_calls_R:
  "counters_ok (cw_meta (fs_world s)) \<Longrightarrow>
     (world_step xxh3 G)\<^sup>*\<^sup>* (fs_world s) (fs_world (snd (fuse_create (direct xxh3) u g p n m fl s)))"
  "counters_ok (cw_meta (fs_world s)) \<Longrightarrow>
     (world_step xxh3 G)\<^sup>*\<^sup>* (fs_world s) (fs_world (snd (fuse_open (direct xxh3) ino fl s)))"
  "counters_ok (cw_meta (fs_world s)) \<Longrightarrow>
     (world_step xxh3 G)\<^sup>*\<^sup>* (fs_world s) (fs_world (snd (fuse_mkdir (direct xxh3) u g p n m s)))"
  "G \<lparr> rn_src_parent_ino = p, rn_src_name = to_string_lossy n,
     rn_dst_parent_ino = p', rn_dst_name = to_string_lossy n' \<rparr> (cw_meta (fs_world s)) \<Longrightarrow>
     (world_step xxh3 G)\<^sup>*\<^sup>* (fs_world s) (fs_world (snd (fuse_rename (direct xxh3) p n p' n' s)))"
  by (auto simp: fuse_create_def fuse_open_def fuse_mkdir_def fuse_rename_def unit_reply_def direct_create_R
      direct_open_R attr_cache_insert_def put_open_file_def build_open_file_def
      split: option.split intro!: fuse_call_steps)

lemma publish_steps:
  assumes "dirty_vecs fh s"
  shows "(world_step xxh3 G)\<^sup>*\<^sup>* (fs_world s) (fs_world (snd (snd (publish (direct xxh3) (fe_pick e) fh wait s))))"
proof -
  obtain r ts t where p: "publish (direct xxh3) (fe_pick e) fh wait s = (r, ts, t)" by (metis prod_cases3)
  then show ?thesis
    using assms dw.publish_R [OF p] by (simp add: dirty_vecs_def list_all_iff split: option.splits)
qed

lemma publish_requests_world:
  "fs_world (snd (snd (fuse_flush T pick fh s))) = fs_world (snd (snd (publish T pick fh PrimariesOnly s)))"
  "fs_world (snd (snd (fuse_fsync T pick fh s))) = fs_world (snd (snd (publish T pick fh AllReplicas s)))"
  "fs_world (snd (snd (fuse_release T pick fh s))) = fs_world (snd (snd (publish T pick fh PrimariesOnly s)))"
  by (simp_all add: fuse_flush_def fuse_fsync_def fuse_release_def flush_path_def fsync_path_def
      split: prod.split result.split)

lemma request_steps:
  assumes "fuse_exec e (direct xxh3) rq s = Some s'" and "fuse_guard G rq s"
  shows "(world_step xxh3 G)\<^sup>*\<^sup>* (fs_world s) (fs_world s')"
proof (cases rq)
  case (RqReaddir i off)
  then show ?thesis using assms dw.fuse_readdir_R by auto
next
  case RqStatfs
  then show ?thesis using assms dw.fuse_statfs_R [of xxh3 s "fst (fuse_statfs (direct xxh3) s)" s'] by auto
next
  case (RqRead fh off sz)
  then show ?thesis using assms dw.fuse_read_R by auto
next
  case (RqWrite fh off data)
  then show ?thesis using assms dw.fuse_write_R by auto
qed (use assms in \<open>auto simp: publish_requests_world intro: single_calls_R guarded_calls_R publish_steps\<close>)

end
