(* ===== verification/System.thy ===== *)
theory System
  imports World
begin

text \<open>
  A cluster with its clients.  \<open>sys_step\<close> lets any mounted client run any FUSE request, lets
  the replica writes that a flush has spawned run at any later time, and lets the servers
  make their own steps in between.  A request that is one call to the metadata server can
  also be cut where the code awaits the reply: the server has answered, the client waits,
  time passes and others go on, and the reply arrives later.  Every reachable state keeps
  the tables of the servers in agreement, and in every client the buffers of open files
  stay in order and at least a block long, which is what the copies of the write path rely
  on.
\<close>

section \<open>The invariant of a client\<close>

definition buf_ok :: "u64 \<Rightarrow> bytes \<Rightarrow> bool" where
  "buf_ok bs b \<longleftrightarrow> unat bs \<le> length b \<and> vec_ok b"

definition file_ok :: "u64 \<Rightarrow> open_file \<Rightarrow> bool" where
  "file_ok bs f \<longleftrightarrow> bt_wf (of_dirty f) \<and> (\<forall>i b. bt_get (of_dirty f) i = Some b \<longrightarrow> buf_ok bs b)"

definition client_inv :: "'w fs \<Rightarrow> bool" where
  "client_inv s \<longleftrightarrow> unat (fs_block_size s) < 2 ^ 63
     \<and> (\<forall>fh f. fs_open_files s fh = Some f \<longrightarrow> file_ok (fs_block_size s) f)
     \<and> (\<forall>k b. fs_block_cache s k = Some b \<longrightarrow> vec_ok b)"

text \<open>What most calls of a client leave alone.\<close>

definition client_same :: "'w fs \<Rightarrow> 'w fs \<Rightarrow> bool" where
  "client_same s t \<longleftrightarrow> fs_open_files t = fs_open_files s \<and> fs_block_cache t = fs_block_cache s
     \<and> fs_block_size t = fs_block_size s"

lemma client_same_refl [simp]: "client_same s s"
  by (simp add: client_same_def)

lemma client_same_trans: "client_same s t \<Longrightarrow> client_same t u \<Longrightarrow> client_same s u"
  by (simp add: client_same_def)

lemma client_inv_same: "client_same s t \<Longrightarrow> client_inv s \<Longrightarrow> client_inv t"
  by (simp add: client_same_def client_inv_def)

lemma same_pool_get: "pool_get T n s = (r, t) \<Longrightarrow> client_same s t"
  by (auto simp: pool_get_def client_same_def Let_def split: option.splits if_splits prod.splits)

lemma same_authed_call: "authed_call T h s = (r, t) \<Longrightarrow> client_same s t"
  by (auto simp: authed_call_def client_same_def split: result.splits prod.splits sum.splits)

lemma same_evict [simp]: "client_same s (evict n s)" and same_refresh [simp]: "client_same s (refresh_addrs m s)"
  and same_attr [simp]: "client_same s (attr_cache_insert T ino fa s)"
  by (simp_all add: client_same_def evict_def refresh_addrs_def attr_cache_insert_def)

interpretation csf: call_frame T client_same for T
  by unfold_locales (auto intro: client_same_trans same_pool_get same_authed_call)

lemma client_inv_put:
  "client_inv s \<Longrightarrow> file_ok (fs_block_size s) f \<Longrightarrow> client_inv (put_open_file fh f s)"
  by (auto simp: client_inv_def put_open_file_def split: if_splits)

lemma file_ok_insert: "file_ok bs f \<Longrightarrow> buf_ok bs b \<Longrightarrow> file_ok bs (f\<lparr>of_dirty := bt_insert i b (of_dirty f)\<rparr>)"
  by (auto simp: file_ok_def bt_wf_insert split: if_splits)

lemma file_ok_clean: "of_dirty f = [] \<Longrightarrow> file_ok bs f"
  by (simp add: file_ok_def bt_get_def)

lemma file_ok_set:
  assumes "file_ok bs f" and "blk \<in> set (of_dirty f)"
  shows "buf_ok bs (snd blk)"
proof -
  have "bt_get (of_dirty f) (fst blk) = Some (snd blk)"
    using assms by (auto simp: file_ok_def bt_get_def dest: bt_wf_distinct intro!: map_of_is_SomeI)
  then show ?thesis using assms(1) by (auto simp: file_ok_def)
qed

section \<open>Fetched blocks\<close>

lemma stored_vec_ok:
  assumes "store_ok st" and "store_read_block rq st = Ok r"
  shows "vec_ok (rbr_data r)"
proof -
  obtain k where b: "hm_get (blocks st) k = Some (rbr_data r)"
    using assms(2) by (auto simp: store_read_block_def split: option.splits)
  have "length (rbr_data r) \<le> held_bytes st" using prev_le_held [OF _ b] assms(1) by (simp add: store_ok_def store_wf_def)
  then show ?thesis using assms(1) unfolding store_ok_def store_wf_def by linarith
qed

lemma read_call_vec_ok:
  assumes "authed_call (direct xxh3) (\<lambda>md. t_read_block (direct xxh3) c md rq) s = (Ok r, t)" and "world_ok (fs_world s)"
  shows "vec_ok (rbr_data r)"
proof -
  obtain md where f: "fst (to_store c md (\<lambda>st. (st, store_read_block rq st)) (fs_world s)) = Inr r"
    using assms(1) by (auto simp: authed_call_def direct_simps split: result.splits prod.splits sum.splits) (metis fst_conv)
  then obtain st where st: "cw_stores (fs_world s) c = Some st"
    by (cases "cw_stores (fs_world s) c") (simp_all add: to_store_def)
  have "store_read_block rq st = Ok r"
    using f st by (cases "check_token Some md (cw_token (fs_world s))"; cases "store_read_block rq st")
      (simp_all add: to_store_def guarded_def rpc_of_def)
  then show ?thesis using assms(2) st by (intro stored_vec_ok [of st rq]) (auto simp: world_ok_def)
qed

text \<open>
  \<open>fetched s r t\<close>: a fetch that started in \<open>s\<close> and ended in \<open>t\<close> with the reply \<open>r\<close> kept both
  invariants and the open files, and any block it brought is a vector.
\<close>

definition fetched :: "cluster fs \<Rightarrow> (bytes, 'e) result \<Rightarrow> cluster fs \<Rightarrow> bool" where
  "fetched s r t \<longleftrightarrow> client_inv t \<and> world_ok (fs_world t) \<and> fs_open_files t = fs_open_files s
     \<and> fs_block_size t = fs_block_size s \<and> (\<forall>b. r = Ok b \<longrightarrow> vec_ok b)"

abbreviation client_ready :: "cluster fs \<Rightarrow> bool" where
  "client_ready s \<equiv> client_inv s \<and> world_ok (fs_world s)"

lemma ready_pool_get:
  assumes "pool_get (direct xxh3) n s = (r, t)" and "client_ready s"
  shows "client_ready t \<and> client_same s t"
  using same_pool_get [OF assms(1)] client_inv_same world_ok_steps [OF dw.pool_get_R [OF assms(1)]] assms(2) by blast

lemma ready_call:
  assumes "authed_call (direct xxh3) h s = (r, t)" and "client_ready s"
    and "\<And>md. (world_step xxh3 G)\<^sup>*\<^sup>* (fs_world s) (snd (h md (fs_world s)))"
  shows "client_ready t \<and> client_same s t"
  using same_authed_call [OF assms(1)] client_inv_same world_ok_steps [OF dw.authed_call_R [OF assms(1,3)]] assms(2) by blast

lemma fetched_same: "client_ready t \<Longrightarrow> client_same s t \<Longrightarrow> (\<And>b. r = Ok b \<Longrightarrow> vec_ok b) \<Longrightarrow> fetched s r t"
  by (simp add: fetched_def client_same_def)

lemma fetched_from_same: "client_same s t \<Longrightarrow> fetched t r u \<Longrightarrow> fetched s r u"
  by (simp add: fetched_def client_same_def)

lemma client_ready_cache_insert:
  "client_ready s \<Longrightarrow> vec_ok b \<Longrightarrow> client_ready (block_cache_insert k b s)"
  by (simp add: client_inv_def block_cache_insert_def)

lemma fetched_fetch_from: "fetch_from (direct xxh3) f idx ns e s = (r, t) \<Longrightarrow> client_ready s \<Longrightarrow> fetched s r t"
proof (induction ns arbitrary: e s)
  case Nil
  then show ?case by (auto intro: fetched_same)
next
  case (Cons n ns)
  obtain p s1 where p: "pool_get (direct xxh3) n s = (p, s1)" by fastforce
  note 1 = ready_pool_get [OF p Cons.prems(2)]
  show ?case
  proof (cases p)
    case (Ok c)
    obtain a s2 where a: "authed_call (direct xxh3) (\<lambda>md. t_read_block (direct xxh3) c md (block_req (of_ino f) idx)) s1 = (a, s2)"
      by fastforce
    have 2: "client_ready s2 \<and> client_same s s2"
      using ready_call [OF a _ dw.read_block_R] 1 client_same_trans by blast
    show ?thesis
    proof (cases a)
      case (Ok v)
      have vec: "vec_ok (rbr_data v)" using read_call_vec_ok a Ok 1 by blast
      have "t = block_cache_insert (of_ino f, of_generation f, idx) (rbr_data v) s2" "r = Ok (rbr_data v)"
        using Cons.prems(1) p \<open>p = Ok c\<close> a Ok by auto
      then show ?thesis
        using client_ready_cache_insert [OF conjunct1 [OF 2] vec] 2 vec
        by (simp add: fetched_def client_same_def block_cache_insert_def)
    next
      case (Err st)
      have "vec_ok (zero_block s2)" using 2 by (simp add: client_inv_def zero_block_def)
      moreover have "client_ready (evict n s2) \<and> client_same s (evict n s2)"
        using 2 client_inv_same [OF same_evict] client_same_trans [OF _ same_evict] by (auto simp: evict_def)
      ultimately show ?thesis
        using Cons.prems(1) p \<open>p = Ok c\<close> a Err 2 Cons.IH [of "EStoreUnavailable n" "evict n s2"]
        by (auto split: if_splits intro: fetched_same fetched_from_same)
    next
      case Panic
      then show ?thesis using Cons.prems(1) p \<open>p = Ok c\<close> a 2 by (auto intro: fetched_same)
    qed
  next
    case (Err x)
    then show ?thesis using Cons.prems(1) p 1 Cons.IH [of x s1] by (auto intro: fetched_from_same)
  next
    case Panic
    then show ?thesis using Cons.prems(1) p 1 by (auto intro: fetched_same)
  qed
qed

lemma fetched_fetch_block:
  assumes "fetch_block (direct xxh3) f idx s = (r, t)" and "client_ready s" and "file_ok (fs_block_size s) f"
  shows "fetched s r t"
proof -
  obtain q u where q: "refresh_if_empty (direct xxh3) s = (q, u)" by fastforce
  have "client_same s u"
    using q by (auto simp: refresh_if_empty_def intro: client_same_trans [OF _ same_refresh] dest!: same_authed_call
        split: if_splits prod.splits result.splits)
  moreover have "world_ok (fs_world u)" using world_ok_steps [OF dw.refresh_R [OF q]] assms(2) by blast
  ultimately have u: "client_ready u \<and> client_same s u" using client_inv_same assms(2) by blast
  have cache: "vec_ok b" if "block_cache_get T k s = Some b" for T k b
    using that assms(2) by (cases k) (auto simp: block_cache_get_def client_inv_def split: if_splits)
  have dirty: "vec_ok b" if "bt_get (of_dirty f) idx = Some b" for b
    using that assms(3) by (auto simp: file_ok_def buf_ok_def)
  show ?thesis
    using assms(1,2) q u cache dirty fetched_fetch_from [of xxh3 f idx _ _ u r t]
    by (auto simp: fetch_block_def simp del: fetch_from.simps intro: fetched_same fetched_from_same
        split: option.splits result.splits)
qed

section \<open>Reading and writing\<close>

text \<open>What a step of the data path keeps of the client, whatever it does to the file at hand.\<close>

definition data_step :: "cluster fs \<Rightarrow> cluster fs \<Rightarrow> bool" where
  "data_step s t \<longleftrightarrow> client_ready t \<and> fs_open_files t = fs_open_files s \<and> fs_block_size t = fs_block_size s"

lemma data_step_refl: "client_ready s \<Longrightarrow> data_step s s"
  by (simp add: data_step_def)

lemma data_step_trans: "data_step s t \<Longrightarrow> data_step t u \<Longrightarrow> data_step s u"
  by (simp add: data_step_def)

lemma data_step_fetched: "fetched s r t \<Longrightarrow> data_step s t"
  by (simp add: fetched_def data_step_def)

lemma read_loop_inv:
  "read_loop fuel (fetch_block (direct xxh3)) bs e cur buf f s = Some (r, t) \<Longrightarrow> client_ready s
     \<Longrightarrow> file_ok (fs_block_size s) f \<Longrightarrow> data_step s t"
proof (induction fuel arbitrary: cur buf s)
  case (Suc fuel)
  obtain q u where q: "fetch_block (direct xxh3) f (BlockIdx (cur div bs)) s = (q, u)" by fastforce
  have 1: "data_step s u" by (rule data_step_fetched [OF fetched_fetch_block [OF q Suc.prems(2,3)]])
  then have u: "client_ready u" "file_ok (fs_block_size u) f" using Suc.prems(3) by (simp_all add: data_step_def)
  show ?case
    using Suc.prems q 1 data_step_trans [OF 1 Suc.IH [OF _ u]] Suc.IH data_step_refl
    by (auto simp: Let_def split: if_splits result.splits)
qed simp

lemma pad_block_ok: "unat bs < 2 ^ 63 \<Longrightarrow> vec_ok b \<Longrightarrow> buf_ok bs (pad_block bs b)"
  by (cases "unat bs \<le> length b") (simp_all add: buf_ok_def pad_block_def)

lemma load_block_inv:
  assumes "load_block (fetch_block (direct xxh3)) (fs_block_size s) idx whole f s = (r, f', t)" and "client_ready s"
    and "file_ok (fs_block_size s) f"
  shows "file_ok (fs_block_size s) f' \<and> data_step s t"
proof -
  obtain q u where q: "fetch_block (direct xxh3) f idx s = (q, u)" by fastforce
  note fe = fetched_fetch_block [OF q assms(2,3)]
  have bs: "unat (fs_block_size s) < 2 ^ 63" using assms(2) by (simp add: client_inv_def)
  then have zeros: "buf_ok (fs_block_size s) (replicate (unat (fs_block_size s)) 0)" by (simp add: buf_ok_def)
  have got: "buf_ok (fs_block_size s) (pad_block (fs_block_size s) b)" if "q = Ok b" for b
    using fe that pad_block_ok [OF bs] by (simp add: fetched_def)
  show ?thesis
    using assms q data_step_fetched [OF fe] data_step_refl file_ok_insert [OF assms(3)] zeros got
    by (auto simp: load_block_def split: if_splits result.splits)
qed

lemma copy_chunk_inv:
  "copy_chunk idx i n k data f = Some f' \<Longrightarrow> file_ok bs f \<Longrightarrow> file_ok bs f'"
  by (auto simp: copy_chunk_def file_ok_def buf_ok_def bt_wf_insert split: option.splits if_splits)

lemma write_loop_inv:
  "write_loop fuel (fetch_block (direct xxh3)) (fs_block_size s) e data cur written f s = Some (r, f', t) \<Longrightarrow> client_ready s
     \<Longrightarrow> file_ok (fs_block_size s) f \<Longrightarrow> file_ok (fs_block_size s) f' \<and> data_step s t"
proof (induction fuel arbitrary: cur written f s)
  case (Suc fuel)
  let ?bs = "fs_block_size s"
  let ?idx = "BlockIdx (cur div ?bs)" and ?off = "cur div ?bs * ?bs"
  let ?n = "min (?off + ?bs) e - cur"
  obtain q f1 u where q: "load_block (fetch_block (direct xxh3)) ?bs ?idx (cur - ?off = 0 \<and> ?n = ?bs) f s = (q, f1, u)"
    by (metis prod_cases3)
  have 1: "file_ok ?bs f1" "data_step s u" using load_block_inv [OF q Suc.prems(2,3)] by simp_all
  then have u: "fs_block_size u = ?bs" "client_ready u" by (simp_all add: data_step_def)
  show ?case
  proof (cases "cur < e \<and> ?bs \<noteq> 0 \<and> q = Ok ()")
    case False
    then show ?thesis
      using Suc.prems q 1 data_step_refl by (cases q) (auto simp: Let_def split: if_splits)
  next
    case True
    show ?thesis
    proof (cases "copy_chunk ?idx (unat (cur - ?off)) (unat ?n) (unat written) data f1")
      case None
      then show ?thesis using Suc.prems(1) True q 1 by (auto simp: Let_def)
    next
      case (Some f2)
      have loop: "write_loop fuel (fetch_block (direct xxh3)) (fs_block_size u) e data (cur + ?n) (written + ucast ?n) f2 u = Some (r, f', t)"
        using Suc.prems(1) True q Some u(1) by (simp add: Let_def)
      have "file_ok (fs_block_size u) f2" using copy_chunk_inv [OF Some 1(1)] u(1) by simp
      from Suc.IH [OF loop u(2) this] show ?thesis using u(1) data_step_trans [OF 1(2)] by simp
    qed
  qed
qed simp

lemma fuse_read_inv:
  assumes "fuse_read (direct xxh3) fh off sz s = Some (r, t)" and "client_ready s"
  shows "client_ready t"
proof (cases "fs_open_files s fh")
  case (Some f)
  then have "file_ok (fs_block_size s) f" using assms(2) by (auto simp: client_inv_def)
  then show ?thesis
    using assms Some
    by (auto simp: fuse_read_def read_file_def Let_def data_step_def dest!: read_loop_inv
        simp del: read_loop.simps split: option.splits)
qed (use assms in \<open>simp add: fuse_read_def\<close>)

lemma fuse_write_inv:
  assumes "fuse_write (direct xxh3) fh off data s = Some (r, t)" and "client_ready s"
  shows "client_ready t"
proof (cases "fs_open_files s fh")
  case (Some f)
  have f: "file_ok (fs_block_size s) f" using Some assms(2) by (auto simp: client_inv_def)
  obtain q f1 u where a: "apply_write (direct xxh3) off data f s = Some (q, f1, u)" and t: "t = put_open_file fh f1 u"
    using assms(1) Some by (auto simp: fuse_write_def split: option.splits)
  let ?loop = "write_loop (Suc (length data)) (fetch_block (direct xxh3)) (fs_block_size s) (off + of_nat (length data)) data off 0 f s"
  obtain f2 where "?loop = Some (q, f2, u)" and f1: "of_dirty f1 = of_dirty f2"
    using a by (auto simp: apply_write_def apply_write_with_def Let_def simp del: write_loop.simps
        split: option.splits result.splits)
  then have "file_ok (fs_block_size s) f2" "data_step s u" using write_loop_inv assms(2) f by blast+
  then show ?thesis using f1 by (simp add: t data_step_def file_ok_def client_inv_put) (simp add: put_open_file_def)
qed (use assms in \<open>simp add: fuse_write_def\<close>)

section \<open>Publishing and the other requests\<close>

lemma publish_addrs_same: "publish_addrs T s = (r, t) \<Longrightarrow> client_same s t"
  by (auto simp: publish_addrs_def intro: client_same_trans [OF _ same_refresh] dest!: same_authed_call
      split: prod.splits result.splits)

lemma publish_allocate_same: "publish_allocate T f s = (r, t) \<Longrightarrow> client_same s t"
  by (auto simp: publish_allocate_def Let_def dest: same_authed_call split: if_splits prod.splits result.splits)

lemma publish_close_inv:
  assumes "publish_close (direct xxh3) fh idxs f s = (r, t)" and "client_inv s" and "of_dirty f = []"
  shows "client_inv t"
proof -
  let ?now = "time_parts (t_now (direct xxh3) (fs_world s))"
  let ?r = "\<lparr> cl_fh = fh, cl_ino = raw (of_ino f), cl_expected_generation = raw_gen (of_generation f),
      cl_new_size = of_size_hint f, cl_written_block_idxs = idxs, cl_mtime_s = fst ?now, cl_mtime_ns = snd ?now \<rparr>"
  obtain q u where c: "authed_call (direct xxh3) (\<lambda>md. t_close (direct xxh3) md ?r) s = (q, u)" by fastforce
  have u: "client_inv u" using client_inv_same [OF same_authed_call [OF c]] assms(2) .
  have put: "client_inv (put_open_file fh (f\<lparr>of_generation := g\<rparr>) u)" for g
    using u assms(3) by (intro client_inv_put file_ok_clean) simp_all
  show ?thesis
    using assms(1) c u put by (cases q) (auto simp: publish_close_def Let_def direct_simps)
qed

lemma publish_inv:
  assumes "publish (direct xxh3) pick fh wait s = (r, ts, t)" and "client_inv s"
  shows "client_inv t"
proof (cases "fs_open_files s fh")
  case None
  then show ?thesis using assms by (simp add: publish_def)
next
  case (Some f)
  obtain a s1 where a: "publish_addrs (direct xxh3) s = (a, s1)" by fastforce
  obtain b s2 where b: "publish_allocate (direct xxh3) f s1 = (b, s2)" by fastforce
  have 1: "client_inv s1" using client_inv_same [OF publish_addrs_same [OF a] assms(2)] .
  have 2: "client_inv s2" using client_inv_same [OF publish_allocate_same [OF b] 1] .
  show ?thesis
  proof (cases "of_dirty f = [] \<or> a \<noteq> Ok () \<or> (\<forall>f1. b \<noteq> Ok f1)")
    case True
    then show ?thesis
      using assms Some a b 1 2 by (cases a; cases b) (auto simp: publish_def split: if_splits)
  next
    case False
    then obtain f1 where ok: "a = Ok ()" "b = Ok f1" "of_dirty f \<noteq> []" by blast
    let ?f2 = "f1\<lparr>of_dirty := []\<rparr>"
    obtain c ts1 s4 where c: "write_all (direct xxh3) wait (of_ino ?f2) (of_block_map ?f2) pick (of_dirty f1) (put_open_file fh ?f2 s2) = (c, ts1, s4)"
      by (metis prod_cases3)
    have "client_inv (put_open_file fh ?f2 s2)" by (rule client_inv_put [OF 2 file_ok_clean]) simp
    then have 4: "client_inv s4" using client_inv_same [OF csf.write_all_call_frame [OF c]] by blast
    obtain d s5 where d: "publish_close (direct xxh3) fh (map (raw_idx \<circ> fst) (of_dirty f1)) ?f2 s4 = (d, s5)" by fastforce
    have "t = s4 \<or> t = s5"
      using assms(1) Some a b c d ok by (cases c) (auto simp: publish_def Let_def)
    then show ?thesis using 4 publish_close_inv [OF d 4] by auto
  qed
qed

lemma fuse_call_inv:
  assumes "client_inv s" and "\<And>a u. client_inv u \<Longrightarrow> client_inv (snd (k a u))"
  shows "client_inv (snd (fuse_call T h k s))"
proof -
  obtain q u where c: "authed_call T h s = (q, u)" by fastforce
  have "client_inv u" using client_inv_same [OF same_authed_call [OF c] assms(1)] .
  then show ?thesis using c assms(2) by (cases q) (simp_all add: fuse_call_def)
qed

lemma attr_reply_inv: "client_inv s \<Longrightarrow> client_inv (snd (attr_reply T key a s))"
  by (auto simp: attr_reply_def intro: client_inv_same [OF same_attr] split: option.split)

lemma single_calls_inv:
  assumes "client_inv s"
  shows "client_inv (snd (fuse_lookup T p n s))" "client_inv (snd (fuse_getattr T ino s))"
    "client_inv (snd (fuse_setattr T ino m u g sz at mt s))" "client_inv (snd (fuse_unlink T p n s))"
    "client_inv (snd (fuse_rmdir T p n s))" "client_inv (snd (fuse_mkdir T u' g' p n m' s))"
    "client_inv (snd (fuse_rename T p n p' n' s))"
  using assms
  by (auto simp: fuse_lookup_def fuse_setattr_def fuse_getattr_def fuse_unlink_def fuse_rmdir_def fuse_mkdir_def
      fuse_rename_def unit_reply_def intro!: fuse_call_inv attr_reply_inv split: option.split)

lemma opening_calls_inv:
  assumes "client_inv s"
  shows "client_inv (snd (fuse_create T u g p n m fl s))" "client_inv (snd (fuse_open T ino fl s))"
  using assms
  by (auto simp: fuse_create_def fuse_open_def build_open_file_def
      intro!: fuse_call_inv client_inv_same [OF same_attr] client_inv_put file_ok_clean
      split: option.split)

lemma readdir_loop_same: "readdir_loop fuel T ino cookie es s = Some (r, t) \<Longrightarrow> client_same s t"
proof (induction fuel arbitrary: cookie es s)
  case (Suc fuel)
  obtain q u where c: "authed_call T (\<lambda>md. t_read_dir T md \<lparr> rq_ino = ino, rq_cookie = cookie, rq_max_entries = 256 \<rparr>) s = (q, u)"
    by fastforce
  note 1 = same_authed_call [OF c]
  show ?case
    using Suc.prems c 1 client_same_trans [OF 1 Suc.IH] by (cases q) (auto simp: Let_def split: if_splits)
qed simp

lemma fuse_readdir_inv:
  "fuse_readdir fuel T full ino off s = Some (r, t) \<Longrightarrow> client_inv s \<Longrightarrow> client_inv t"
  by (auto simp: fuse_readdir_def dest!: readdir_loop_same intro: client_inv_same simp del: readdir_loop.simps
      split: option.splits result.splits)

lemma fuse_statfs_inv: "client_inv s \<Longrightarrow> client_inv (snd (fuse_statfs T s))"
  by (auto simp: fuse_statfs_def dest!: same_authed_call intro: client_inv_same split: prod.splits result.splits)

lemma publish_requests_inv:
  assumes "client_inv s"
  shows "client_inv (snd (snd (fuse_flush (direct xxh3) pick fh s)))" "client_inv (snd (snd (fuse_fsync (direct xxh3) pick fh s)))"
    "client_inv (snd (snd (fuse_release (direct xxh3) pick fh s)))"
proof -
  have inv: "client_inv t" if "publish (direct xxh3) pick fh wait s = (r, ts, t)" for wait r ts t
    using publish_inv [OF that assms] .
  have drop: "client_inv (t\<lparr>fs_open_files := (fs_open_files t)(fh := None)\<rparr>)" if "client_inv t" for t :: "cluster fs"
    using that by (simp add: client_inv_def)
  show "client_inv (snd (snd (fuse_flush (direct xxh3) pick fh s)))" "client_inv (snd (snd (fuse_fsync (direct xxh3) pick fh s)))"
    "client_inv (snd (snd (fuse_release (direct xxh3) pick fh s)))"
    using inv drop by (auto simp: fuse_flush_def fuse_fsync_def fuse_release_def flush_path_def fsync_path_def
        split: prod.split result.split)
qed

lemma client_inv_file: "client_inv s \<Longrightarrow> fs_open_files s fh = Some f \<Longrightarrow> file_ok (fs_block_size s) f"
  by (simp add: client_inv_def)

lemma client_inv_vecs: "client_inv s \<Longrightarrow> dirty_vecs fh s"
  using file_ok_set [OF client_inv_file, of s fh]
  by (auto simp: dirty_vecs_def list_all_iff buf_ok_def split: option.split)

text \<open>What is left of the guard of a request: room in the counters, and the renames of the run.\<close>

fun req_guard :: "renames \<Rightarrow> fuse_req \<Rightarrow> meta_state \<Rightarrow> bool" where
  "req_guard G (RqCreate u g p n m fl) s \<longleftrightarrow> counters_ok s"
| "req_guard G (RqOpen i fl) s \<longleftrightarrow> counters_ok s"
| "req_guard G (RqMkdir u g p n m) s \<longleftrightarrow> counters_ok s"
| "req_guard G (RqRename p n p' n') s \<longleftrightarrow> G \<lparr> rn_src_parent_ino = p, rn_src_name = to_string_lossy n,
     rn_dst_parent_ino = p', rn_dst_name = to_string_lossy n' \<rparr> s"
| "req_guard G rq s \<longleftrightarrow> True"

lemma request_inv:
  assumes "fuse_exec e (direct xxh3) rq s = Some s'" and "req_guard G rq (cw_meta (fs_world s))" and "client_ready s"
  shows "client_ready s'"
proof -
  have inv: "client_inv s" using assms(3) by simp
  have "fuse_guard G rq s" using assms(2) client_inv_vecs [OF inv] by (cases rq) simp_all
  then have "world_ok (fs_world s')" using world_ok_steps [OF request_steps [OF assms(1)]] assms(3) by blast
  moreover have "client_inv s'"
  proof (cases rq)
    case (RqReaddir i off)
    then show ?thesis using assms(1) fuse_readdir_inv inv by auto
  next
    case (RqRead fh off sz)
    then show ?thesis using assms(1,3) fuse_read_inv by auto
  next
    case (RqWrite fh off data)
    then show ?thesis using assms(1,3) fuse_write_inv by auto
  qed (use assms(1) inv in \<open>auto intro: single_calls_inv opening_calls_inv fuse_statfs_inv publish_requests_inv\<close>)
  ultimately show ?thesis by blast
qed

section \<open>Requests cut at their reply\<close>

text \<open>
  The FUSE requests that are one call to the metadata server and then work on the reply.
  \<open>fuse_sent\<close> is the request up to the reply, \<open>fuse_finish\<close> the work on it, in the client as
  it is when the reply arrives.  The attribute cache takes its time stamp there.
\<close>

datatype answer =
    AnsLookup "attr option"
  | AnsGetattr u64 attr
  | AnsSetattr u64 "attr option"
  | AnsCreate i32 create_resp
  | AnsOpen u64 i32 open_resp
  | AnsMkdir attr

fun sent_as :: "('a \<Rightarrow> answer) \<Rightarrow> ('a, 'e) result \<times> 'w fs \<Rightarrow> (answer \<times> 'w fs) option" where
  "sent_as f (Ok a, s) = Some (f a, s)"
| "sent_as f (_, s) = None"

fun fuse_sent :: "'w transport \<Rightarrow> fuse_req \<Rightarrow> 'w fs \<Rightarrow> (answer \<times> 'w fs) option" where
  "fuse_sent T (RqLookup p n) s = sent_as AnsLookup
     (authed_call T (\<lambda>md. t_lookup T md \<lparr> lk_parent_ino = p, lk_name = to_string_lossy n \<rparr>) s)"
| "fuse_sent T (RqGetattr i) s = (case attr_cache_get T (InodeId i) s of
     Some c \<Rightarrow> None | None \<Rightarrow> sent_as (AnsGetattr i) (authed_call T (\<lambda>md. t_get_attr T md i) s))"
| "fuse_sent T (RqSetattr i m u g sz at mt) s = sent_as (AnsSetattr i)
     (authed_call T (\<lambda>md. t_set_attr T md \<lparr> sa_ino = i, sa_size = sz, sa_mode = m, sa_uid = u,
         sa_gid = g, sa_atime_s = fst (time_arg at), sa_atime_ns = snd (time_arg at),
         sa_mtime_s = fst (time_arg mt), sa_mtime_ns = snd (time_arg mt) \<rparr>) s)"
| "fuse_sent T (RqCreate u g p n m fl) s = sent_as (AnsCreate fl)
     (authed_call T (\<lambda>md. t_create T md \<lparr> cr_parent_ino = p, cr_name = to_string_lossy n,
         cr_mode = m, cr_uid = u, cr_gid = g \<rparr>) s)"
| "fuse_sent T (RqOpen i fl) s = sent_as (AnsOpen i fl)
     (authed_call T (\<lambda>md. t_open T md \<lparr> op_ino = i, op_flags = fl \<rparr>) s)"
| "fuse_sent T (RqMkdir u g p n m) s = sent_as AnsMkdir
     (authed_call T (\<lambda>md. t_mkdir T md \<lparr> mk_parent_ino = p, mk_name = to_string_lossy n,
         mk_mode = m, mk_uid = u, mk_gid = g \<rparr>) s)"
| "fuse_sent T rq s = None"

fun fuse_finish :: "'w transport \<Rightarrow> answer \<Rightarrow> 'w fs \<Rightarrow> 'w fs" where
  "fuse_finish T (AnsLookup r) s = (case r of None \<Rightarrow> s
     | Some a \<Rightarrow> snd (attr_reply T (\<lambda>fa. InodeId (fa_ino fa)) a s))"
| "fuse_finish T (AnsGetattr i a) s = snd (attr_reply T (\<lambda>_. InodeId i) a s)"
| "fuse_finish T (AnsSetattr i r) s = (case r of None \<Rightarrow> s
     | Some a \<Rightarrow> snd (attr_reply T (\<lambda>_. InodeId i) a s))"
| "fuse_finish T (AnsCreate fl r) s = (case crr_attr r of None \<Rightarrow> s
     | Some a \<Rightarrow> (case proto_attr_to_fuse a of None \<Rightarrow> s
        | Some fa \<Rightarrow> (case build_open_file (InodeId (at_ino a)) (crr_fh r) a (crr_block_map r) fl of
             (fh, f) \<Rightarrow> attr_cache_insert T (InodeId (fa_ino fa)) fa (put_open_file fh f s))))"
| "fuse_finish T (AnsOpen i fl r) s = (case opr_attr r of None \<Rightarrow> s
     | Some a \<Rightarrow> (case build_open_file (InodeId i) (opr_fh r) a (opr_block_map r) fl of
          (fh, f) \<Rightarrow> put_open_file fh f s))"
| "fuse_finish T (AnsMkdir a) s = snd (attr_reply T (\<lambda>fa. InodeId (fa_ino fa)) a s)"

lemma sent_as_iff: "sent_as f c = Some (ans, t) \<longleftrightarrow> (\<exists>a. c = (Ok a, t) \<and> ans = f a)"
  by (cases c; cases "fst c") auto

text \<open>A reply that arrives at once makes the cut request the whole request.\<close>

lemma sent_then_finished:
  assumes "fuse_sent T rq s = Some (ans, t)"
  shows "fuse_exec e T rq s = Some (fuse_finish T ans t)"
  using assms
  by (cases rq) (auto simp: sent_as_iff fuse_lookup_def fuse_getattr_def fuse_setattr_def fuse_create_def fuse_open_def
      fuse_mkdir_def fuse_call_def split: option.splits prod.split)

lemma finish_world [simp]: "fs_world (fuse_finish T ans s) = fs_world s"
  by (cases ans) (auto simp: attr_cache_insert_def put_open_file_def split: option.split prod.split)

lemma finish_inv: "client_inv s \<Longrightarrow> client_inv (fuse_finish T ans s)"
  by (cases ans) (auto simp: build_open_file_def
      intro!: attr_reply_inv client_inv_same [OF same_attr] client_inv_put file_ok_clean split: option.split)

lemma sent_same: "fuse_sent T rq s = Some (ans, t) \<Longrightarrow> client_same s t"
  by (cases rq) (auto simp: sent_as_iff intro: same_authed_call split: option.splits)

section \<open>The system\<close>

text \<open>
  The clients by number, each with the world its last request left; a request starts from
  the current world.  \<open>sys_tasks\<close> are the store writes that publishes left
  behind: the replica writes of flushes, and the requests that were on their way when a
  publish gave up.  \<open>sys_waiting\<close> has the reply a client waits for, with the instant at
  which the server gave it.  A client serves one FUSE request at a time, so it starts no
  other one while it waits.  A reply can also be lost: the server has done its part, and the
  client ends the request with an error that changes nothing in it.
\<close>

record system =
  sys_world :: cluster
  sys_clients :: "nat \<rightharpoonup> cluster fs"
  sys_tasks :: "(nat \<times> replica_task) list"
  sys_waiting :: "nat \<rightharpoonup> instant \<times> answer"

definition at_client :: "system \<Rightarrow> cluster fs \<Rightarrow> cluster fs" where
  "at_client S s = s\<lparr>fs_world := sys_world S\<rparr>"

definition client_done :: "nat \<Rightarrow> cluster fs \<Rightarrow> (nat \<times> replica_task) list \<Rightarrow> system \<Rightarrow> system" where
  "client_done c s ts S = S\<lparr>sys_world := fs_world s, sys_clients := (sys_clients S)(c \<mapsto> s), sys_tasks := ts\<rparr>"

fun fuse_tasks :: "fuse_env \<Rightarrow> 'w transport \<Rightarrow> fuse_req \<Rightarrow> 'w fs \<Rightarrow> replica_task list" where
  "fuse_tasks e T (RqFlush fh) s = fst (snd (fuse_flush T (fe_pick e) fh s))"
| "fuse_tasks e T (RqFsync fh) s = fst (snd (fuse_fsync T (fe_pick e) fh s))"
| "fuse_tasks e T (RqRelease fh) s = fst (snd (fuse_release T (fe_pick e) fh s))"
| "fuse_tasks e T rq s = []"

text \<open>
  Two parameters of a run: \<open>G\<close>, the renames that occur in it, and \<open>D\<close>, the longest time a
  reply is on its way.  The code sets no limit on either.
\<close>

inductive sys_step :: "(string \<Rightarrow> u64 \<Rightarrow> u64) \<Rightarrow> renames \<Rightarrow> duration \<Rightarrow> system \<Rightarrow> system \<Rightarrow> bool" for xxh3 G D where
  servers: "world_step xxh3 G (sys_world S) w \<Longrightarrow> sys_step xxh3 G D S (S\<lparr>sys_world := w\<rparr>)"
| mount: "unat bs < 2 ^ 63 \<Longrightarrow>
    sys_step xxh3 G D S (S\<lparr>sys_clients := (sys_clients S)(c \<mapsto> build_fs (sys_world S) ttl bs rf token),
      sys_waiting := (sys_waiting S)(c := None)\<rparr>)"
| request: "sys_clients S c = Some s \<Longrightarrow> sys_waiting S c = None \<Longrightarrow> req_guard G rq (cw_meta (sys_world S)) \<Longrightarrow>
    fuse_exec e (direct xxh3) rq (at_client S s) = Some s' \<Longrightarrow>
    sys_step xxh3 G D S (client_done c s' (sys_tasks S @ map (Pair c) (fuse_tasks e (direct xxh3) rq (at_client S s))) S)"
| send: "sys_clients S c = Some s \<Longrightarrow> sys_waiting S c = None \<Longrightarrow> req_guard G rq (cw_meta (sys_world S)) \<Longrightarrow>
    fuse_sent (direct xxh3) rq (at_client S s) = Some (ans, s') \<Longrightarrow>
    sys_step xxh3 G D S ((client_done c s' (sys_tasks S) S)\<lparr>sys_waiting :=
      (sys_waiting S)(c \<mapsto> (cw_instant (fs_world s'), ans))\<rparr>)"
| arrive: "sys_clients S c = Some s \<Longrightarrow> sys_waiting S c = Some (i, ans) \<Longrightarrow> cw_instant (sys_world S) \<le> i + D \<Longrightarrow>
    sys_step xxh3 G D S ((client_done c (fuse_finish (direct xxh3) ans (at_client S s)) (sys_tasks S) S)\<lparr>sys_waiting :=
      (sys_waiting S)(c := None)\<rparr>)"
| lost: "sys_step xxh3 G D S (S\<lparr>sys_waiting := (sys_waiting S)(c := None)\<rparr>)"
| replica: "sys_clients S c = Some s \<Longrightarrow> (c, rt) \<in> set (sys_tasks S) \<Longrightarrow>
    sys_step xxh3 G D S (client_done c (run_replica_task (direct xxh3) rt (at_client S s)) (remove1 (c, rt) (sys_tasks S)) S)"

definition sys_ok :: "system \<Rightarrow> bool" where
  "sys_ok S \<longleftrightarrow> world_ok (sys_world S) \<and> (\<forall>c s. sys_clients S c = Some s \<longrightarrow> client_inv s)
     \<and> (\<forall>(c, rt) \<in> set (sys_tasks S). vec_ok (rt_data rt))"

lemma at_client_ready: "sys_ok S \<Longrightarrow> sys_clients S c = Some s \<Longrightarrow> client_ready (at_client S s)"
  by (simp add: sys_ok_def at_client_def client_inv_def)

lemma at_client_world [simp]: "fs_world (at_client S s) = sys_world S"
  by (simp add: at_client_def)

lemma publish_tasks:
  assumes "publish T pick fh wait s = (r, ts, t)" and "rt \<in> set ts" and "fs_open_files s fh = Some f"
  shows "\<exists>blk \<in> set (of_dirty f). rt_data rt = snd blk"
proof -
  obtain a s1 where a: "publish_addrs T s = (a, s1)" by fastforce
  obtain b s2 where b: "publish_allocate T f s1 = (b, s2)" by fastforce
  obtain f1 where ok: "a = Ok ()" "b = Ok f1" "of_dirty f \<noteq> []"
    using assms a b by (cases a; cases b) (auto simp: publish_def split: if_splits)
  let ?f2 = "f1\<lparr>of_dirty := []\<rparr>"
  obtain c ts1 s4 where c: "write_all T wait (of_ino ?f2) (of_block_map ?f2) pick (of_dirty f1) (put_open_file fh ?f2 s2) = (c, ts1, s4)"
    by (metis prod_cases3)
  have "ts = ts1"
    using assms(1,3) a b c ok by (cases c) (auto simp: publish_def Let_def split: prod.splits)
  moreover have "of_dirty f1 = of_dirty f" using publish_allocate_dirty b ok(2) by metis
  ultimately show ?thesis
    using write_all_tasks_data [OF c, of "\<lambda>d. d \<in> snd ` set (of_dirty f)"] assms(2) by auto
qed

lemma publish_tasks_none: "fs_open_files s fh = None \<Longrightarrow> publish T pick fh wait s = (Err ENotFound, [], s)"
  by (simp add: publish_def)

lemma publish_requests_tasks:
  "fst (snd (fuse_flush T pick fh s)) = fst (snd (publish T pick fh PrimariesOnly s))"
  "fst (snd (fuse_fsync T pick fh s)) = fst (snd (publish T pick fh AllReplicas s))"
  "fst (snd (fuse_release T pick fh s)) = fst (snd (publish T pick fh PrimariesOnly s))"
  by (simp_all add: fuse_flush_def fuse_fsync_def fuse_release_def flush_path_def fsync_path_def
      split: prod.split result.split)

lemma publish_tasks_vec:
  assumes "client_inv s" and "rt \<in> set (fst (snd (publish T (fe_pick e) fh wait s)))"
  shows "vec_ok (rt_data rt)"
proof -
  obtain r ts t where p: "publish T (fe_pick e) fh wait s = (r, ts, t)" by (metis prod_cases3)
  show ?thesis
  proof (cases "fs_open_files s fh")
    case None
    then show ?thesis using assms(2) by (simp add: publish_tasks_none)
  next
    case (Some f)
    obtain blk where "blk \<in> set (of_dirty f)" "rt_data rt = snd blk"
      using publish_tasks [OF p _ Some, of rt] assms(2) p by auto
    then show ?thesis using file_ok_set [OF client_inv_file [OF assms(1) Some]] by (simp add: buf_ok_def)
  qed
qed

lemma fuse_tasks_vec:
  "client_inv s \<Longrightarrow> rt \<in> set (fuse_tasks e T rq s) \<Longrightarrow> vec_ok (rt_data rt)"
  using publish_tasks_vec [of s rt T] by (cases rq) (auto simp: publish_requests_tasks)

lemma replica_inv:
  assumes "client_ready s" and "vec_ok (rt_data rt)"
  shows "client_ready (run_replica_task (direct xxh3) rt s)"
proof -
  have "client_inv (run_replica_task (direct xxh3) rt s)"
    using client_inv_same [OF csf.any.run_replica_task_frame [OF TrueI]] assms(1) by blast
  then show ?thesis
    using world_ok_steps [OF dw.run_replica_task_R [OF assms(2)], of s xxh3] assms by simp
qed

lemma sys_ok_done:
  "sys_ok S \<Longrightarrow> client_ready s \<Longrightarrow> (\<And>c rt. (c, rt) \<in> set ts \<Longrightarrow> vec_ok (rt_data rt)) \<Longrightarrow> sys_ok (client_done c s ts S)"
  by (auto simp: sys_ok_def client_done_def)

lemma sys_ok_waiting [simp]: "sys_ok (S\<lparr>sys_waiting := W\<rparr>) = sys_ok S"
  by (simp add: sys_ok_def)

lemma sent_ready:
  assumes "fuse_sent (direct xxh3) rq s = Some (ans, t)" and "req_guard G rq (cw_meta (fs_world s))" and "client_ready s"
  shows "client_ready t"
  using request_inv [OF sent_then_finished [OF assms(1)] assms(2,3)] client_inv_same [OF sent_same [OF assms(1)]] assms(3)
  by simp

lemma sys_ok_step: "sys_step xxh3 G D S S' \<Longrightarrow> sys_ok S \<Longrightarrow> sys_ok S'"
proof (induction rule: sys_step.induct)
  case (servers S w)
  then show ?case by (auto simp: sys_ok_def intro: world_ok_step)
next
  case (mount bs S c ttl rf token)
  then show ?case by (auto simp: sys_ok_def client_inv_def build_fs_def)
next
  case (request S c s rq e s')
  note ready = at_client_ready [OF request.prems request.hyps(1)]
  have "client_ready s'" using request_inv [OF request.hyps(4)] request.hyps ready by simp
  moreover have "vec_ok (rt_data rt)" if "rt \<in> set (fuse_tasks e (direct xxh3) rq (at_client S s))" for rt
    using fuse_tasks_vec [OF _ that] ready by simp
  ultimately show ?case
    using request.prems by (intro sys_ok_done) (auto simp: sys_ok_def)
next
  case (send S c s rq ans s')
  have "client_ready s'"
    using sent_ready [OF send.hyps(4)] send.hyps at_client_ready [OF send.prems send.hyps(1)] by simp
  then have "sys_ok (client_done c s' (sys_tasks S) S)"
    using send.prems by (intro sys_ok_done) (auto simp: sys_ok_def)
  then show ?case by simp
next
  case (arrive S c s i ans)
  have "client_ready (fuse_finish (direct xxh3) ans (at_client S s))"
    using at_client_ready [OF arrive.prems arrive.hyps(1)] by (simp add: finish_inv)
  then have "sys_ok (client_done c (fuse_finish (direct xxh3) ans (at_client S s)) (sys_tasks S) S)"
    using arrive.prems by (intro sys_ok_done) (auto simp: sys_ok_def)
  then show ?case by simp
next
  case (lost S c)
  then show ?case by simp
next
  case (replica S c s rt)
  have "vec_ok (rt_data rt)" using replica by (auto simp: sys_ok_def)
  then have "client_ready (run_replica_task (direct xxh3) rt (at_client S s))"
    by (rule replica_inv [OF at_client_ready [OF replica.prems replica.hyps(1)]])
  then show ?case
    using replica.prems by (intro sys_ok_done) (auto simp: sys_ok_def dest: notin_set_remove1)
qed

lemma sys_ok_steps: "(sys_step xxh3 G D)\<^sup>*\<^sup>* S S' \<Longrightarrow> sys_ok S \<Longrightarrow> sys_ok S'"
  by (induction rule: rtranclp_induct) (auto intro: sys_ok_step)

end
