(* ===== verification/Sessions.thy ===== *)
theory Sessions
  imports Client_Fuse Publish_Props
begin

text \<open>
  Sessions of several clients on one cluster: what a client that opens a file reads after
  another client has published it (close-to-open consistency), what survives the loss of
  stores after an fsync, and what goes wrong when a handle is published twice or with a
  stale generation.
\<close>

section \<open>Reading from a cluster\<close>

text \<open>The address of the first node of a placement that is up, and what it holds.\<close>

fun first_up :: "cluster \<Rightarrow> (node_id, string) hmap \<Rightarrow> node_id list \<Rightarrow> string option" where
  "first_up w M [] = None"
| "first_up w M (n # ns) =
     (case hm_get M n of
        None \<Rightarrow> first_up w M ns
      | Some a \<Rightarrow> if cw_stores w a = None then first_up w M ns else Some a)"

definition holds :: "cluster \<Rightarrow> (node_id, string) hmap \<Rightarrow> inode_id \<Rightarrow> u64 \<Rightarrow> block_idx \<Rightarrow> block_placement \<Rightarrow> bytes \<Rightarrow> bool" where
  "holds w M ino bs idx p b \<longleftrightarrow> (\<exists>a. first_up w M (primary p # replicas p) = Some a
     \<and> (case cl_rd w (a, write_key ino idx) of Some b' \<Rightarrow> b' = b | None \<Rightarrow> b = replicate (unat bs) 0))"

lemma direct_read:
  assumes "cw_token w = token"
  shows "t_read_block (direct xxh3) a [''cluster-token'' \<mapsto> token] (block_req ino idx) w =
    ((case cw_stores w a of
        None \<Rightarrow> Inl (st_unavailable ''tcp connect error'')
      | Some st \<Rightarrow> (case store_rd st (write_key ino idx) of
          None \<Rightarrow> Inl (st_not_found ''block not found'')
        | Some b \<Rightarrow> Inr \<lparr> rbr_data = b, rbr_len = of_nat (length b) \<rparr>)), w)"
proof (cases "cw_stores w a")
  case None
  then show ?thesis by (simp add: direct_simps to_store_def)
next
  case (Some st)
  have "w\<lparr>cw_stores := (cw_stores w)(a \<mapsto> st)\<rparr> = w" using Some by (simp add: fun_upd_idem)
  then show ?thesis
    using Some by (simp add: direct_simps to_store_token [OF Some assms] store_read_block_def block_req_def store_rd_eq
        write_key_def rpc_of_def split: option.split)
qed

lemma first_up_answers:
  assumes "first_up w M ns = Some a" and tok: "cw_token w = token"
    and "case cl_rd w (a, write_key ino idx) of Some b \<Rightarrow> b = base idx | None \<Rightarrow> base idx = replicate (unat bs) 0"
  shows "some_answers (direct xxh3) (\<lambda>w'. w' = w) M [''cluster-token'' \<mapsto> token] bs ino base idx ns"
  using assms(1)
proof (induction ns)
  case (Cons n ns)
  show ?case
  proof (cases "\<exists>c. hm_get M n = Some c \<and> cw_stores w c \<noteq> None")
    case True
    then obtain st where a: "hm_get M n = Some a" "cw_stores w a = Some st"
      using Cons.prems by (auto split: if_splits)
    have "answers (direct xxh3) (\<lambda>w'. w' = w) M [''cluster-token'' \<mapsto> token] bs ino base idx n"
      unfolding answers_def using a assms(3) direct_read [OF tok, of xxh3 a ino idx]
      by (intro exI [of _ a]) (auto simp: direct_simps(2,3) cl_rd_def split: option.splits)
    then show ?thesis unfolding some_answers.simps by (rule disjI1)
  next
    case False
    then have "first_up w M ns = Some a" using Cons.prems by (auto split: option.splits if_splits)
    moreover have "fails (direct xxh3) (\<lambda>w'. w' = w) M [''cluster-token'' \<mapsto> token] ino idx n"
      unfolding fails_def using False direct_read [OF tok, of xxh3 _ ino idx] by (auto simp: direct_simps(2,3))
    ultimately show ?thesis unfolding some_answers.simps using Cons.IH by blast
  qed
qed simp

lemma list_nodes_direct:
  assumes "cw_token w = token"
  shows "t_list_nodes (direct xxh3) [''cluster-token'' \<mapsto> token] w
    = (Inr (map node_info_to_proto (filter (\<lambda>n. ni_status n = Up) (map snd (nodes (cw_meta w))))), w)"
  using assms by (simp add: direct_simps to_meta_token meta_list_nodes_def rpc_of_def)

text \<open>
  A client whose view of the cluster is not outdated: no address table yet or the current
  one, no connection to another address, no block of this generation in its cache.
\<close>

definition fresh_for :: "inode_id \<Rightarrow> generation \<Rightarrow> cluster fs \<Rightarrow> bool" where
  "fresh_for ino g r \<longleftrightarrow> (let M = live_addrs (cw_meta (fs_world r)) in
     fs_token r = cw_token (fs_world r) \<and> fs_addrs r \<in> {[], M}
     \<and> (\<forall>nid c. fs_clients r nid = Some c \<longrightarrow> hm_get M nid = Some c)
     \<and> (\<forall>idx. fs_block_cache r (ino, g, idx) = None))"

lemma reader_fetch_ok:
  assumes fresh: "fresh_for (of_ino f) (of_generation f) r" and w: "fs_world r = w" and M: "M = live_addrs (cw_meta w)"
    and held: "\<forall>idx p. bt_get (of_block_map f) idx = Some p \<longrightarrow> holds w M (of_ino f) (fs_block_size r) idx p (base idx)"
  shows "fetch_ok (direct xxh3) (\<lambda>w'. w' = w) M (cw_token w) (fs_block_size r) base f r"
proof -
  let ?md = "[''cluster-token'' \<mapsto> cw_token w]"
  have "client_ok (direct xxh3) (\<lambda>w'. w' = w) M (fs_block_size r) (cw_token w) (of_ino f) (of_generation f) base r"
    using fresh w M by (simp add: client_ok_def fresh_for_def Let_def)
  moreover have "addrs_ok (direct xxh3) (\<lambda>w'. w' = w) M ?md r"
    using fresh w M by (auto simp: addrs_ok_def fresh_for_def Let_def list_nodes_direct live_addrs_def)
  moreover have "some_answers (direct xxh3) (\<lambda>w'. w' = w) M ?md (fs_block_size r) (of_ino f) base idx (primary p # replicas p)"
    if "bt_get (of_block_map f) idx = Some p" for idx p
    using held [rule_format, OF that] by (auto simp: holds_def simp del: first_up.simps some_answers.simps intro!: first_up_answers)
  ultimately show ?thesis
    unfolding fetch_ok_def by (intro exI [of _ "cw_token w"]) (simp add: direct_simps(1))
qed

section \<open>Opening and reading\<close>

lemma meta_open_file:
  assumes "inodes m (InodeId ino) = Some n" and "i_kind n = File"
  shows "\<exists>m' h. meta_open \<lparr> op_ino = ino, op_flags = flags \<rparr> m = (m', Ok \<lparr> opr_attr = Some (build_attr n), opr_fh = next_fh m,
      opr_block_map = map (\<lambda>(idx, p). placement_to_block_loc idx p) (i_blocks n) \<rparr>)
    \<and> m' = m\<lparr>next_fh := next_fh m + 1, open_handles := (open_handles m)(next_fh m \<mapsto> h)\<rparr> \<and> oh_ino h = InodeId ino"
  using assms by (simp add: meta_open_def open_read_def open_register_def alloc_fh_def Let_def) (rule exI, rule conjI, rule refl, simp)

lemma fold_placements:
  "bt_wf b \<Longrightarrow> bt_get (fold insert_loc (map (\<lambda>(idx, p). placement_to_block_loc idx p) b) m) idx =
     (case bt_get b idx of Some p \<Rightarrow> Some p | None \<Rightarrow> bt_get m idx)"
proof (induction b arbitrary: m)
  case (Cons e b)
  obtain i p where e: "e = (i, p)" by (cases e)
  have "bt_get b i = None"
    using Cons.prems e by (auto simp: bt_get_def map_of_eq_None_iff)
  moreover have "bt_get ((i, p) # b) idx = (if idx = i then Some p else bt_get b idx)"
    by (auto simp: bt_get_def)
  ultimately show ?case
    using Cons e by (auto simp: insert_loc_placement split: option.split)
qed simp

lemma at_fields: "at_generation (build_attr n) = raw_gen (i_generation n)" "at_size (build_attr n) = i_size n"
  by (simp_all add: build_attr_def Let_def split: prod.split)

lemma fuse_open_file:
  assumes tok: "fs_token r = cw_token (fs_world r)" and m: "m = cw_meta (fs_world r)"
    and n: "inodes m (InodeId ino) = Some n" "i_kind n = File"
  shows "\<exists>h f. fuse_open (direct xxh3) ino flags r = (Ok (next_fh m), put_open_file (next_fh m) f
      (r\<lparr>fs_world := (fs_world r)\<lparr>cw_meta := m\<lparr>next_fh := next_fh m + 1, open_handles := (open_handles m)(next_fh m \<mapsto> h)\<rparr>\<rparr>\<rparr>))
    \<and> oh_ino h = InodeId ino
    \<and> of_ino f = InodeId ino \<and> of_generation f = i_generation n \<and> of_dirty f = [] \<and> of_size_hint f = i_size n
    \<and> (bt_wf (i_blocks n) \<longrightarrow> maps_agree f n)"
proof -
  let ?rq = "\<lparr> op_ino = ino, op_flags = flags \<rparr>"
  obtain h where o: "meta_open ?rq m = (m\<lparr>next_fh := next_fh m + 1, open_handles := (open_handles m)(next_fh m \<mapsto> h)\<rparr>,
      Ok \<lparr> opr_attr = Some (build_attr n), opr_fh = next_fh m,
        opr_block_map = map (\<lambda>(idx, p). placement_to_block_loc idx p) (i_blocks n) \<rparr>)" and h: "oh_ino h = InodeId ino"
    using meta_open_file [OF n, of flags] by blast
  let ?f = "snd (build_open_file (InodeId ino) (next_fh m) (build_attr n) (map (\<lambda>(idx, p). placement_to_block_loc idx p) (i_blocks n)) flags)"
  have gen: "Generation (raw_gen g) = g" for g by (cases g) simp
  have "of_ino ?f = InodeId ino \<and> of_generation ?f = i_generation n \<and> of_dirty ?f = [] \<and> of_size_hint ?f = i_size n"
    by (simp add: build_open_file_def at_fields gen)
  moreover have "bt_wf (i_blocks n) \<longrightarrow> maps_agree ?f n"
    by (auto simp: maps_agree_def build_open_file_def fold_placements split: option.split)
  moreover have "fuse_open (direct xxh3) ino flags r = (Ok (next_fh m), put_open_file (next_fh m) ?f
      (r\<lparr>fs_world := (fs_world r)\<lparr>cw_meta := m\<lparr>next_fh := next_fh m + 1, open_handles := (open_handles m)(next_fh m \<mapsto> h)\<rparr>\<rparr>\<rparr>))"
    using authed_call_meta_eq [of r "\<lambda>md. t_open (direct xxh3) md ?rq" "meta_open ?rq" xxh3, OF tok] o m
    by (simp add: fuse_open_def fuse_call_def direct_simps rpc_of_def build_open_file_def)
  ultimately show ?thesis using h by blast
qed

lemma first_up_cong:
  assumes "dom (cw_stores w') = dom (cw_stores w)"
  shows "first_up w' M ns = first_up w M ns"
proof -
  have "cw_stores w' a = None \<longleftrightarrow> cw_stores w a = None" for a using assms by (metis domIff)
  then show ?thesis by (induction ns) (simp_all split: option.split)
qed

lemma holds_cong: "cw_stores w' = cw_stores w \<Longrightarrow> holds w' M ino bs idx p b = holds w M ino bs idx p b"
  by (simp add: holds_def cl_rd_def first_up_cong [of w' w] del: first_up.simps)

lemma first_up_iff:
  "(\<exists>a. first_up w M ns = Some a) \<longleftrightarrow> (\<exists>n \<in> set ns. \<exists>a. hm_get M n = Some a \<and> cw_stores w a \<noteq> None)"
  by (induction ns) (auto split: option.split)

lemma first_up_SomeD:
  "first_up w M ns = Some a \<Longrightarrow> cw_stores w a \<noteq> None \<and> (\<exists>n \<in> set ns. hm_get M n = Some a)"
  by (induction ns) (auto split: option.splits if_splits)

text \<open>The content of a file as its placements and blocks define it.\<close>

definition disk_view :: "nat \<Rightarrow> (block_idx \<Rightarrow> bytes) \<Rightarrow> (block_idx, block_placement) btree \<Rightarrow> nat \<Rightarrow> u8" where
  "disk_view bs base bm pos = (let idx = BlockIdx (of_nat (pos div bs)) in
     byte_of (if bt_contains bm idx then base idx else []) (pos mod bs))"

lemma open_session:
  assumes w: "fs_world r = w" and m: "m = cw_meta w" and n: "inodes m (InodeId ino) = Some n" "i_kind n = File"
    and wf: "bt_wf (i_blocks n)" and fresh: "fresh_for (InodeId ino) (i_generation n) r"
    and held: "\<forall>idx p. bt_get (i_blocks n) idx = Some p \<longrightarrow> holds w (live_addrs m) (InodeId ino) (fs_block_size r) idx p (base idx)"
  shows "\<exists>fh r1 f h. fuse_open (direct xxh3) ino flags r = (Ok fh, r1) \<and> fs_open_files r1 fh = Some f
    \<and> of_ino f = InodeId ino \<and> of_generation f = i_generation n \<and> of_dirty f = [] \<and> of_size_hint f = i_size n \<and> maps_agree f n
    \<and> fs_world r1 = w\<lparr>cw_meta := m\<lparr>next_fh := next_fh m + 1, open_handles := (open_handles m)(fh \<mapsto> h)\<rparr>\<rparr> \<and> oh_ino h = InodeId ino
    \<and> fetch_ok (direct xxh3) (\<lambda>w'. w' = fs_world r1) (live_addrs m) (cw_token w) (fs_block_size r) base f r1"
proof -
  have tok: "fs_token r = cw_token (fs_world r)" using fresh by (simp add: fresh_for_def Let_def)
  obtain h f where o: "fuse_open (direct xxh3) ino flags r = (Ok (next_fh m), put_open_file (next_fh m) f
      (r\<lparr>fs_world := w\<lparr>cw_meta := m\<lparr>next_fh := next_fh m + 1, open_handles := (open_handles m)(next_fh m \<mapsto> h)\<rparr>\<rparr>\<rparr>))"
    and f: "of_ino f = InodeId ino" "of_generation f = i_generation n" "of_dirty f = []" "of_size_hint f = i_size n"
    and agree: "maps_agree f n" and h: "oh_ino h = InodeId ino"
    using fuse_open_file [OF tok _ n, of xxh3 flags] w m wf by blast
  define w1 where "w1 = w\<lparr>cw_meta := m\<lparr>next_fh := next_fh m + 1, open_handles := (open_handles m)(next_fh m \<mapsto> h)\<rparr>\<rparr>"
  define r1 where "r1 = put_open_file (next_fh m) f (r\<lparr>fs_world := w1\<rparr>)"
  have M: "live_addrs (cw_meta w1) = live_addrs m" and st: "cw_stores w1 = cw_stores w" "cw_token w1 = cw_token w"
    by (simp_all add: w1_def live_addrs_def)
  have r1: "fs_world r1 = w1" "fs_block_size r1 = fs_block_size r" "fs_open_files r1 (next_fh m) = Some f"
    by (simp_all add: r1_def put_open_file_def)
  have "fresh_for (of_ino f) (of_generation f) r1"
    using fresh f M st w m by (simp add: fresh_for_def Let_def r1_def put_open_file_def)
  moreover have "\<forall>idx p. bt_get (of_block_map f) idx = Some p \<longrightarrow>
      holds w1 (live_addrs m) (of_ino f) (fs_block_size r1) idx p (base idx)"
    using held agree f by (simp add: maps_agree_def r1 holds_cong [OF st(1)])
  ultimately have ok: "fetch_ok (direct xxh3) (\<lambda>w'. w' = w1) (live_addrs m) (cw_token w) (fs_block_size r) base f r1"
    using reader_fetch_ok [OF _ r1(1) M [symmetric], of f base xxh3] st(2) r1(2) by simp
  have "fuse_open (direct xxh3) ino flags r = (Ok (next_fh m), r1)" using o by (simp add: r1_def w1_def)
  then show ?thesis
    using r1 f agree h ok by (intro exI [of _ "next_fh m"] exI [of _ r1] exI [of _ f] exI [of _ h]) (simp add: w1_def)
qed

lemma open_view:
  assumes "of_dirty f = []" and "maps_agree f n"
  shows "file_view b base f = disk_view b base (i_blocks n)"
  using assms by (simp add: fun_eq_iff file_view_def disk_view_def block_view_def Let_def maps_agree_def bt_contains_def)

lemma reader_session:
  assumes w: "fs_world r = w" and m: "m = cw_meta w" and n: "inodes m (InodeId ino) = Some n" "i_kind n = File"
    and wf: "bt_wf (i_blocks n)" and fresh: "fresh_for (InodeId ino) (i_generation n) r"
    and held: "\<forall>idx p. bt_get (i_blocks n) idx = Some p \<longrightarrow> holds w (live_addrs m) (InodeId ino) (fs_block_size r) idx p (base idx)"
    and bs: "0 < unat (fs_block_size r)" and room: "unat off + unat sz + unat (fs_block_size r) < 2 ^ 64"
  shows "\<exists>fh r1 r2 f. fuse_open (direct xxh3) ino flags r = (Ok fh, r1) \<and> fs_open_files r1 fh = Some f \<and> of_size_hint f = i_size n
    \<and> fuse_read (direct xxh3) fh off sz r1 = Some (Ok (map (disk_view (unat (fs_block_size r)) base (i_blocks n))
         [unat off..<unat off + unat sz]), r2)"
proof -
  obtain fh r1 f where o: "fuse_open (direct xxh3) ino flags r = (Ok fh, r1)" "fs_open_files r1 fh = Some f"
    and f: "of_dirty f = []" "of_size_hint f = i_size n" "maps_agree f n"
    and ok: "fetch_ok (direct xxh3) (\<lambda>w'. w' = fs_world r1) (live_addrs m) (cw_token w) (fs_block_size r) base f r1"
    using open_session [OF w m n wf fresh held, of xxh3 flags] by blast
  obtain r2 where "read_file (direct xxh3) off sz f r1
      = Some (Ok (map (file_view (unat (fs_block_size r)) base f) [unat off..<unat off + unat sz]), r2)"
    using read_file_view [OF ok bs room] by blast
  then show ?thesis
    using o f(2) unfolding open_view [OF f(1,3)] by (auto simp: fuse_read_def errno_of_def)
qed

section \<open>Close-to-open consistency\<close>

text \<open>What the blocks of a file are after a publish: the dirty buffers, and the old blocks elsewhere.\<close>

definition published :: "(block_idx \<Rightarrow> bytes) \<Rightarrow> open_file \<Rightarrow> block_idx \<Rightarrow> bytes" where
  "published base f idx = (case bt_get (of_dirty f) idx of Some b \<Rightarrow> b | None \<Rightarrow> base idx)"

lemma published_view:
  assumes "\<And>idx. bt_get b idx \<noteq> None \<longleftrightarrow> bt_get (of_block_map f) idx \<noteq> None \<or> bt_get (of_dirty f) idx \<noteq> None"
  shows "disk_view bs (published base f) b = file_view bs base f"
proof
  fix pos
  let ?idx = "BlockIdx (of_nat (pos div bs))"
  show "disk_view bs (published base f) b pos = file_view bs base f pos"
    using assms [of ?idx]
    by (auto simp: disk_view_def file_view_def block_view_def published_def Let_def bt_contains_def split: option.split)
qed

text \<open>
  The situation of both theorems below: a client has published an open file, another one
  opens it.  \<open>published_ok\<close> collects what is assumed of the writer; its first part is
  what the client's own code establishes when it opens a file.
\<close>

definition publish_ready :: "cluster fs \<Rightarrow> u64 \<Rightarrow> open_file \<Rightarrow> inode \<Rightarrow> bool" where
  "publish_ready s fh f n \<longleftrightarrow> (let m = cw_meta (fs_world s) in
     fs_open_files s fh = Some f \<and> of_dirty f \<noteq> [] \<and> bt_wf (of_dirty f) \<and> fs_token s = cw_token (fs_world s)
     \<and> (\<exists>h. open_handles m fh = Some h \<and> oh_ino h = of_ino f) \<and> inodes m (of_ino f) = Some n \<and> i_kind n = File
     \<and> bt_wf (i_blocks n) \<and> maps_agree f n
     \<and> (\<forall>nid c. fs_clients s nid = Some c \<longrightarrow> hm_get (live_addrs m) nid = Some c))"

lemma publish_readyD:
  assumes ready: "publish_ready s fh f n" and pub: "publish (direct xxh3) pick fh wait s = (Ok (), ts, s')"
    and M: "M = live_addrs (cw_meta (fs_world s))"
  shows "\<exists>n'. inodes (cw_meta (fs_world s')) (of_ino f) = Some n' \<and> i_kind n' = File \<and> bt_wf (i_blocks n')
    \<and> i_generation n' = bump (of_generation f) \<and> i_size n' = of_size_hint f \<and> live_addrs (cw_meta (fs_world s')) = M
    \<and> (\<forall>idx. bt_get (i_blocks n') idx \<noteq> None \<longleftrightarrow> bt_get (of_block_map f) idx \<noteq> None \<or> bt_get (of_dirty f) idx \<noteq> None)
    \<and> (\<forall>idx p. bt_get (i_blocks n) idx = Some p \<longrightarrow> bt_get (i_blocks n') idx = Some p)
    \<and> (\<forall>idx buf p. bt_get (of_dirty f) idx = Some buf \<longrightarrow> bt_get (i_blocks n') idx = Some p \<longrightarrow>
         (\<forall>nid \<in> set (synced wait p). \<exists>a. hm_get M nid = Some a \<and> cl_rd (fs_world s') (a, write_key (of_ino f) idx) = Some buf))
    \<and> (\<forall>a idx. bt_get (of_dirty f) idx = None \<longrightarrow>
         cl_rd (fs_world s') (a, write_key (of_ino f) idx) = cl_rd (fs_world s) (a, write_key (of_ino f) idx))
    \<and> dom (cw_stores (fs_world s')) = dom (cw_stores (fs_world s)) \<and> cw_token (fs_world s') = cw_token (fs_world s)"
proof -
  let ?m = "cw_meta (fs_world s)"
  have a: "fs_open_files s fh = Some f" "of_dirty f \<noteq> []" "bt_wf (of_dirty f)" "fs_token s = cw_token (fs_world s)"
    "inodes ?m (of_ino f) = Some n" "i_kind n = File" "bt_wf (i_blocks n)" "maps_agree f n"
    "\<forall>nid c. fs_clients s nid = Some c \<longrightarrow> hm_get (live_addrs ?m) nid = Some c"
    using ready unfolding publish_ready_def Let_def by simp_all
  obtain h where h: "open_handles ?m fh = Some h" "oh_ino h = of_ino f"
    using ready unfolding publish_ready_def Let_def by blast
  have mem: "bt_get (of_dirty f) idx = Some buf \<longleftrightarrow> (idx, buf) \<in> set (of_dirty f)" for idx buf
    by (rule bt_get_iff [OF a(3)])
  have key: "write_key (of_ino f) idx \<notin> write_key (of_ino f) ` fst ` set (of_dirty f)" if "bt_get (of_dirty f) idx = None" for idx
    using that by (force simp: bt_get_def map_of_eq_None_iff)
  have dom: "bt_get (of_dirty f) idx \<noteq> None \<longleftrightarrow> idx \<in> fst ` set (of_dirty f)" for idx
    by (simp add: bt_get_def map_of_eq_None_iff)
  from publish_direct [OF pub a(1,2,3) a(4) refl h a(5,8,9)] obtain n' where
    inos: "inodes (cw_meta (fs_world s')) = (inodes ?m)(of_ino f \<mapsto> n')" and g: "i_generation n' = bump (of_generation f)"
      "i_size n' = of_size_hint f" "i_kind n' = i_kind n"
    and dirty: "\<forall>(idx, buf) \<in> set (of_dirty f). \<exists>p. bt_get (i_blocks n') idx = Some p \<and> (\<forall>nid \<in> set (synced wait p).
         \<exists>a. hm_get (live_addrs ?m) nid = Some a \<and> cl_rd (fs_world s') (a, write_key (of_ino f) idx) = Some buf)"
    and other: "\<forall>a k. k \<notin> write_key (of_ino f) ` fst ` set (of_dirty f) \<longrightarrow> cl_rd (fs_world s') (a, k) = cl_rd (fs_world s) (a, k)"
    and old: "\<forall>idx p. bt_get (i_blocks n) idx = Some p \<longrightarrow> bt_get (i_blocks n') idx = Some p"
    and nds: "nodes (cw_meta (fs_world s')) = nodes ?m" and stores: "dom (cw_stores (fs_world s')) = dom (cw_stores (fs_world s))"
    and tok: "cw_token (fs_world s') = cw_token (fs_world s)"
    and wf: "bt_wf (i_blocks n) \<longrightarrow> bt_wf (i_blocks n')"
    and new: "\<forall>idx. bt_get (i_blocks n') idx \<noteq> None \<longrightarrow> bt_get (of_block_map f) idx \<noteq> None \<or> idx \<in> fst ` set (of_dirty f)"
    by (elim exE conjE)
  have placed: "bt_get (i_blocks n') idx \<noteq> None \<longleftrightarrow> bt_get (of_block_map f) idx \<noteq> None \<or> bt_get (of_dirty f) idx \<noteq> None" for idx
  proof
    assume "bt_get (of_block_map f) idx \<noteq> None \<or> bt_get (of_dirty f) idx \<noteq> None"
    then show "bt_get (i_blocks n') idx \<noteq> None"
    proof
      assume "bt_get (of_block_map f) idx \<noteq> None"
      then show ?thesis using a(8) old by (auto simp: maps_agree_def)
    next
      assume "bt_get (of_dirty f) idx \<noteq> None"
      then show ?thesis using dirty by (auto simp: mem)
    qed
  qed (use new dom in blast)
  have M': "live_addrs (cw_meta (fs_world s')) = M" by (simp add: live_addrs_def nds M)
  have "\<forall>nid \<in> set (synced wait p). \<exists>a. hm_get M nid = Some a \<and> cl_rd (fs_world s') (a, write_key (of_ino f) idx) = Some buf"
    if "bt_get (of_dirty f) idx = Some buf" "bt_get (i_blocks n') idx = Some p" for idx buf p
    using dirty that M by (auto simp: mem)
  then show ?thesis
    using inos g a(6,7) wf M' placed old other key stores tok by (intro exI [of _ n']) (simp del: split_paired_All)
qed

lemma holds_first:
  assumes "hm_get M (primary p) = Some a" and "cl_rd w (a, write_key ino idx) = Some b"
  shows "holds w M ino bs idx p b"
  using assms by (auto simp: holds_def cl_rd_def split: option.splits)

lemma holds_rd_cong:
  assumes "dom (cw_stores w') = dom (cw_stores w)" and "\<And>a. cl_rd w' (a, write_key ino idx) = cl_rd w (a, write_key ino idx)"
  shows "holds w' M ino bs idx p b = holds w M ino bs idx p b"
  using assms by (simp add: holds_def first_up_cong [OF assms(1)] del: first_up.simps)

text \<open>What the first reachable node holds of a block after a publish.\<close>

lemma published_holds:
  assumes ready: "publish_ready s fh f n" and pub: "publish (direct xxh3) pick fh wait s = (Ok (), ts, s')"
    and M: "M = live_addrs (cw_meta (fs_world s))"
    and n': "inodes (cw_meta (fs_world s')) (of_ino f) = Some n'" and p: "bt_get (i_blocks n') idx = Some p"
    and held: "bt_get (of_dirty f) idx = None \<Longrightarrow> bt_get (of_block_map f) idx = Some p \<Longrightarrow>
      holds (fs_world s) M (of_ino f) bs idx p (base idx)"
  shows "holds (fs_world s') M (of_ino f) bs idx p (published base f idx)"
proof -
  have agree: "maps_agree f n" using ready by (simp add: publish_ready_def Let_def)
  have placed: "\<And>idx. bt_get (i_blocks n') idx \<noteq> None \<longleftrightarrow> bt_get (of_block_map f) idx \<noteq> None \<or> bt_get (of_dirty f) idx \<noteq> None"
    and old: "\<And>idx p. bt_get (i_blocks n) idx = Some p \<Longrightarrow> bt_get (i_blocks n') idx = Some p"
    and dirty: "\<And>idx buf p. bt_get (of_dirty f) idx = Some buf \<Longrightarrow> bt_get (i_blocks n') idx = Some p \<Longrightarrow>
         \<forall>nid \<in> set (synced wait p). \<exists>a. hm_get M nid = Some a \<and> cl_rd (fs_world s') (a, write_key (of_ino f) idx) = Some buf"
    and clean: "\<And>a idx. bt_get (of_dirty f) idx = None \<Longrightarrow>
         cl_rd (fs_world s') (a, write_key (of_ino f) idx) = cl_rd (fs_world s) (a, write_key (of_ino f) idx)"
    and stores: "dom (cw_stores (fs_world s')) = dom (cw_stores (fs_world s))"
    using publish_readyD [OF ready pub M] n' by auto
  show ?thesis
  proof (cases "bt_get (of_dirty f) idx")
    case None
    then obtain q where q: "bt_get (of_block_map f) idx = Some q" using placed p by blast
    then have "p = q" using agree old p by (simp add: maps_agree_def)
    then show ?thesis
      using held None q holds_rd_cong [OF stores clean [OF None]] by (simp add: published_def)
  next
    case (Some buf)
    then obtain a where "hm_get M (primary p) = Some a" "cl_rd (fs_world s') (a, write_key (of_ino f) idx) = Some buf"
      using dirty [OF Some p] by (auto simp: synced_def split: wait_policy.splits)
    then show ?thesis using Some holds_first by (simp add: published_def)
  qed
qed

text \<open>A reader in a world with the metadata of the publish and the blocks on reachable stores.\<close>

lemma published_read:
  assumes ready: "publish_ready s fh f n" and pub: "publish (direct xxh3) pick fh wait s = (Ok (), ts, s')"
    and n': "inodes (cw_meta (fs_world s')) (of_ino f) = Some n'" and w: "fs_world r = w" "cw_meta w = cw_meta (fs_world s')"
    and held: "\<forall>idx p. bt_get (i_blocks n') idx = Some p \<longrightarrow>
      holds w (live_addrs (cw_meta (fs_world s))) (of_ino f) bs idx p (published base f idx)"
    and fresh: "fresh_for (of_ino f) (bump (of_generation f)) r" and bs: "fs_block_size r = bs"
    and pos: "0 < unat bs" "unat off + unat sz + unat bs < 2 ^ 64"
  shows "\<exists>fh' r1 r2 f'. fuse_open (direct xxh3) (raw (of_ino f)) flags r = (Ok fh', r1)
    \<and> fs_open_files r1 fh' = Some f' \<and> of_size_hint f' = of_size_hint f
    \<and> fuse_read (direct xxh3) fh' off sz r1
      = Some (Ok (map (file_view (unat bs) base f) [unat off..<unat off + unat sz]), r2)"
proof -
  have ino: "InodeId (raw (of_ino f)) = of_ino f" by (cases "of_ino f") simp
  have facts: "i_kind n' = File" "bt_wf (i_blocks n')" "i_generation n' = bump (of_generation f)" "i_size n' = of_size_hint f"
      "live_addrs (cw_meta (fs_world s')) = live_addrs (cw_meta (fs_world s))"
    and placed: "\<And>idx. bt_get (i_blocks n') idx \<noteq> None \<longleftrightarrow> bt_get (of_block_map f) idx \<noteq> None \<or> bt_get (of_dirty f) idx \<noteq> None"
    using publish_readyD [OF ready pub refl] n' by auto
  have "\<exists>fh' r1 r2 f'. fuse_open (direct xxh3) (raw (of_ino f)) flags r = (Ok fh', r1)
    \<and> fs_open_files r1 fh' = Some f' \<and> of_size_hint f' = i_size n'
    \<and> fuse_read (direct xxh3) fh' off sz r1
      = Some (Ok (map (disk_view (unat (fs_block_size r)) (published base f) (i_blocks n')) [unat off..<unat off + unat sz]), r2)"
    by (rule reader_session [OF w(1) refl]) (use n' facts held fresh bs pos w(2) in \<open>simp_all add: ino\<close>)
  then show ?thesis
    unfolding published_view [OF placed] bs facts(4) by blast
qed

lemma published_read_back:
  assumes "publish_ready s fh f n" and "publish (direct xxh3) pick fh wait s = (Ok (), ts, s')"
    and "\<forall>idx p. bt_get (of_block_map f) idx = Some p \<longrightarrow> bt_get (of_dirty f) idx = None \<longrightarrow>
      holds (fs_world s) (live_addrs (cw_meta (fs_world s))) (of_ino f) bs idx p (base idx)"
    and "fs_world r = fs_world s'" and "fresh_for (of_ino f) (bump (of_generation f)) r" and "fs_block_size r = bs"
    and "0 < unat bs" and "unat off + unat sz + unat bs < 2 ^ 64"
  shows "\<exists>fh' r1 r2 f'. fuse_open (direct xxh3) (raw (of_ino f)) flags r = (Ok fh', r1)
    \<and> fs_open_files r1 fh' = Some f' \<and> of_size_hint f' = of_size_hint f
    \<and> fuse_read (direct xxh3) fh' off sz r1
      = Some (Ok (map (file_view (unat bs) base f) [unat off..<unat off + unat sz]), r2)"
proof -
  obtain n' where n': "inodes (cw_meta (fs_world s')) (of_ino f) = Some n'"
    using publish_readyD [OF assms(1,2) refl] by blast
  have "\<forall>idx p. bt_get (i_blocks n') idx = Some p \<longrightarrow>
      holds (fs_world s') (live_addrs (cw_meta (fs_world s))) (of_ino f) bs idx p (published base f idx)"
    using published_holds [OF assms(1,2) refl n'] assms(3) by blast
  then show ?thesis
    using published_read [OF assms(1,2) n' assms(4) refl _ assms(5-8)] by simp
qed

text \<open>
  C2. Close-to-open consistency.  On a cluster, let a client publish an open file with
  dirty blocks, by flush or by fsync, under any interleaving of the writes, and let the blocks it
  has not changed be held by the first reachable node of their placements.  If the
  publish replies Ok, then any client whose caches are not outdated that opens the file
  next, gets a handle with the writer's size, and reads, at every offset and of every
  length, exactly the bytes of the writer's file: what it had written, what the stores hold
  of the file elsewhere, zeros in holes.
\<close>

theorem close_to_open:
  assumes "publish_ready s fh f n" and "publish (direct xxh3) pick fh wait s = (Ok (), ts, s')"
    and "\<forall>idx p. bt_get (of_block_map f) idx = Some p \<longrightarrow> bt_get (of_dirty f) idx = None \<longrightarrow>
      holds (fs_world s) (live_addrs (cw_meta (fs_world s))) (of_ino f) bs idx p (base idx)"
    and "fs_world r = fs_world s'" and "fresh_for (of_ino f) (bump (of_generation f)) r" and "fs_block_size r = bs"
    and "0 < unat bs" and "unat off + unat sz + unat bs < 2 ^ 64"
  shows "\<exists>fh' r1 r2 f'. fuse_open (direct xxh3) (raw (of_ino f)) flags r = (Ok fh', r1)
    \<and> fs_open_files r1 fh' = Some f' \<and> of_size_hint f' = of_size_hint f
    \<and> fuse_read (direct xxh3) fh' off sz r1
      = Some (Ok (map (file_view (unat bs) base f) [unat off..<unat off + unat sz]), r2)"
  by (rule published_read_back [OF assms])

lemma pub_ready:
  "publish_ready (pub_client 0) 1 (pub_file 0) (the (inodes pub_meta (InodeId 2)))"
  by (simp add: publish_ready_def Let_def pub_client_simps pub_meta_simps sample_file pub_file_def new_file_inode_def maps_agree_def)

lemma pub_reader:
  assumes "publish sample_T (\<lambda>_. 0) 1 AllReplicas (pub_client 0) = (Ok (), [], s')"
    and "fs_world r = (fs_world s')\<lparr>cw_stores := st\<rparr>" and "r = build_fs (fs_world r) 1000 4 2 ''t''"
  shows "fresh_for (of_ino (pub_file 0)) (bump (of_generation (pub_file 0))) r" "fs_block_size r = 4"
proof -
  have "cw_token (fs_world s') = ''t''"
    using publish_readyD [OF pub_ready assms(1) refl] by (auto simp: pub_client_simps)
  moreover have "fs_token r = ''t''" "fs_addrs r = []" "fs_clients r = Map.empty" "fs_block_cache r = Map.empty" "fs_block_size r = 4"
    by (subst assms(3); simp add: build_fs_def)+
  ultimately show "fresh_for (of_ino (pub_file 0)) (bump (of_generation (pub_file 0))) r" "fs_block_size r = 4"
    using assms(2) by (simp_all add: fresh_for_def Let_def)
qed

lemma pub_view: "map (file_view 4 base (pub_file 0)) [1..<4] = [2, 3, 4]"
  by (simp add: file_view_def block_view_def byte_of_def pub_file_def bt_get_def upt_conv_Cons)

theorem close_to_open_witness:
  "\<exists>s' fh' r1 r2. publish sample_T (\<lambda>_. 0) 1 AllReplicas (pub_client 0) = (Ok (), [], s')
     \<and> fuse_open sample_T 2 0 (build_fs (fs_world s') 1000 4 2 ''t'') = (Ok fh', r1)
     \<and> fuse_read sample_T fh' 1 3 r1 = Some (Ok [2, 3, 4], r2)"
proof -
  obtain s' where pub: "publish sample_T (\<lambda>_. 0) 1 AllReplicas (pub_client 0) = (Ok (), [], s')" using pub_ok by blast
  let ?r = "build_fs (fs_world s') 1000 4 2 ''t''"
  have w: "fs_world ?r = fs_world s'" by (simp add: build_fs_def)
  have r: "fresh_for (of_ino (pub_file 0)) (bump (of_generation (pub_file 0))) ?r" "fs_block_size ?r = 4"
    using pub_reader [OF pub, of ?r "cw_stores (fs_world s')"] by (simp_all add: build_fs_def)
  have "\<exists>fh' r1 r2 f'. fuse_open sample_T (raw (of_ino (pub_file 0))) 0 ?r = (Ok fh', r1)
    \<and> fs_open_files r1 fh' = Some f' \<and> of_size_hint f' = of_size_hint (pub_file 0)
    \<and> fuse_read sample_T fh' 1 3 r1
      = Some (Ok (map (file_view (unat (4 :: u64)) (\<lambda>_. []) (pub_file 0)) [unat (1 :: i64)..<unat (1 :: i64) + unat (3 :: u32)]), r2)"
    by (rule close_to_open [OF pub_ready pub _ w r]) (simp_all add: pub_file_def)
  moreover have "map (file_view (unat (4 :: u64)) (\<lambda>_. []) (pub_file 0)) [unat (1 :: i64)..<unat (1 :: i64) + unat (3 :: u32)] = [2, 3, 4]"
    using pub_view [of "\<lambda>_. []"] by simp
  moreover have "raw (of_ino (pub_file 0)) = 2" by (simp add: pub_file_def)
  ultimately show ?thesis using pub by metis
qed

section \<open>Publishing twice, publishing too late\<close>

lemma meta_pool_get:
  "pool_get (direct xxh3) n s = (r, t) \<Longrightarrow> fs_world t = fs_world s \<and> fs_token t = fs_token s"
  by (auto simp: pool_get_def direct_simps Let_def split: option.splits if_splits)

lemma meta_write_call:
  assumes "authed_call (direct xxh3) (\<lambda>md. t_write_block (direct xxh3) c md rq) s = (r, t)"
  shows "cw_meta (fs_world t) = cw_meta (fs_world s) \<and> cw_token (fs_world t) = cw_token (fs_world s) \<and> fs_token t = fs_token s"
proof -
  have frame: "cw_meta (snd (to_store c md h w)) = cw_meta w \<and> cw_token (snd (to_store c md h w)) = cw_token w"
    for md :: metadata and h :: "store_state \<Rightarrow> store_state \<times> u32 reply" and w
    by (simp add: to_store_def split: option.split prod.split)
  have "t = s\<lparr>fs_world := snd (to_store c [''cluster-token'' \<mapsto> fs_token s] (store_write_block rq) (fs_world s))\<rparr>"
    using assms authed_call_eq [of "direct xxh3" s "fs_token s" _ "\<lambda>md. t_write_block (direct xxh3) c md rq", OF _ refl]
    by (simp add: direct_simps)
  then show ?thesis using frame by simp
qed

interpretation mtf: call_frame "direct xxh3" "\<lambda>s t. cw_meta (fs_world t) = cw_meta (fs_world s)
    \<and> cw_token (fs_world t) = cw_token (fs_world s) \<and> fs_token t = fs_token s" for xxh3
  by unfold_locales (use meta_pool_get meta_write_call in \<open>fastforce+\<close>)

lemma handles_allocate: "open_handles (fst (meta_allocate_blocks xxh3 r m)) = open_handles m"
proof (cases "inodes m (InodeId (al_ino r))")
  case None
  then show ?thesis by (simp add: meta_allocate_blocks_def)
next
  case (Some n)
  show ?thesis unfolding meta_allocate_blocks_eq [OF Some refl refl] by simp
qed

lemma publish_allocate_handles:
  assumes tok: "fs_token s = cw_token (fs_world s)" and ok: "publish_allocate (direct xxh3) f s = (Ok f1, t)"
  shows "open_handles (cw_meta (fs_world t)) = open_handles (cw_meta (fs_world s)) \<and> fs_token t = cw_token (fs_world t)"
proof -
  let ?new = "map raw_idx (filter (\<lambda>i. \<not> bt_contains (of_block_map f) i) (map fst (of_dirty f)))"
  let ?r = "\<lparr> al_ino = raw (of_ino f), al_block_idxs = ?new \<rparr>"
  obtain q u where c: "authed_call (direct xxh3) (\<lambda>md. t_allocate (direct xxh3) md ?r) s = (q, u)" by fastforce
  show ?thesis
  proof (cases "?new = []")
    case True
    then show ?thesis using ok tok by (simp add: publish_allocate_def)
  next
    case False
    then obtain locs where q: "q = Ok locs" and u: "u = t"
      using ok c by (cases q) (simp_all add: publish_allocate_def Let_def)
    have "t = s\<lparr>fs_world := (fs_world s)\<lparr>cw_meta := fst (meta_allocate_blocks xxh3 ?r (cw_meta (fs_world s)))\<rparr>\<rparr>"
      using authed_call_to_meta [OF tok _ c [unfolded q], of "meta_allocate_blocks xxh3 ?r"] u by (simp add: direct_simps)
    then show ?thesis using tok by (simp add: handles_allocate)
  qed
qed

lemma publish_close_no_handle:
  assumes tok: "fs_token s = cw_token (fs_world s)" and h: "open_handles (cw_meta (fs_world s)) fh = None"
  shows "publish_close (direct xxh3) fh idxs f s = (Err ENotFound, s)"
proof -
  let ?now = "time_parts (t_now (direct xxh3) (fs_world s))"
  let ?r = "\<lparr> cl_fh = fh, cl_ino = raw (of_ino f), cl_expected_generation = raw_gen (of_generation f),
      cl_new_size = of_size_hint f, cl_written_block_idxs = idxs, cl_mtime_s = fst ?now, cl_mtime_ns = snd ?now \<rparr>"
  have "meta_close (cw_now (fs_world s)) ?r (cw_meta (fs_world s)) = (cw_meta (fs_world s), Err (st_not_found ''file handle not found''))"
    using h by (simp add: meta_close_no_handle)
  then have "authed_call (direct xxh3) (\<lambda>md. t_close (direct xxh3) md ?r) s = (Err (st_not_found ''file handle not found''), s)"
    using authed_call_meta_eq [of s "\<lambda>md. t_close (direct xxh3) md ?r" "meta_close (cw_now (fs_world s)) ?r" xxh3] tok
    by (simp add: direct_simps rpc_of_def)
  then show ?thesis by (simp add: publish_close_def Let_def from_status_def)
qed

text \<open>A publish on a handle that the metadata server does not have fails, whatever it has written.\<close>

lemma publish_without_handle:
  assumes "fs_open_files t fh = Some g" and "of_dirty g \<noteq> []" and "fs_token t = cw_token (fs_world t)"
    and "open_handles (cw_meta (fs_world t)) fh = None"
  shows "fst (publish (direct xxh3) pick fh wait t) \<noteq> Ok ()"
proof
  obtain q ts' t' where p: "publish (direct xxh3) pick fh wait t = (q, ts', t')" by (metis prod_cases3)
  assume "fst (publish (direct xxh3) pick fh wait t) = Ok ()"
  then have "publish (direct xxh3) pick fh wait t = (Ok (), ts', t')" using p by simp
  from publish_OkD [OF this assms(1,2)] obtain s1 f1 s2 s4
    where 1: "publish_addrs (direct xxh3) t = (Ok (), s1)" and 2: "publish_allocate (direct xxh3) g s1 = (Ok f1, s2)"
      and 3: "write_all (direct xxh3) wait (of_ino f1) (of_block_map f1) pick (of_dirty f1) (put_open_file fh (f1\<lparr>of_dirty := []\<rparr>) s2) = (Ok (), ts', s4)"
      and 4: "publish_close (direct xxh3) fh (map (raw_idx \<circ> fst) (of_dirty f1)) (f1\<lparr>of_dirty := []\<rparr>) s4 = (Ok (), t')"
    by blast
  have "fs_world s1 = fs_world t" "fs_token s1 = fs_token t" using publish_addrs_direct [OF assms(3) 1] by simp_all
  then have "open_handles (cw_meta (fs_world s2)) fh = None" "fs_token s2 = cw_token (fs_world s2)"
    using publish_allocate_handles [OF _ 2] assms(3,4) by simp_all
  then have "open_handles (cw_meta (fs_world s4)) fh = None" "fs_token s4 = cw_token (fs_world s4)"
    using mtf.write_all_call_frame [OF 3] by (simp_all add: put_open_file_def)
  then show False using publish_close_no_handle 4 by fastforce
qed

lemma publish_closes_handle:
  assumes "publish_ready s fh f n" and "publish (direct xxh3) pick fh wait s = (Ok (), ts, s')"
  shows "open_handles (cw_meta (fs_world s')) fh = None"
  using assms(1) publish_direct [OF assms(2)] unfolding publish_ready_def Let_def by blast

text \<open>
  C37. A publish that is refused as stale has already changed the file.  Let the file's
  generation at the metadata server differ from the one of the open file, because another
  client has published in between.  When the stores take the blocks, the publish fails
  with EIO and leaves generation and size of the file alone, as it should; but every dirty
  block of the refused writer is by then stored on its nodes, under the key that every
  reader of the file uses.
\<close>

theorem stale_publish_overwrites:
  assumes "publish_ready s fh f n" and "i_generation n \<noteq> of_generation f"
    and "publish_addrs (direct xxh3) s = (Ok (), s1)" and "publish_allocate (direct xxh3) f s1 = (Ok f1, s2)"
    and "write_all (direct xxh3) wait (of_ino f1) (of_block_map f1) pick (of_dirty f1) (put_open_file fh (f1\<lparr>of_dirty := []\<rparr>) s2) = (Ok (), ts, s4)"
  shows "\<exists>s' n'. publish (direct xxh3) pick fh wait s = (Err EBlockGenerationMismatch, ts, s')
    \<and> inodes (cw_meta (fs_world s')) (of_ino f) = Some n' \<and> i_generation n' = i_generation n \<and> i_size n' = i_size n
    \<and> (\<forall>(idx, buf) \<in> set (of_dirty f). \<exists>p. bt_get (i_blocks n') idx = Some p \<and> (\<forall>nid \<in> set (synced wait p).
         \<exists>a. hm_get (live_addrs (cw_meta (fs_world s))) nid = Some a
           \<and> rb_key (block_req (of_ino f) idx) = Some (write_key (of_ino f) idx)
           \<and> cl_rd (fs_world s') (a, write_key (of_ino f) idx) = Some buf))"
proof -
  let ?m = "cw_meta (fs_world s)"
  have a: "fs_open_files s fh = Some f" "of_dirty f \<noteq> []" "bt_wf (of_dirty f)" "fs_token s = cw_token (fs_world s)"
    "inodes ?m (of_ino f) = Some n" "maps_agree f n"
    "\<forall>nid c. fs_clients s nid = Some c \<longrightarrow> hm_get (live_addrs ?m) nid = Some c"
    using assms(1) unfolding publish_ready_def Let_def by simp_all
  obtain h where h: "open_handles ?m fh = Some h" "oh_ino h = of_ino f"
    using assms(1) unfolding publish_ready_def Let_def by blast
  obtain b bm where f1: "f1 = f\<lparr>of_block_map := bm\<rparr>"
    and meta4: "cw_meta (fs_world s4) = put_inode (of_ino f) (n\<lparr>i_blocks := b\<rparr>) ?m" "cw_token (fs_world s4) = cw_token (fs_world s)"
      "fs_token s4 = fs_token s"
    and dirty: "\<forall>(idx, buf) \<in> set (of_dirty f). \<exists>p. bt_get b idx = Some p \<and> (\<forall>nid \<in> set (synced wait p).
         \<exists>a. hm_get (live_addrs ?m) nid = Some a \<and> cl_rd (fs_world s4) (a, write_key (of_ino f) idx) = Some buf)"
    using publish_stages [where pick = pick, OF assms(3-5) a(3) a(4) refl a(5-7)] by (elim exE conjE)
  let ?now = "time_parts (t_now (direct xxh3) (fs_world s4))"
  let ?r = "\<lparr> cl_fh = fh, cl_ino = raw (of_ino f), cl_expected_generation = raw_gen (of_generation f),
      cl_new_size = of_size_hint f, cl_written_block_idxs = map (raw_idx \<circ> fst) (of_dirty f), cl_mtime_s = fst ?now, cl_mtime_ns = snd ?now \<rparr>"
  have gen: "Generation (raw_gen g) = g" for g by (cases g) simp
  define s' where "s' = s4\<lparr>fs_world := (fs_world s4)\<lparr>cw_meta := (cw_meta (fs_world s4))\<lparr>open_handles := (open_handles ?m)(fh := None)\<rparr>\<rparr>\<rparr>"
  have "meta_close (cw_now (fs_world s4)) ?r (cw_meta (fs_world s4))
      = ((cw_meta (fs_world s4))\<lparr>open_handles := (open_handles ?m)(fh := None)\<rparr>, Err (st_failed_precondition ''generation mismatch''))"
    using meta_close_stale [of "cw_meta (fs_world s4)" ?r h "n\<lparr>i_blocks := b\<rparr>"] h a(2) assms(2)
    by (simp add: meta4(1) ns_simps gen)
  then have "authed_call (direct xxh3) (\<lambda>md. t_close (direct xxh3) md ?r) s4 = (Err (st_failed_precondition ''generation mismatch''), s')"
    using authed_call_meta_eq [of s4 "\<lambda>md. t_close (direct xxh3) md ?r" "meta_close (cw_now (fs_world s4)) ?r" xxh3] meta4(2,3) a(4)
    by (simp add: direct_simps rpc_of_def s'_def)
  then have "publish_close (direct xxh3) fh (map (raw_idx \<circ> fst) (of_dirty f1)) (f1\<lparr>of_dirty := []\<rparr>) s4 = (Err EBlockGenerationMismatch, s')"
    by (simp add: publish_close_def Let_def from_status_def f1)
  then have "publish (direct xxh3) pick fh wait s = (Err EBlockGenerationMismatch, ts, s')"
    using a(1,2) assms(3-5) by (simp add: publish_def Let_def)
  moreover have "inodes (cw_meta (fs_world s')) (of_ino f) = Some (n\<lparr>i_blocks := b\<rparr>)" by (simp add: s'_def meta4(1) ns_simps)
  moreover have "cl_rd (fs_world s') = cl_rd (fs_world s4)" by (simp add: s'_def cl_rd_def fun_eq_iff)
  moreover have "rb_key (block_req (of_ino f) idx) = Some (write_key (of_ino f) idx)" for idx by (simp add: block_req_def write_key_def)
  ultimately show ?thesis
    using dirty by (intro exI [of _ s']) (rule exI [of _ "n\<lparr>i_blocks := b\<rparr>"], simp)
qed

theorem stale_publish_overwrites_witness:
  "\<exists>s'. publish sample_T (\<lambda>_. 0) 1 AllReplicas (pub_client 7) = (Err EBlockGenerationMismatch, [], s')
     \<and> cl_rd (fs_world s') (''http://b'', write_key (InodeId 2) (BlockIdx 0)) = Some [1, 2, 3, 4]"
proof -
  let ?n = "the (inodes pub_meta (InodeId 2))"
  have ready: "publish_ready (pub_client 7) 1 (pub_file 7) ?n" and gen: "i_generation ?n \<noteq> of_generation (pub_file 7)"
    by (simp_all add: publish_ready_def Let_def pub_client_simps pub_meta_simps sample_file pub_file_def new_file_inode_def maps_agree_def)
  have "write_all sample_T AllReplicas (of_ino ((pub_file 7)\<lparr>of_block_map := [(BlockIdx 0, pub_place)]\<rparr>))
      (of_block_map ((pub_file 7)\<lparr>of_block_map := [(BlockIdx 0, pub_place)]\<rparr>)) (\<lambda>_. 0) (of_dirty ((pub_file 7)\<lparr>of_block_map := [(BlockIdx 0, pub_place)]\<rparr>))
      (put_open_file 1 ((pub_file 7)\<lparr>of_block_map := [(BlockIdx 0, pub_place)]\<rparr>\<lparr>of_dirty := []\<rparr>) (pub_client2 7)) = (Ok (), [], pub_client3 7)"
    using pub_stage3 [of 7] by (simp add: pub_file_def)
  note w = this
  from stale_publish_overwrites [where pick = "\<lambda>_. 0", OF ready gen pub_stage1 pub_stage2 w]
  obtain s' and n' :: inode where p: "publish sample_T (\<lambda>_. 0) 1 AllReplicas (pub_client 7) = (Err EBlockGenerationMismatch, [], s')"
    and d: "\<forall>(idx, buf) \<in> set (of_dirty (pub_file 7)). \<exists>p. bt_get (i_blocks n') idx = Some p \<and> (\<forall>nid \<in> set (synced AllReplicas p).
         \<exists>a. hm_get (live_addrs (cw_meta (fs_world (pub_client 7)))) nid = Some a
           \<and> rb_key (block_req (of_ino (pub_file 7)) idx) = Some (write_key (of_ino (pub_file 7)) idx)
           \<and> cl_rd (fs_world s') (a, write_key (of_ino (pub_file 7)) idx) = Some buf)"
    by blast
  have "(BlockIdx 0, [1, 2, 3, 4]) \<in> set (of_dirty (pub_file 7))" by (simp add: pub_file_def)
  from bspec [OF d this] have "cl_rd (fs_world s') (''http://b'', write_key (InodeId 2) (BlockIdx 0)) = Some [1, 2, 3, 4]"
    by (auto simp: synced_def pub_client_simps pub_addrs hm_get_def pub_file_def split: if_splits)
  with p show ?thesis by blast
qed

end
