(* ===== verification/System_Props.thy ===== *)
theory System_Props
  imports System Sessions
begin

text \<open>
  The properties of whole runs: the invariant of a system of servers and clients, the
  projection of its runs to runs of the servers, and the files that the delete tasks of the
  metadata server cannot hit when they run late.
\<close>

section \<open>Runs\<close>

definition world_new :: "string \<Rightarrow> system_time \<Rightarrow> instant \<Rightarrow> nat \<Rightarrow> cluster" where
  "world_new token now i rf = \<lparr> cw_meta = meta_new now rf, cw_stores = Map.empty, cw_tasks = [],
     cw_token = token, cw_now = now, cw_instant = i \<rparr>"

definition sys_new :: "cluster \<Rightarrow> system" where
  "sys_new w = \<lparr> sys_world = w, sys_clients = Map.empty, sys_tasks = [], sys_waiting = Map.empty \<rparr>"

lemma world_ok_new: "world_ok (world_new token now i rf)"
  by (simp add: world_ok_def world_new_def meta_wf_new)

lemma sys_ok_new: "world_ok w \<Longrightarrow> sys_ok (sys_new w)"
  by (simp add: sys_ok_def sys_new_def)

lemma sys_step_simulated:
  assumes "sys_step xxh3 G D S S'" and "sys_ok S"
  shows "(world_step xxh3 G)\<^sup>*\<^sup>* (sys_world S) (sys_world S')"
  using assms
proof (induction rule: sys_step.induct)
  case (request S c s rq e s')
  have inv: "client_inv (at_client S s)" using at_client_ready [OF request.prems request.hyps(1)] by simp
  have "fuse_guard G rq (at_client S s)"
    using request.hyps(3) client_inv_vecs [OF inv] by (cases rq) simp_all
  from request_steps [OF request.hyps(4) this] show ?case by (simp add: client_done_def)
next
  case (send S c s rq ans s')
  have inv: "client_inv (at_client S s)" using at_client_ready [OF send.prems send.hyps(1)] by simp
  have "fuse_guard G rq (at_client S s)"
    using send.hyps(3) client_inv_vecs [OF inv] by (cases rq) simp_all
  from request_steps [OF sent_then_finished [OF send.hyps(4)] this] show ?case by (simp add: client_done_def)
next
  case (replica S c s rt)
  have "vec_ok (rt_data rt)" using replica by (auto simp: sys_ok_def)
  from dw.run_replica_task_R [OF this, of xxh3 G "at_client S s"] show ?case by (simp add: client_done_def)
qed (auto simp: client_done_def)

lemma sys_steps_simulated:
  "(sys_step xxh3 G D)\<^sup>*\<^sup>* S S' \<Longrightarrow> sys_ok S \<Longrightarrow> (world_step xxh3 G)\<^sup>*\<^sup>* (sys_world S) (sys_world S')"
proof (induction rule: rtranclp_induct)
  case (step S1 S2)
  then have "sys_ok S1" using sys_ok_steps by blast
  with step sys_step_simulated [OF step.hyps(2)] show ?case by (auto intro: rtranclp_trans)
qed simp

text \<open>In runs whose renames meet their conditions the namespace is a tree.\<close>

lemma sys_tree:
  assumes "(sys_step xxh3 G D)\<^sup>*\<^sup>* (sys_new (world_new token now i rf)) S"
    and "\<And>r m. G r m \<Longrightarrow> rename_safe r m"
  shows "ns_ok (abs_ns (cw_meta (sys_world S)))"
proof -
  have run: "(world_step xxh3 G)\<^sup>*\<^sup>* (world_new token now i rf) (sys_world S)"
    using sys_steps_simulated [OF assms(1) sys_ok_new [OF world_ok_new]] by (simp add: sys_new_def)
  have "ns_ok (abs_ns (cw_meta (world_new token now i rf)))" by (simp add: world_new_def abs_ns_new ns_ok_init)
  from world_tree_steps [OF run world_ok_new this assms(2)] show ?thesis .
qed

text \<open>
  C3. The invariant of the system.  Start a metadata server, and let store processes come
  and go, clients mount and run any FUSE requests, replies take their time, spawned replica
  writes and delete tasks run at any later moment, heartbeats, watcher ticks and time pass,
  in any order, with requests failing or not, as long as the 64 bit counters of inodes and
  handles do not reach their end.  Then always, whatever renames occur: the tables of the
  metadata server agree (inodes filed under their own number and below the allocator, a
  directory table exactly for the directories, handles filed under their own number);
  the buffers of every open file of every client are in order and at least a block long;
  and pending delete tasks name inodes that were handed out before.  If moreover every
  rename of the run has an existing destination directory that is not below the moved
  inode, and another name than its source, the namespace is a tree.  The server does not
  check these conditions, and without them the tree is lost.
\<close>

theorem system_invariant:
  assumes "(sys_step xxh3 G D)\<^sup>*\<^sup>* (sys_new (world_new token now i rf)) S"
  shows "meta_wf (cw_meta (sys_world S))
    \<and> (\<forall>c s fh f. sys_clients S c = Some s \<longrightarrow> fs_open_files s fh = Some f \<longrightarrow>
         bt_wf (of_dirty f) \<and> (\<forall>idx buf. bt_get (of_dirty f) idx = Some buf \<longrightarrow> unat (fs_block_size s) \<le> length buf))
    \<and> (\<forall>t \<in> set (cw_tasks (sys_world S)). raw (dt_ino t) < next_ino (cw_meta (sys_world S)))
    \<and> ((\<forall>r m. G r m \<longrightarrow> rename_safe r m) \<longrightarrow> ns_ok (abs_ns (cw_meta (sys_world S))))"
proof -
  have ok: "sys_ok S" by (rule sys_ok_steps [OF assms sys_ok_new [OF world_ok_new]])
  have "bt_wf (of_dirty f) \<and> (\<forall>idx buf. bt_get (of_dirty f) idx = Some buf \<longrightarrow> unat (fs_block_size s) \<le> length buf)"
    if "sys_clients S c = Some s" "fs_open_files s fh = Some f" for c s fh f
  proof -
    have "client_inv s" using ok that(1) by (simp add: sys_ok_def)
    from client_inv_file [OF this that(2)] show ?thesis by (simp add: file_ok_def buf_ok_def)
  qed
  moreover have "meta_wf (cw_meta (sys_world S))"
    "\<forall>t \<in> set (cw_tasks (sys_world S)). raw (dt_ino t) < next_ino (cw_meta (sys_world S))"
    using ok by (simp_all add: sys_ok_def world_ok_def task_ok_def)
  ultimately show ?thesis using sys_tree [OF assms] by blast
qed

text \<open>A run: a store starts, a client mounts the file system and creates a file.\<close>

definition run_env :: fuse_env where
  "run_env = \<lparr> fe_pick = (\<lambda>_. 0), fe_fuel = 1, fe_full = (\<lambda>_ _. False) \<rparr>"

definition run_world :: cluster where
  "run_world = on_store ''http://a'' (Some (store_new (NodeId ''n1'') [] 100)) (world_new ''t'' 0 0 2)"

definition run_client :: "cluster fs" where
  "run_client = build_fs run_world 1000 4 2 ''t''"

definition run_mounted :: system where
  "run_mounted = (sys_new run_world)\<lparr>sys_clients := [0 \<mapsto> run_client]\<rparr>"

definition run_created :: system where
  "run_created = client_done 0 (snd (fuse_create sample_T 0 0 1 ''f'' 420 0 run_client)) [] run_mounted"

lemma run_mounted_reached: "(sys_step (\<lambda>_ _. 0) rename_safe D)\<^sup>*\<^sup>* (sys_new (world_new ''t'' 0 0 2)) run_mounted"
proof -
  let ?S = "sys_new (world_new ''t'' 0 0 2)"
  have "world_step (\<lambda>_ _. 0) rename_safe (sys_world ?S) run_world"
    using world_step.start [of 100 "\<lambda>_ _. 0" rename_safe "world_new ''t'' 0 0 2" "''http://a''" "NodeId ''n1''" "[]"]
    by (simp add: sys_new_def run_world_def)
  from sys_step.servers [OF this] have 1: "sys_step (\<lambda>_ _. 0) rename_safe D ?S (sys_new run_world)" by (simp add: sys_new_def)
  have "sys_step (\<lambda>_ _. 0) rename_safe D (sys_new run_world) run_mounted"
    using sys_step.mount [of 4 "\<lambda>_ _. 0" rename_safe D "sys_new run_world" 0 1000 2 "''t''"]
    by (simp add: sys_new_def run_mounted_def run_client_def)
  with 1 show ?thesis by (rule converse_rtranclp_into_rtranclp [OF _ r_into_rtranclp])
qed

lemma run_created_reached: "(sys_step (\<lambda>_ _. 0) rename_safe D)\<^sup>*\<^sup>* (sys_new (world_new ''t'' 0 0 2)) run_created"
proof -
  have at: "at_client run_mounted run_client = run_client"
    by (simp add: at_client_def run_mounted_def run_client_def build_fs_def sys_new_def)
  have c: "sys_clients run_mounted 0 = Some run_client" "sys_waiting run_mounted 0 = None" and ts: "sys_tasks run_mounted = []"
    by (simp_all add: run_mounted_def sys_new_def)
  have "req_guard rename_safe (RqCreate 0 0 1 ''f'' 420 0) (cw_meta (sys_world run_mounted))"
    by (simp add: run_mounted_def sys_new_def run_world_def on_store_def world_new_def counters_ok_def meta_new_def)
  from sys_step.request [OF c this, of run_env "\<lambda>_ _. 0" "snd (fuse_create sample_T 0 0 1 ''f'' 420 0 run_client)"]
  have "sys_step (\<lambda>_ _. 0) rename_safe D run_mounted run_created"
    by (simp add: at ts run_created_def run_env_def)
  with run_mounted_reached show ?thesis by (rule rtranclp.rtrancl_into_rtrancl)
qed

theorem system_invariant_witness:
  "(sys_step (\<lambda>_ _. 0) rename_safe 0)\<^sup>*\<^sup>* (sys_new (world_new ''t'' 0 0 2)) run_created
   \<and> ns_ok (abs_ns (cw_meta (sys_world run_created)))"
  using system_invariant [OF run_created_reached] run_created_reached by blast

section \<open>Late delete tasks\<close>

lemma cl_rd_run_delete_task:
  "cl_rd (run_delete_task t w) (a, k) =
     (if dt_token t = cw_token w \<and> a = dt_addr t \<and> k = write_key (dt_ino t) (dt_idx t) then None else cl_rd w (a, k))"
proof (cases "dt_token t = cw_token w")
  case True
  show ?thesis
    by (simp add: run_delete_task_eq [OF True] True cl_rd_def on_store_def store_rd_delete split: option.split)
next
  case False
  then have "\<exists>e. check_token Some [''cluster-token'' \<mapsto> dt_token t] (cw_token w) = Err e" by (simp add: check_token_def)
  then show ?thesis
    using False by (auto simp: run_delete_task_def to_store_def guarded_def cl_rd_def split: option.splits if_splits)
qed

lemma write_key_inj: "write_key i j = write_key i' j' \<longleftrightarrow> i = i' \<and> j = j'"
  by (cases i; cases j; cases i'; cases j') (simp add: write_key_def)

text \<open>
  C10. A delete task cannot hit a file that is created after it was spawned.  In every
  reachable state of the servers, let a Create succeed while delete tasks are pending.
  Whenever one of them runs, however late and whatever the stores hold by then, every
  block of the new file is read as before.
\<close>

theorem late_delete_spares_new_file:
  assumes "(world_step xxh3 G)\<^sup>*\<^sup>* (world_new token now i rf) w" and "t \<in> set (cw_tasks w)"
    and "meta_create now' r (cw_meta w) = (m', Ok resp)" and "crr_attr resp = Some at"
  shows "cl_rd (run_delete_task t v) (a, write_key (InodeId (at_ino at)) idx) = cl_rd v (a, write_key (InodeId (at_ino at)) idx)"
proof -
  have "raw (dt_ino t) < next_ino (cw_meta w)"
    using world_ok_steps [OF assms(1) world_ok_new] assms(2) by (auto simp: world_ok_def task_ok_def)
  moreover have "at_ino at = next_ino (cw_meta w)"
    using assms(3,4) by (cases rule: meta_create_cases [of now' r "cw_meta w"])
      (auto simp: meta_create_ok Let_def build_attr_def new_file_inode_def split_def)
  ultimately have "dt_ino t \<noteq> InodeId (at_ino at)" by auto
  then show ?thesis by (auto simp: cl_rd_run_delete_task write_key_inj)
qed

text \<open>A run of the servers that ends with a pending delete task: the file it belonged to is gone.\<close>

definition late_world :: "meta_state \<Rightarrow> delete_task list \<Rightarrow> cluster" where
  "late_world m ts = (world_new ''t'' 0 0 2)\<lparr>cw_meta := m, cw_tasks := ts\<rparr>"

definition late_task :: delete_task where
  "late_task = \<lparr> dt_addr = ''http://b'', dt_ino = InodeId 2, dt_idx = BlockIdx 0, dt_token = ''t'' \<rparr>"

lemma late_serve:
  assumes "meta_guard rename_safe x m" and "meta_exec (\<lambda>_ _. 0) ''t'' x m = m'" and "meta_tasks ''t'' x m = ts"
  shows "world_step (\<lambda>_ _. 0) rename_safe (late_world m []) (late_world m' ts)"
  using world_step.serve [of rename_safe x "late_world m []" "\<lambda>_ _. 0"] assms
  by (simp add: serve_def late_world_def world_new_def)

lemma pub_unlink:
  "\<exists>m'. meta_unlink ''t'' \<lparr> ul_parent_ino = 1, ul_name = ''f'' \<rparr> pub_meta2 = (m', [late_task], Ok ())
     \<and> dirs m' (InodeId 1) = Some [] \<and> inodes m' (InodeId 2) = None \<and> counters_ok m'"
proof -
  let ?r = "\<lparr> ul_parent_ino = 1, ul_name = ''f'' \<rparr>"
  have d: "dirs pub_meta2 = [InodeId 1 \<mapsto> [(''f'', InodeId 2)]]"
    by (simp add: pub_meta2_def pub_meta_def meta_heartbeat_node_def Let_def sample_dirs)
  obtain n where n: "inodes pub_meta2 (InodeId 2) = Some n" "i_kind n = File" "i_blocks n = [(BlockIdx 0, pub_place)]"
    by (simp add: pub_meta2_def ns_simps pub_meta_simps sample_file new_file_inode_def)
  have e: "entry pub_meta2 (InodeId 1) ''f'' = Some (InodeId 2)" by (simp add: entry_def d bt_get_def)
  have "node_addrs_of pub_meta2 = [(NodeId ''n2'', ''http://b'')]"
    by (simp add: node_addrs_of_def pub_meta2_def pub_meta_simps hm_collect_def hm_insert_def)
  then have "fire_delete_blocks (i_blocks n) (node_addrs_of pub_meta2) (InodeId 2) ''t'' = [late_task]"
    by (simp add: fire_delete_blocks_def hm_get_def late_task_def n(3))
  moreover have "next_ino pub_meta2 = 3" "next_fh pub_meta2 = 2"
    by (simp_all add: pub_meta2_def pub_meta_def meta_heartbeat_node_def Let_def sample_file)
  moreover have "node_addrs_of (remove_inode i (pub_meta2\<lparr>dirs := D\<rparr>)) = node_addrs_of pub_meta2" for i D
    by (rule node_addrs_of_cong) simp
  ultimately show ?thesis
    by (simp add: meta_unlink_def e n(1,2) with_dir_def Let_def d) (simp add: n(3) bt_remove_def counters_ok_def ns_simps)
qed

lemma pub_world_reached: "(world_step (\<lambda>_ _. 0) rename_safe)\<^sup>*\<^sup>* (world_new ''t'' 0 0 2) (late_world pub_meta2 [])"
proof -
  have "world_step (\<lambda>_ _. 0) rename_safe (late_world (meta_new 0 2) []) (late_world sample_state [])"
    by (rule late_serve [where x = "OpCreate 0 \<lparr> cr_parent_ino = 1, cr_name = ''f'', cr_mode = 420, cr_uid = 0, cr_gid = 0 \<rparr>"])
      (simp_all add: sample_state_def counters_ok_def, simp_all add: meta_new_def)
  moreover have "world_step (\<lambda>_ _. 0) rename_safe (late_world sample_state []) (late_world pub_meta [])"
    by (rule late_serve [where x = "OpHeartbeat 5 \<lparr> hb_node_id = ''n2'', hb_addr = ''b'', hb_used_bytes = 0, hb_capacity_bytes = 100, hb_epoch_s = 0 \<rparr>"])
      (simp_all add: pub_meta_def)
  moreover have "world_step (\<lambda>_ _. 0) rename_safe (late_world pub_meta []) (late_world pub_meta2 [])"
    by (rule late_serve [where x = "OpAllocate \<lparr> al_ino = 2, al_block_idxs = [0] \<rparr>"]) (simp_all add: pub_alloc)
  moreover have "late_world (meta_new 0 2) [] = world_new ''t'' 0 0 2" by (simp add: late_world_def world_new_def)
  ultimately show ?thesis by (auto intro: converse_rtranclp_into_rtranclp)
qed

lemma late_world_step:
  "\<exists>m. world_step (\<lambda>_ _. 0) rename_safe (late_world pub_meta2 []) (late_world m [late_task])
     \<and> dirs m (InodeId 1) = Some [] \<and> inodes m (InodeId 2) = None \<and> counters_ok m"
proof -
  obtain m where m: "meta_unlink ''t'' \<lparr> ul_parent_ino = 1, ul_name = ''f'' \<rparr> pub_meta2 = (m, [late_task], Ok ())"
    and d: "dirs m (InodeId 1) = Some []" "inodes m (InodeId 2) = None" "counters_ok m" using pub_unlink by blast
  have "world_step (\<lambda>_ _. 0) rename_safe (late_world pub_meta2 []) (late_world m [late_task])"
    by (rule late_serve [where x = "OpUnlink \<lparr> ul_parent_ino = 1, ul_name = ''f'' \<rparr>"]) (simp_all add: m)
  with d show ?thesis by blast
qed

lemma late_world_reached:
  "\<exists>m. (world_step (\<lambda>_ _. 0) rename_safe)\<^sup>*\<^sup>* (world_new ''t'' 0 0 2) (late_world m [late_task])
     \<and> dirs m (InodeId 1) = Some []"
  using late_world_step pub_world_reached by (meson rtranclp.rtrancl_into_rtrancl)

theorem late_delete_spares_new_file_witness:
  "\<exists>m m' resp at. meta_create 0 \<lparr> cr_parent_ino = 1, cr_name = ''g'', cr_mode = 420, cr_uid = 0, cr_gid = 0 \<rparr> m = (m', Ok resp)
     \<and> crr_attr resp = Some at
     \<and> cl_rd (run_delete_task late_task pub_cluster) (''http://b'', write_key (InodeId (at_ino at)) (BlockIdx 0))
         = cl_rd pub_cluster (''http://b'', write_key (InodeId (at_ino at)) (BlockIdx 0))"
proof -
  obtain m where w: "(world_step (\<lambda>_ _. 0) rename_safe)\<^sup>*\<^sup>* (world_new ''t'' 0 0 2) (late_world m [late_task])"
    and d: "dirs m (InodeId 1) = Some []" using late_world_reached by blast
  let ?r = "\<lparr> cr_parent_ino = 1, cr_name = ''g'', cr_mode = 420, cr_uid = 0, cr_gid = 0 \<rparr>"
  obtain m' resp at where c: "meta_create 0 ?r m = (m', Ok resp)" "crr_attr resp = Some at"
    using d by (auto simp: meta_create_ok [of m ?r "[]"] bt_contains_def bt_get_def Let_def)
  have t: "late_task \<in> set (cw_tasks (late_world m [late_task]))" and m: "cw_meta (late_world m [late_task]) = m"
    by (simp_all add: late_world_def)
  show ?thesis
    using late_delete_spares_new_file [OF w t, unfolded m, OF c] c by blast
qed

end
