(* ===== verification/Meta_Inodes.thy ===== *)
theory Meta_Inodes
  imports Meta_Blocks Meta_Props Client_State
begin

text \<open>
  Invariants of single inodes.  \<open>inode_property\<close> collects what the handlers of the metadata
  server do to an inode; a property that these changes keep holds of every inode in every
  run.  Two such properties: the type bits of the mode say what the kind says, and every
  placement names distinct nodes, at most as many as the replication factor.
\<close>

definition inodes_all :: "(inode \<Rightarrow> bool) \<Rightarrow> meta_state \<Rightarrow> bool" where
  "inodes_all I s \<longleftrightarrow> (\<forall>i n. inodes s i = Some n \<longrightarrow> I n)"

lemma inodes_all_put: "inodes_all I s \<Longrightarrow> I n \<Longrightarrow> inodes_all I (put_inode i n s)"
  by (auto simp: inodes_all_def ns_simps)

lemma inodes_all_remove: "inodes_all I s \<Longrightarrow> inodes_all I (remove_inode i s)"
  by (auto simp: inodes_all_def ns_simps split: if_splits)

lemma inodes_all_modify: "inodes_all I s \<Longrightarrow> (\<And>n. I n \<Longrightarrow> I (f n)) \<Longrightarrow> inodes_all I (modify_inode i f s)"
  by (auto simp: inodes_all_def ns_simps split: if_splits option.splits)

lemma inodes_all_frame [simp]:
  "inodes_all I (s\<lparr>dirs := d\<rparr>) = inodes_all I s" "inodes_all I (s\<lparr>next_ino := k\<rparr>) = inodes_all I s"
  "inodes_all I (s\<lparr>open_handles := h\<rparr>) = inodes_all I s" "inodes_all I (s\<lparr>next_fh := k\<rparr>) = inodes_all I s"
  "inodes_all I (s\<lparr>nodes := ns\<rparr>) = inodes_all I s" "inodes_all I (s\<lparr>last_heartbeat := l\<rparr>) = inodes_all I s"
  by (simp_all add: inodes_all_def)

section \<open>The node table along a run\<close>

lemma rf_rename: "replication_factor (fst (meta_rename token r s)) = replication_factor s"
proof -
  obtain s1 v where s1: "rename_drop_dst (InodeId (rn_dst_parent_ino r)) (rn_dst_name r) s = (s1, v)" by fastforce
  have "replication_factor (fst (rename_drop_dst p n s)) = replication_factor s" for p n
    by (auto simp: rename_drop_dst_def rename_finish_dst_def with_dir_def Let_def split: option.split inode_kind.split)
  then have "replication_factor s1 = replication_factor s" using s1 by (metis fst_conv)
  then show ?thesis
    by (cases v) (auto simp: meta_rename_def s1 Let_def with_dir_def split: option.split prod.split)
qed

lemma rf_allocate: "replication_factor (fst (meta_allocate_blocks xxh3 r s)) = replication_factor s"
proof (cases "inodes s (InodeId (al_ino r))")
  case None
  then show ?thesis by (simp add: meta_allocate_blocks_def Let_def)
next
  case (Some n)
  then show ?thesis by (simp add: meta_allocate_blocks_eq [OF Some refl refl])
qed

lemma rf_exec: "replication_factor (meta_exec xxh3 token x s) = replication_factor s"
  by (cases x) (auto simp: meta_set_attr_def meta_create_def meta_mkdir_def meta_unlink_def meta_rmdir_def open_register_def
      meta_close_def meta_heartbeat_node_def alloc_ino_def alloc_fh_def with_dir_def Let_def rf_rename rf_allocate
      split: option.split prod.split)

lemma nodes_wf_exec:
  assumes "nodes_wf s"
  shows "nodes_wf (meta_exec xxh3 token x s)"
proof -
  have same: "nodes_wf t" if "same_nodes s t" for t using that assms by (simp add: same_nodes_def nodes_wf_def)
  show ?thesis
    by (cases x) (auto intro: same same_nodes_handlers nodes_wf_heartbeat [OF assms] heartbeat_tick_nodes_wf [OF assms]
        simp: open_register_def alloc_fh_def Let_def same_nodes_def [of s "_\<lparr>open_handles := _\<rparr>"])
qed

section \<open>Properties of single inodes\<close>

text \<open>
  \<open>G\<close> is what a SetAttr request has to satisfy for the inode it names, \<open>good\<close> what is known of
  a new placement.
\<close>

fun attr_guard :: "(set_attr_req \<Rightarrow> inode \<Rightarrow> bool) \<Rightarrow> meta_op \<Rightarrow> meta_state \<Rightarrow> bool" where
  "attr_guard G (OpSetAttr now r) s \<longleftrightarrow> (case inodes s (InodeId (sa_ino r)) of None \<Rightarrow> True | Some n \<Rightarrow> G r n)"
| "attr_guard G x s \<longleftrightarrow> True"

fun attrs_guarded ::
  "(set_attr_req \<Rightarrow> inode \<Rightarrow> bool) \<Rightarrow> (string \<Rightarrow> u64 \<Rightarrow> u64) \<Rightarrow> string \<Rightarrow> meta_op list \<Rightarrow> meta_state \<Rightarrow> bool" where
  "attrs_guarded G xxh3 token [] s \<longleftrightarrow> True"
| "attrs_guarded G xxh3 token (x # xs) s \<longleftrightarrow>
     attr_guard G x s \<and> attrs_guarded G xxh3 token xs (meta_exec xxh3 token x s)"

locale inode_property =
  fixes I :: "inode \<Rightarrow> bool" and G :: "set_attr_req \<Rightarrow> inode \<Rightarrow> bool" and good :: "block_placement \<Rightarrow> bool"
    and rf :: nat
  assumes root_I: "I (root_inode now)"
    and file_I: "I (new_file_inode now ino cr)"
    and dir_I: "I (new_dir_inode now ino mk)"
    and nlink_I: "I n \<Longrightarrow> I (n\<lparr>i_nlink := k\<rparr>)"
    and close_I: "I n \<Longrightarrow> I (close_apply now t cl n)"
    and fields_I: "I n \<Longrightarrow> G r n \<Longrightarrow> I (set_attr_fields r n)"
    and times_I: "I n \<Longrightarrow> I (n\<lparr>i_atime := ta\<rparr>)" "I n \<Longrightarrow> I (n\<lparr>i_mtime := tm\<rparr>)" "I n \<Longrightarrow> I (n\<lparr>i_ctime := tc\<rparr>)"
    and size_I: "I n \<Longrightarrow> I (fst (set_size sz n))"
    and good_I: "distinct live \<Longrightarrow> good (place_block xxh3 live rf ino idx)"
    and place_I: "I n \<Longrightarrow> good p \<Longrightarrow> I (n\<lparr>i_blocks := bt_insert idx p (i_blocks n)\<rparr>)"
begin

lemma nlinks_I: "I n \<Longrightarrow> I (nlink_inc n)" "I n \<Longrightarrow> I (nlink_dec n)"
  by (simp_all add: nlink_inc_def nlink_dec_def nlink_I)

lemma all_create: "inodes_all I s \<Longrightarrow> inodes_all I (fst (meta_create now r s))"
  by (cases rule: meta_create_cases [of now r s])
    (auto simp: meta_create_ok Let_def inodes_all_def file_I split: if_splits)

lemma all_mkdir: "inodes_all I s \<Longrightarrow> inodes_all I (fst (meta_mkdir now r s))"
  by (auto simp: meta_mkdir_def Let_def alloc_ino_def with_dir_def
      intro!: inodes_all_modify nlinks_I inodes_all_put dir_I split: option.split)

lemma all_unlink: "inodes_all I s \<Longrightarrow> inodes_all I (fst (meta_unlink token r s))"
  by (auto simp: meta_unlink_def Let_def with_dir_def intro!: inodes_all_remove
      split: option.split)

lemma all_rmdir: "inodes_all I s \<Longrightarrow> inodes_all I (fst (meta_rmdir r s))"
  by (auto simp: meta_rmdir_def Let_def with_dir_def intro!: inodes_all_remove inodes_all_modify nlinks_I
      split: option.split)

lemma all_finish_dst: "inodes_all I s \<Longrightarrow> inodes_all I (fst (rename_finish_dst p n c v s))"
  by (auto simp: rename_finish_dst_def Let_def with_dir_def intro!: inodes_all_remove
      split: option.split)

lemma all_drop_dst: "inodes_all I s \<Longrightarrow> inodes_all I (fst (rename_drop_dst p n s))"
  by (auto simp: rename_drop_dst_def Let_def intro!: all_finish_dst inodes_all_modify nlinks_I
      split: option.split inode_kind.split)

lemma all_rename:
  assumes "inodes_all I s"
  shows "inodes_all I (fst (meta_rename token r s))"
proof -
  obtain s1 v where s1: "rename_drop_dst (InodeId (rn_dst_parent_ino r)) (rn_dst_name r) s = (s1, v)" by fastforce
  have 1: "inodes_all I s1" using all_drop_dst [OF assms] s1 by (metis fst_conv)
  show ?thesis
    using assms 1
    by (cases v) (auto simp: meta_rename_def s1 Let_def with_dir_def
        intro!: inodes_all_modify nlinks_I split: option.split)
qed

lemma all_set_attr:
  assumes all: "inodes_all I s" and G: "\<And>n. inodes s (InodeId (sa_ino r)) = Some n \<Longrightarrow> G r n"
  shows "inodes_all I (fst (meta_set_attr token now r s))"
proof (cases "inodes s (InodeId (sa_ino r))")
  case None
  then show ?thesis using all by (simp add: meta_set_attr_missing)
next
  case (Some n)
  have F: "I (set_attr_fields r n)" using fields_I G [OF Some] all Some by (auto simp: inodes_all_def)
  have T: "I v" if "set_time sec ns (\<lambda>t n. n\<lparr>i_atime := t\<rparr>) u = Some v" "I u" for sec ns u v
    using that times_I(1) by (auto simp: set_time_def split: option.splits)
  have T': "I v" if "set_time sec ns (\<lambda>t n. n\<lparr>i_mtime := t\<rparr>) u = Some v" "I u" for sec ns u v
    using that times_I(2) by (auto simp: set_time_def split: option.splits)
  have S: "I v" if "set_size sz u = (v, d)" "I u" for sz u v d using size_I [OF that(2), of sz] that(1) by simp
  show ?thesis
    using all F
    by (auto simp: meta_set_attr_def Some Let_def set_opt_fields intro!: inodes_all_put times_I(3)
        dest: T T' S split: option.split prod.split)
qed

lemma all_close:
  assumes "inodes_all I s"
  shows "inodes_all I (fst (meta_close now r s))"
proof -
  have "I n" if "inodes s i = Some n" for i n using that assms by (simp add: inodes_all_def)
  then show ?thesis
    using assms by (auto simp: meta_close_def Let_def intro!: inodes_all_put close_I split: option.split)
qed

lemma all_alloc_blocks:
  "I (n\<lparr>i_blocks := b\<rparr>) \<Longrightarrow> (\<And>idx. good (f idx)) \<Longrightarrow> I (n\<lparr>i_blocks := alloc_blocks f idxs b\<rparr>)"
proof (induction f idxs b rule: alloc_blocks.induct)
  case (2 f i idxs b)
  have "I (n\<lparr>i_blocks := bt_insert i (f i) b\<rparr>)" using place_I [OF 2(2), of "f i" i] 2(3) by simp
  then show ?case using 2 by (cases "bt_get b i") simp_all
qed simp

lemma all_allocate:
  assumes "inodes_all I s" and "nodes_wf s" and "replication_factor s = rf"
  shows "inodes_all I (fst (meta_allocate_blocks xxh3 r s))"
proof (cases "inodes s (InodeId (al_ino r))")
  case None
  then show ?thesis using assms by (simp add: meta_allocate_blocks_def Let_def)
next
  case (Some n)
  have "I n" using assms(1) Some by (simp add: inodes_all_def)
  then have "I (n\<lparr>i_blocks := alloc_blocks (place_block xxh3 (live_nodes s) (replication_factor s) (InodeId (al_ino r)))
      (map BlockIdx (al_block_idxs r)) (i_blocks n)\<rparr>)"
    using good_I [OF live_nodes_distinct [OF assms(2)]] assms(3) by (intro all_alloc_blocks) simp_all
  then show ?thesis
    unfolding meta_allocate_blocks_eq [OF Some refl refl] using inodes_all_put [OF assms(1)] by simp
qed

lemma all_exec:
  assumes "inodes_all I s" and "nodes_wf s" and "replication_factor s = rf" and "attr_guard G x s"
  shows "inodes_all I (meta_exec xxh3 token x s)"
  using assms
  by (cases x) (auto intro: all_create all_mkdir all_unlink all_rmdir all_rename all_close all_allocate all_set_attr
      simp: open_register_def alloc_fh_def meta_heartbeat_node_def heartbeat_tick_def Let_def)

lemma all_run:
  "inodes_all I s \<Longrightarrow> nodes_wf s \<Longrightarrow> replication_factor s = rf \<Longrightarrow> attrs_guarded G xxh3 token ops s
     \<Longrightarrow> inodes_all I (meta_run xxh3 token ops s)"
proof (induction ops arbitrary: s)
  case (Cons x xs)
  then have "inodes_all I (meta_run xxh3 token xs (meta_exec xxh3 token x s))"
    by (intro Cons.IH) (simp_all add: all_exec nodes_wf_exec rf_exec)
  then show ?case by (simp add: meta_run_def)
qed (simp add: meta_run_def)

lemma all_run_new:
  "attrs_guarded G xxh3 token ops (meta_new now rf) \<Longrightarrow> inodes_all I (meta_run xxh3 token ops (meta_new now rf))"
  using meta_wf_nodes [OF meta_wf_new]
  by (intro all_run) (simp_all add: meta_new_def inodes_all_def root_I)

end

section \<open>Types\<close>

fun type_bits :: "inode_kind \<Rightarrow> u32" where
  "type_bits File = 32768"
| "type_bits Dir = 16384"
| "type_bits Symlink = 40960"

definition mode_ok :: "inode \<Rightarrow> bool" where
  "mode_ok n \<longleftrightarrow> i_mode n AND 61440 = type_bits (i_kind n)"

text \<open>The mode of a SetAttr request, as the kernel sends it, repeats the type of the file.\<close>

definition mode_kept :: "set_attr_req \<Rightarrow> inode \<Rightarrow> bool" where
  "mode_kept r n \<longleftrightarrow> (case sa_mode r of None \<Rightarrow> True | Some v \<Rightarrow> v AND 61440 = type_bits (i_kind n))"

lemma mode_new: "(t OR (m AND 4095)) AND 61440 = t AND (61440 :: u32)"
  by (simp add: bit.conj_disj_distrib2 and.assoc)

interpretation mo: inode_property mode_ok mode_kept "\<lambda>_. True" rf for rf
  by unfold_locales (auto simp: mode_ok_def mode_kept_def root_inode_def new_file_inode_def new_dir_inode_def mode_new
      close_apply_def set_attr_fields_def set_size_def Let_def unwrap_or_def split: option.splits)

lemma mode_bits_build: "at_mode (build_attr n) = i_mode n"
  by (simp add: build_attr_def Let_def split: prod.split)

lemma mode_ok_kind:
  assumes "mode_ok n" and "proto_attr_to_fuse (build_attr n) = Some fa"
  shows "fa_kind fa = proto_kind_to_fuse (kind_u32 (i_kind n))"
  using assms
  by (cases "i_kind n") (auto simp: mode_ok_def proto_attr_to_fuse_def mode_bits_build proto_kind_to_fuse_def Let_def
      split: option.splits)

text \<open>
  C25. A file has one type.  Run any requests against a fresh server, of every kind, as long
  as the mode of a SetAttr repeats the type bits of the inode it names, as the kernel's
  does.  Whenever a directory listing and the attributes of the inode it names are both
  asked for, the type that the client derives from the mode bits of the attributes is the
  type that the listing gives.
\<close>

theorem types_agree:
  assumes "attrs_guarded mode_kept xxh3 token ops (meta_new now rf)" and "s = meta_run xxh3 token ops (meta_new now rf)"
    and "meta_read_dir r s = Ok resp" and "e \<in> set (rr_entries resp)"
    and "meta_get_attr (de_ino e) s = Ok a" and "proto_attr_to_fuse a = Some fa"
  shows "fa_kind fa = proto_kind_to_fuse (de_kind e)"
proof -
  obtain x where e: "e = dir_entry_of s x" using assms(3,4) by (auto simp: meta_read_dir_def Let_def split: option.splits)
  have ino: "InodeId (raw i) = i" for i by (cases i) simp
  obtain n where n: "inodes s (snd x) = Some n" and a: "a = build_attr n"
    using assms(5) by (auto simp: e dir_entry_of_def meta_get_attr_def ino split: option.splits)
  have "mode_ok n" using mo.all_run_new [OF assms(1)] n assms(2) by (simp add: inodes_all_def)
  from mode_ok_kind [OF this] show ?thesis using assms(6) n a by (simp add: e dir_entry_of_def)
qed

abbreviation chmod_req :: set_attr_req where
  "chmod_req \<equiv> \<lparr> sa_ino = 2, sa_size = None, sa_mode = Some 33188, sa_uid = None, sa_gid = None,
     sa_atime_s = None, sa_atime_ns = None, sa_mtime_s = None, sa_mtime_ns = None \<rparr>"

abbreviation type_ops :: "meta_op list" where
  "type_ops \<equiv> [OpCreate 0 \<lparr> cr_parent_ino = 1, cr_name = ''f'', cr_mode = 420, cr_uid = 0, cr_gid = 0 \<rparr>, OpSetAttr 0 chmod_req]"

lemma type_run:
  "attrs_guarded mode_kept (\<lambda>_ _. 0) [] type_ops (meta_new 0 2)"
  "meta_run (\<lambda>_ _. 0) [] type_ops (meta_new 0 2) = fst (meta_set_attr [] 0 chmod_req sample_state)"
  using sample_file(1) by (simp_all add: meta_run_def sample_state_def [symmetric] mode_kept_def new_file_inode_def)

theorem types_agree_witness:
  "\<exists>s resp e a fa. s = meta_run (\<lambda>_ _. 0) [] type_ops (meta_new 0 2)
     \<and> meta_read_dir \<lparr> rq_ino = 1, rq_cookie = [], rq_max_entries = 10 \<rparr> s = Ok resp \<and> rr_entries resp = [e]
     \<and> meta_get_attr 2 s = Ok a \<and> proto_attr_to_fuse a = Some fa \<and> fa_kind fa = proto_kind_to_fuse (de_kind e)"
proof -
  define s where "s = meta_run (\<lambda>_ _. 0) [] type_ops (meta_new 0 2)"
  let ?n = "(new_file_inode 0 (InodeId 2) \<lparr> cr_parent_ino = 1, cr_name = ''f'', cr_mode = 420, cr_uid = 0, cr_gid = 0 \<rparr>)
      \<lparr>i_mode := 33188, i_ctime := 0\<rparr>"
  have n: "inodes s (InodeId 2) = Some ?n"
    by (simp add: s_def type_run(2) meta_set_attr_def sample_file set_opt_def set_time_def Let_def ns_simps)
  have d: "dirs s (InodeId 1) = Some [(''f'', InodeId 2)]"
    by (simp add: s_def type_run(2) meta_set_attr_def sample_file set_opt_def set_time_def Let_def put_inode_def)
      (simp add: sample_state_def meta_create_def Let_def meta_new_def ROOT_def alloc_ino_def alloc_fh_def
        with_dir_def bt_contains_def put_inode_def)
  let ?e = "dir_entry_of s (''f'', InodeId 2)"
  obtain resp where rd: "meta_read_dir \<lparr> rq_ino = 1, rq_cookie = [], rq_max_entries = 10 \<rparr> s = Ok resp" "rr_entries resp = [?e]"
    using d by (simp add: meta_read_dir_def Let_def from_utf8_def)
  have ino: "de_ino ?e = 2" by (simp add: dir_entry_of_def)
  have a: "meta_get_attr (de_ino ?e) s = Ok (build_attr ?n)" unfolding ino using n by (simp add: meta_get_attr_def)
  obtain fa where fa: "proto_attr_to_fuse (build_attr ?n) = Some fa"
    by (simp add: new_file_inode_def build_attr_def time_parts_def proto_attr_to_fuse_def attr_time_def time_add_def
        duration_new_def representable_time_def nanos_per_sec_def Let_def)
  have "?e \<in> set (rr_entries resp)" using rd(2) by simp
  from types_agree [OF type_run(1) s_def rd(1) this a fa] show ?thesis
    using s_def rd a [unfolded ino] fa by blast
qed

section \<open>Placements\<close>

definition placement_ok :: "nat \<Rightarrow> block_placement \<Rightarrow> bool" where
  "placement_ok rf p \<longleftrightarrow> distinct (primary p # replicas p) \<and> length (primary p # replicas p) \<le> max 1 rf"

definition placements_ok :: "nat \<Rightarrow> inode \<Rightarrow> bool" where
  "placements_ok rf n \<longleftrightarrow> (\<forall>(idx, p) \<in> set (i_blocks n). placement_ok rf p)"

lemma place_block_ok:
  assumes "distinct live"
  shows "placement_ok rf (place_block xxh3 live rf ino idx)"
proof (cases "live = [] \<or> rf = 0")
  case True
  then show ?thesis by (auto simp: placement_ok_def place_block_def pick_nodes_def)
next
  case False
  have "primary (place_block xxh3 live rf ino idx) # replicas (place_block xxh3 live rf ino idx)
      = pick_nodes xxh3 \<lparr> bk_ino = ino, bk_block_idx = idx, bk_generation = Generation 0 \<rparr> live rf"
    using False by (intro place_block_nodes) simp_all
  then show ?thesis
    unfolding placement_ok_def by (simp only: pick_nodes_distinct [OF assms] pick_nodes_length) simp
qed

lemma set_bt_insert: "set (bt_insert k v m) \<subseteq> insert (k, v) (set m)"
  by (induction k v m rule: bt_insert.induct) auto

interpretation pl: inode_property "placements_ok rf" "\<lambda>_ _. True" "placement_ok rf" rf for rf
proof
  show "placements_ok rf n \<Longrightarrow> placement_ok rf p \<Longrightarrow> placements_ok rf (n\<lparr>i_blocks := bt_insert idx p (i_blocks n)\<rparr>)"
    for n p idx
    using set_bt_insert [of idx p "i_blocks n"] by (fastforce simp: placements_ok_def)
qed (auto simp: placements_ok_def place_block_ok root_inode_def new_file_inode_def new_dir_inode_def close_apply_def
    set_attr_fields_def set_size_def Let_def bt_retain_def)

lemma attrs_guarded_True [simp]: "attrs_guarded (\<lambda>_ _. True) xxh3 token ops s"
proof (induction ops arbitrary: s)
  case (Cons x xs)
  then show ?case by (cases x) (simp_all split: option.split)
qed simp

end
