(* ===== verification/System_Meta.thy ===== *)
theory System_Meta
  imports System_Props Meta_Inodes
begin

text \<open>
  The metadata server inside a running system.  Whatever clients, stores, background tasks
  and clocks do, the metadata server goes through a run of its own requests; so what the
  theories of the metadata server prove for every run holds in every reachable state of the
  whole system.
\<close>

section \<open>Runs of the metadata server in runs of the system\<close>

lemma meta_run_append: "meta_run xxh3 token (xs @ ys) s = meta_run xxh3 token ys (meta_run xxh3 token xs s)"
  by (simp add: meta_run_def)

text \<open>One request at most, and an inode number that has been handed out is not handed out again.\<close>

definition meta_moves :: "(string \<Rightarrow> u64 \<Rightarrow> u64) \<Rightarrow> renames \<Rightarrow> cluster \<Rightarrow> cluster \<Rightarrow> bool" where
  "meta_moves xxh3 G w w' \<longleftrightarrow> cw_token w' = cw_token w
     \<and> (\<exists>xs. length xs \<le> 1 \<and> (\<forall>x \<in> set xs. meta_guard G x (cw_meta w))
          \<and> cw_meta w' = meta_run xxh3 (cw_token w) xs (cw_meta w))"

lemma meta_moves_same: "cw_meta w' = cw_meta w \<Longrightarrow> cw_token w' = cw_token w \<Longrightarrow> meta_moves xxh3 G w w'"
  unfolding meta_moves_def by (intro conjI exI [of _ "[]"]) (simp_all add: meta_run_def)

lemma run_delete_task_meta:
  "cw_meta (run_delete_task t w) = cw_meta w" "cw_token (run_delete_task t w) = cw_token w"
  by (auto simp: run_delete_task_def to_store_def split: option.split prod.split)

lemma world_step_moves: "world_step xxh3 G w w' \<Longrightarrow> meta_moves xxh3 G w w'"
proof (induction rule: world_step.induct)
  case (serve x w)
  then show ?case
    unfolding meta_moves_def by (intro conjI exI [of _ "[x]"]) (simp_all add: serve_def meta_run_def)
qed (auto intro!: meta_moves_same simp: on_store_def run_delete_task_meta)

lemma world_meta_run:
  assumes "(world_step xxh3 G)\<^sup>*\<^sup>* w w'"
  shows "cw_token w' = cw_token w \<and> (\<exists>ops. cw_meta w' = meta_run xxh3 (cw_token w) ops (cw_meta w))"
  using assms
proof (induction rule: rtranclp_induct)
  case base
  have "cw_meta w = meta_run xxh3 (cw_token w) [] (cw_meta w)" by (simp add: meta_run_def)
  then show ?case by blast
next
  case (step v v')
  then obtain ops where ops: "cw_meta v = meta_run xxh3 (cw_token w) ops (cw_meta w)"
    and t: "cw_token v = cw_token w" by blast
  obtain xs where xs: "cw_meta v' = meta_run xxh3 (cw_token w) xs (cw_meta v)" and t': "cw_token v' = cw_token w"
    using world_step_moves [OF step(2)] t by (auto simp: meta_moves_def)
  have "cw_meta v' = meta_run xxh3 (cw_token w) (ops @ xs) (cw_meta w)" using ops xs by (simp add: meta_run_append)
  then show ?case using t' by blast
qed

lemma sys_meta_run:
  assumes "(sys_step xxh3 G D)\<^sup>*\<^sup>* (sys_new (world_new token now i rf)) S"
  shows "\<exists>ops. cw_meta (sys_world S) = meta_run xxh3 token ops (meta_new now rf)"
  using world_meta_run [OF sys_steps_simulated [OF assms sys_ok_new [OF world_ok_new]]]
  by (simp add: sys_new_def world_new_def)

section \<open>Inode numbers\<close>

definition gone :: "inode_id \<Rightarrow> meta_state \<Rightarrow> bool" where
  "gone i m \<longleftrightarrow> raw i < next_ino m \<and> inodes m i = None"

lemma gone_exec:
  assumes "gone i m" and "meta_guard G x m"
  shows "gone i (meta_exec xxh3 token x m)"
proof -
  have "raw i < next_ino (meta_exec xxh3 token x m)"
    using assms next_ino_guarded [OF assms(2), of xxh3 token] unfolding gone_def by (meson order_less_le_trans)
  moreover have "inodes (meta_exec xxh3 token x m) i = None"
  proof (rule ccontr)
    assume "inodes (meta_exec xxh3 token x m) i \<noteq> None"
    then show False using gen_exec [of m xxh3 token x] assms(1) unfolding gen_step_def gone_def by force
  qed
  ultimately show ?thesis by (simp add: gone_def)
qed

lemma gone_moves:
  assumes "meta_moves xxh3 G w w'" and "gone i (cw_meta w)"
  shows "gone i (cw_meta w')"
proof -
  obtain xs where xs: "length xs \<le> 1" "\<forall>x \<in> set xs. meta_guard G x (cw_meta w)"
    "cw_meta w' = meta_run xxh3 (cw_token w) xs (cw_meta w)" using assms(1) by (auto simp: meta_moves_def)
  then show ?thesis using assms(2) by (cases xs) (auto simp: meta_run_def intro: gone_exec)
qed

lemma gone_steps: "(world_step xxh3 G)\<^sup>*\<^sup>* w w' \<Longrightarrow> gone i (cw_meta w) \<Longrightarrow> gone i (cw_meta w')"
  by (induction rule: rtranclp_induct) (auto intro: gone_moves world_step_moves)

lemma next_ino_steps: "(world_step xxh3 G)\<^sup>*\<^sup>* w w' \<Longrightarrow> next_ino (cw_meta w) \<le> next_ino (cw_meta w')"
proof (induction rule: rtranclp_induct)
  case (step v v')
  obtain xs where xs: "length xs \<le> 1" "\<forall>x \<in> set xs. meta_guard G x (cw_meta v)"
    "cw_meta v' = meta_run xxh3 (cw_token v) xs (cw_meta v)" using world_step_moves [OF step(2)] by (auto simp: meta_moves_def)
  then have "next_ino (cw_meta v) \<le> next_ino (cw_meta v')"
    by (cases xs) (auto simp: meta_run_def intro: next_ino_guarded)
  with step.IH show ?case by (rule order_trans)
qed simp

text \<open>
  C33. A removed file never comes back.  Take three states of one run of the system, with any
  clients, any renames and any interleaving.  If an inode exists in the first and not in the
  second, then in the third no inode has its number and GetAttr for it fails with NotFound:
  a handle or a delete task that still names it cannot reach another file.  In runs in
  which every rename meets its conditions no directory entry names it either.  That part
  needs the condition: a rename of a file onto itself removes the inode and leaves its
  entry.
\<close>

theorem removed_file_stays_gone:
  assumes "(sys_step xxh3 G D)\<^sup>*\<^sup>* (sys_new (world_new token now t0 rf)) S0"
    and "(sys_step xxh3 G D)\<^sup>*\<^sup>* S0 S1" and "(sys_step xxh3 G D)\<^sup>*\<^sup>* S1 S2"
    and "inodes (cw_meta (sys_world S0)) i \<noteq> None" and "inodes (cw_meta (sys_world S1)) i = None"
  shows "inodes (cw_meta (sys_world S2)) i = None
    \<and> (\<exists>msg. meta_get_attr (raw i) (cw_meta (sys_world S2)) = Err (Status NotFound msg))
    \<and> ((\<forall>r m. G r m \<longrightarrow> rename_safe r m) \<longrightarrow> (\<forall>p name. entry (cw_meta (sys_world S2)) p name \<noteq> Some i))"
proof -
  have run: "(sys_step xxh3 G D)\<^sup>*\<^sup>* (sys_new (world_new token now t0 rf)) S2" using assms(1-3) by simp
  have ok: "sys_ok S0" "sys_ok S1"
    using sys_ok_steps [OF assms(1) sys_ok_new [OF world_ok_new]] sys_ok_steps assms(2) by blast+
  then have wf: "inodes_wf (cw_meta (sys_world S0))"
    by (simp add: sys_ok_def world_ok_def meta_wf_def)
  have "raw i < next_ino (cw_meta (sys_world S0))" using wf assms(4) by (auto simp: inodes_wf_def)
  then have "gone i (cw_meta (sys_world S1))"
    using next_ino_steps [OF sys_steps_simulated [OF assms(2) ok(1)]] assms(5)
    unfolding gone_def by (meson order_less_le_trans)
  from gone_steps [OF sys_steps_simulated [OF assms(3) ok(2)] this]
  have none: "inodes (cw_meta (sys_world S2)) i = None" by (simp add: gone_def)
  have "entry (cw_meta (sys_world S2)) p name \<noteq> Some i" if "\<forall>r m. G r m \<longrightarrow> rename_safe r m" for p name
    using ns_ok_edge [OF sys_tree [OF run], of p name i] that none by (auto simp: ns_simps)
  moreover have "InodeId (raw i) = i" by (cases i) simp
  ultimately show ?thesis using none by (simp add: meta_get_attr_def not_found_def)
qed

text \<open>A run of the servers is a run of a system without clients.\<close>

lemma sys_of_world: "(world_step xxh3 G)\<^sup>*\<^sup>* w w' \<Longrightarrow> (sys_step xxh3 G D)\<^sup>*\<^sup>* (sys_new w) (sys_new w')"
proof (induction rule: rtranclp_induct)
  case (step v v')
  have "sys_step xxh3 G D (sys_new v) (sys_new v')"
    using sys_step.servers [of xxh3 G "sys_new v" v'] step(2) by (simp add: sys_new_def)
  with step.IH show ?case by (rule rtranclp.rtrancl_into_rtrancl)
qed simp

theorem removed_file_stays_gone_witness:
  "\<exists>m m'. dirs m (InodeId 1) = Some [] \<and> m' = fst (meta_create 0
      \<lparr> cr_parent_ino = 1, cr_name = ''f'', cr_mode = 420, cr_uid = 0, cr_gid = 0 \<rparr> m)
     \<and> inodes pub_meta2 (InodeId 2) \<noteq> None \<and> inodes m (InodeId 2) = None \<and> inodes m' (InodeId 2) = None
     \<and> (\<forall>p name. entry m' p name \<noteq> Some (InodeId 2))"
proof -
  let ?x = "OpCreate 0 \<lparr> cr_parent_ino = 1, cr_name = ''f'', cr_mode = 420, cr_uid = 0, cr_gid = 0 \<rparr>"
  obtain m where m: "world_step (\<lambda>_ _. 0) rename_safe (late_world pub_meta2 []) (late_world m [late_task])"
    "dirs m (InodeId 1) = Some []" "inodes m (InodeId 2) = None" and "counters_ok m" using late_world_step by blast
  then have "world_step (\<lambda>_ _. 0) rename_safe (late_world m [late_task]) (late_world (meta_exec (\<lambda>_ _. 0) ''t'' ?x m) [late_task])"
    using world_step.serve [of rename_safe ?x "late_world m [late_task]" "\<lambda>_ _. 0"] by (simp add: serve_def late_world_def world_new_def)
  note runs = sys_of_world [where D = 0, OF pub_world_reached] sys_of_world [where D = 0, OF r_into_rtranclp, OF m(1)] sys_of_world [where D = 0, OF r_into_rtranclp, OF this]
  have "inodes pub_meta2 (InodeId 2) \<noteq> None" by (simp add: pub_meta2_def ns_simps pub_meta_simps sample_file)
  with removed_file_stays_gone [OF runs, of "InodeId 2"] m show ?thesis
    by (auto simp: sys_new_def late_world_def)
qed

section \<open>Handles\<close>










lemma to_store_meta [simp]: "cw_meta (snd (to_store a md h w)) = cw_meta w"
  by (simp add: to_store_def split: option.split prod.split)







section \<open>Placements\<close>

text \<open>
  C26. Replicas are on different nodes, always.  In every reachable state of the system each
  block placement of each file names a primary and replicas that are all different, and
  no more nodes than the replication factor the metadata server was started with (one
  node when the factor is zero).
\<close>

theorem system_replicas_apart:
  assumes "(sys_step xxh3 G D)\<^sup>*\<^sup>* (sys_new (world_new token now i rf)) S"
    and "inodes (cw_meta (sys_world S)) ino = Some n" and "(idx, p) \<in> set (i_blocks n)"
  shows "distinct (primary p # replicas p) \<and> length (primary p # replicas p) \<le> max 1 rf"
proof -
  obtain ops where "cw_meta (sys_world S) = meta_run xxh3 token ops (meta_new now rf)"
    using sys_meta_run [OF assms(1)] by blast
  then have "placements_ok rf n"
    using pl.all_run_new [of xxh3 token ops now rf] assms(2) by (simp add: inodes_all_def)
  then show ?thesis using assms(3) unfolding placements_ok_def placement_ok_def by blast
qed

theorem system_replicas_apart_witness:
  "(sys_step (\<lambda>_ _. 0) rename_safe 0)\<^sup>*\<^sup>* (sys_new (world_new ''t'' 0 0 2)) (sys_new (late_world pub_meta2 []))
   \<and> (\<exists>n. inodes pub_meta2 (InodeId 2) = Some n \<and> (BlockIdx 0, pub_place) \<in> set (i_blocks n))
   \<and> distinct (primary pub_place # replicas pub_place)"
proof -
  note run = sys_of_world [where D = 0, OF pub_world_reached]
  obtain n where n: "inodes pub_meta2 (InodeId 2) = Some n" "i_blocks n = [(BlockIdx 0, pub_place)]"
    by (simp add: pub_meta2_def ns_simps pub_meta_simps sample_file new_file_inode_def)
  have "inodes (cw_meta (sys_world (sys_new (late_world pub_meta2 [])))) (InodeId 2) = Some n"
    by (simp add: sys_new_def late_world_def n(1))
  from system_replicas_apart [OF run this, of "BlockIdx 0" pub_place] n run show ?thesis by simp
qed

end
