(* ===== verification/Publish_Live.thy ===== *)
theory Publish_Live
  imports Sessions
begin

text \<open>
  That a publish succeeds.  The theorems on publishing elsewhere say what holds when it has
  replied Ok; here are conditions on the cluster under which it does reply Ok: the writer's
  generation is current, the metadata server lists live nodes, each of them can be reached
  and has room for what is to be written, and the clocks show times after 1970.
\<close>

section \<open>Times\<close>

definition clock_ok :: "system_time \<Rightarrow> bool" where
  "clock_ok t \<longleftrightarrow> 0 \<le> t \<and> t < 2 ^ 63 * 1000000000"

lemma max0_of_nat: "n < 2 ^ 63 \<Longrightarrow> max0 (of_nat n) = of_nat n"
  by (simp add: max0_def signed_of_nat signed_take_bit_int_eq_self)

lemma duration_parts:
  assumes "n < 2 ^ 63 * 1000000000"
  shows "duration_new (of_nat (n div nanos_per_sec)) (of_nat (n mod nanos_per_sec)) = n"
proof -
  have "n div nanos_per_sec < 2 ^ 63" using assms by (simp add: nanos_per_sec_def less_mult_imp_div_less)
  then have s: "unat (of_nat (n div nanos_per_sec) :: u64) = n div nanos_per_sec" by (intro unat_of_nat_u64) simp
  have "n mod nanos_per_sec < 2 ^ 32" by (rule less_trans [of _ nanos_per_sec]) (simp_all add: nanos_per_sec_def)
  then have "unat (of_nat (n mod nanos_per_sec) :: u32) = n mod nanos_per_sec"
    by (simp add: unat_of_nat take_bit_nat_eq_self)
  with s show ?thesis by (simp add: duration_new_def)
qed

lemma unix_time_parts:
  assumes "clock_ok t"
  shows "unix_time (fst (time_parts t)) (snd (time_parts t)) = Some t"
proof -
  have n: "nat t < 2 ^ 63 * 1000000000" "int (nat t) = t" using assms by (auto simp: clock_ok_def)
  then have "nat t div nanos_per_sec < 2 ^ 63" by (simp add: nanos_per_sec_def less_mult_imp_div_less)
  then show ?thesis
    using duration_parts [OF n(1)] n(2) assms
    by (simp add: unix_time_def time_parts_def Let_def max0_of_nat time_add_def representable_time_def clock_ok_def)
qed

lemma time_sub_clock: "clock_ok t \<Longrightarrow> \<exists>fl. time_sub t (60 * nanos_per_sec) = Some fl"
  by (simp add: time_sub_def Let_def representable_time_def clock_ok_def nanos_per_sec_def)

section \<open>Room in the stores\<close>

definition store_room :: "nat \<Rightarrow> store_state \<Rightarrow> bool" where
  "store_room b st \<longleftrightarrow> store_wf st \<and> unat (ram_budget st) < 2 ^ 63 \<and> held_bytes st + b \<le> unat (ram_budget st)
     \<and> (\<forall>l hw. high_water st l = Some hw \<longrightarrow> hw = Generation 0)"

lemma store_room_mono: "store_room b st \<Longrightarrow> c \<le> b \<Longrightarrow> store_room c st"
  by (simp add: store_room_def)

lemma room_write:
  assumes room: "store_room b st" and len: "length data \<le> b"
    and r: "r = \<lparr> wb_key = Some (write_key ino idx), wb_data = data \<rparr>"
  shows "\<exists>v. snd (store_write_block r st) = Ok v \<and> store_room (b - length data) (fst (store_write_block r st))"
proof -
  let ?k = "proto_key_to_block_key (write_key ino idx)"
  have wf: "store_wf st" and cap: "unat (ram_budget st) < 2 ^ 63" and fits: "held_bytes st + b \<le> unat (ram_budget st)"
    and hw: "\<forall>l hw. high_water st l = Some hw \<longrightarrow> hw = Generation 0"
    using room by (simp_all add: store_room_def)
  have small: "unat (ram_budget st) + length data < 2 ^ 64" using cap fits len by simp
  have u: "unat (byte_len data) = length data" using small by (intro unat_byte_len) simp
  have "unat (ram_used st + byte_len data) = held_bytes st + length data"
    using wf u fits len cap by (simp add: store_wf_def unat_word_ariths)
  then have "ram_used st + byte_len data \<le> ram_budget st" using fits len by (simp add: word_le_nat_alt)
  then have adm: "write_admit ?k data st = Ok ()"
    using hw by (auto simp: write_admit_Ok proto_key_to_block_key_def write_key_def split: option.split)
  have wr: "store_write_block r st = (write_commit ?k data st, Ok (ucast (byte_len data)))"
    using adm by (simp add: r store_write_block_def)
  have "store_wf (write_commit ?k data st)" by (rule write_commit_wf [OF wf adm small])
  moreover have "held_bytes (write_commit ?k data st) + (b - length data) \<le> unat (ram_budget st)"
    using held_write_commit [of st ?k data] wf fits len by (simp add: store_wf_def)
  moreover have "\<forall>l hw. high_water (write_commit ?k data st) l = Some hw \<longrightarrow> hw = Generation 0"
    using hw by (auto simp: high_water_write_commit proto_key_to_block_key_def write_key_def split: option.splits if_splits)
  ultimately show ?thesis using cap wr by (simp add: store_room_def)
qed

text \<open>Every address in use has a store with room for \<open>b\<close> more bytes.\<close>

definition cluster_room :: "(node_id, string) hmap \<Rightarrow> nat \<Rightarrow> cluster \<Rightarrow> bool" where
  "cluster_room M b w \<longleftrightarrow> (\<forall>nid a. hm_get M nid = Some a \<longrightarrow> (\<exists>st. cw_stores w a = Some st \<and> store_room b st))"

text \<open>A client that can write: its pool and token are right, its cluster has room.\<close>

definition can_write :: "(node_id, string) hmap \<Rightarrow> nat \<Rightarrow> cluster fs \<Rightarrow> bool" where
  "can_write M b s \<longleftrightarrow> pool_ok M s \<and> fs_token s = cw_token (fs_world s) \<and> cluster_room M b (fs_world s)"

lemma can_write_mono: "can_write M b s \<Longrightarrow> c \<le> b \<Longrightarrow> can_write M c s"
  unfolding can_write_def cluster_room_def by (meson store_room_mono)

lemma pool_get_can_write:
  assumes "can_write M b s" and "hm_get M n = Some a"
  shows "\<exists>s1. pool_get (direct xxh3) n s = (Ok a, s1) \<and> can_write M b s1 \<and> fs_world s1 = fs_world s"
proof (cases "fs_clients s n")
  case None
  obtain st where "cw_stores (fs_world s) a = Some st" using assms by (auto simp: can_write_def cluster_room_def)
  then show ?thesis
    using assms None by (auto simp: pool_get_def can_write_def pool_ok_def direct_simps Let_def)
next
  case (Some c)
  then show ?thesis using assms by (auto simp: pool_get_def can_write_def pool_ok_def)
qed

lemma send_block_succeeds:
  assumes can: "can_write M b s" and n: "hm_get M n = Some a" and len: "length data \<le> b"
  shows "\<exists>s'. send_block (direct xxh3) ino idx n a data s = (Ok (), s') \<and> can_write M (b - length data) s'"
proof -
  let ?r = "\<lparr> wb_key = Some (write_key ino idx), wb_data = data \<rparr>"
  obtain st where st: "cw_stores (fs_world s) a = Some st" and room: "store_room b st"
    using can n by (auto simp: can_write_def cluster_room_def)
  obtain v where v: "snd (store_write_block ?r st) = Ok v" and room': "store_room (b - length data) (fst (store_write_block ?r st))"
    using room_write [OF room len refl] by blast
  let ?s2 = "s\<lparr>fs_world := (fs_world s)\<lparr>cw_stores := (cw_stores (fs_world s))(a \<mapsto> fst (store_write_block ?r st))\<rparr>\<rparr>"
  have tok: "cw_token (fs_world s) = fs_token s" using can by (simp add: can_write_def)
  have call: "to_store a [''cluster-token'' \<mapsto> fs_token s] (store_write_block ?r) (fs_world s) = (Inr v, fs_world ?s2)"
    by (simp add: to_store_token [OF st tok] v rpc_of_def)
  have "authed_call (direct xxh3) (\<lambda>md. t_write_block (direct xxh3) a md ?r) s = (Ok v, ?s2)"
    using authed_call_eq [of "direct xxh3" s "fs_token s" _ "\<lambda>md. t_write_block (direct xxh3) a md ?r", OF _ refl]
    by (simp add: direct_simps call)
  then have "send_block (direct xxh3) ino idx n a data s = (Ok (), ?s2)" by (simp add: send_block_def)
  moreover have "can_write M (b - length data) ?s2"
    using can_write_mono [OF can, of "b - length data"] room'
    by (auto simp: can_write_def pool_ok_def cluster_room_def)
  ultimately show ?thesis by blast
qed

text \<open>
  The fan-out under these conditions.  A future is up when the nodes it has left are
  reachable; \<open>future_need\<close> and \<open>fan_need\<close> are the bytes still to be written, with at
  most \<open>k\<close> copies of the blocks that have not started.
\<close>

definition placed_up :: "(node_id, string) hmap \<Rightarrow> nat \<Rightarrow> block_placement \<Rightarrow> bool" where
  "placed_up M k p \<longleftrightarrow> (\<forall>n \<in> set (primary p # replicas p). hm_get M n \<noteq> None) \<and> Suc (length (replicas p)) \<le> k"

fun future_up :: "(node_id, string) hmap \<Rightarrow> write_future \<Rightarrow> bool" where
  "future_up M WMissing \<longleftrightarrow> False"
| "future_up M (WGet idx buf ns) \<longleftrightarrow> (\<forall>n \<in> set ns. hm_get M n \<noteq> None)"
| "future_up M (WSend idx buf n c ns) \<longleftrightarrow> hm_get M n = Some c \<and> (\<forall>n \<in> set ns. hm_get M n \<noteq> None)"

fun future_need :: "write_future \<Rightarrow> nat" where
  "future_need WMissing = 0"
| "future_need (WGet idx buf ns) = length ns * length buf"
| "future_need (WSend idx buf n c ns) = Suc (length ns) * length buf"

fun dirty_bytes :: "(block_idx \<times> bytes) list \<Rightarrow> nat" where
  "dirty_bytes [] = 0"
| "dirty_bytes (blk # blks) = length (snd blk) + dirty_bytes blks"

definition fan_need :: "nat \<Rightarrow> fanout \<Rightarrow> nat" where
  "fan_need k F = k * dirty_bytes (fo_waiting F) + (\<Sum>f\<leftarrow>fo_running F. future_need f)"

lemma dirty_bytes_append: "dirty_bytes (xs @ ys) = dirty_bytes xs + dirty_bytes ys"
  by (induction xs) simp_all

lemma future_step_up:
  assumes step: "future_step (direct xxh3) ino f s = (q, s1)" and up: "future_up M f"
    and can: "can_write M (future_need f + b) s"
  shows "case q of Goes f' \<Rightarrow> future_up M f' \<and> can_write M (future_need f' + b) s1 | Ends r \<Rightarrow> r = Ok () \<and> can_write M b s1"
proof (cases f)
  case (WGet idx buf ns)
  show ?thesis
  proof (cases ns)
    case Nil
    then show ?thesis using assms WGet by auto
  next
    case (Cons n ns')
    then obtain a where "hm_get M n = Some a" using up WGet by auto
    with pool_get_can_write [OF can this, of xxh3] show ?thesis
      using assms WGet Cons by auto
  qed
next
  case (WSend idx buf n c ns)
  then have n: "hm_get M n = Some c" and len: "length buf \<le> future_need f + b" using up by simp_all
  with send_block_succeeds [OF can n len, of xxh3 ino idx] show ?thesis
    using assms WSend by (auto simp: add.assoc)
qed (use up in simp)

lemma start_future_up:
  assumes "bt_get bm (fst blk) = Some p" and "placed_up M k p"
  shows "future_up M (start_future wait bm blk) \<and> future_need (start_future wait bm blk) \<le> k * length (snd blk)"
proof -
  have "length (synced wait p) \<le> k" "\<forall>n \<in> set (synced wait p). hm_get M n \<noteq> None"
    using assms(2) by (auto simp: placed_up_def synced_def split: wait_policy.split)
  then show ?thesis using assms(1) by (cases blk) (simp add: start_future_def)
qed

definition fan_up :: "(node_id, string) hmap \<Rightarrow> nat \<Rightarrow> (block_idx, block_placement) btree \<Rightarrow> fanout \<Rightarrow> cluster fs \<Rightarrow> bool" where
  "fan_up M k bm F s \<longleftrightarrow> can_write M (fan_need k F) s \<and> (\<forall>f \<in> set (fo_running F). future_up M f)
     \<and> (\<forall>blk \<in> set (fo_waiting F). \<exists>p. bt_get bm (fst blk) = Some p \<and> placed_up M k p)"

lemma start_all_need:
  "\<forall>blk \<in> set blks. \<exists>p. bt_get bm (fst blk) = Some p \<and> placed_up M k p
     \<Longrightarrow> (\<Sum>blk\<leftarrow>blks. future_need (start_future wait bm blk)) \<le> k * dirty_bytes blks"
  using start_future_up by (induction blks) (force simp: add_mult_distrib2 intro: add_mono)+

lemma fan_up_fill:
  assumes "fan_up M k bm F s"
  shows "fan_up M k bm (fan_fill wait bm F) s"
proof -
  let ?n = "max_in_flight - length (fo_running F)"
  let ?t = "take ?n (fo_waiting F)" and ?d = "drop ?n (fo_waiting F)"
  have "\<forall>blk \<in> set (?t @ ?d). \<exists>p. bt_get bm (fst blk) = Some p \<and> placed_up M k p"
    using assms by (simp add: fan_up_def)
  then have placed: "\<forall>blk \<in> set ?t. \<exists>p. bt_get bm (fst blk) = Some p \<and> placed_up M k p"
    "\<forall>blk \<in> set ?d. \<exists>p. bt_get bm (fst blk) = Some p \<and> placed_up M k p"
    unfolding set_append by blast+
  have "dirty_bytes (fo_waiting F) = dirty_bytes ?t + dirty_bytes ?d"
    unfolding dirty_bytes_append [symmetric] by simp
  then have "fan_need k (fan_fill wait bm F) \<le> fan_need k F"
    using start_all_need [OF placed(1), of wait] by (simp add: fan_need_def fan_fill_sel comp_def add_mult_distrib2)
  then have "can_write M (fan_need k (fan_fill wait bm F)) s" using assms can_write_mono by (auto simp: fan_up_def)
  moreover have "\<forall>f \<in> set (fo_running (fan_fill wait bm F)). future_up M f"
  proof
    fix f assume "f \<in> set (fo_running (fan_fill wait bm F))"
    then have "f \<in> set (fo_running F) \<or> (\<exists>blk \<in> set ?t. f = start_future wait bm blk)" by (auto simp: fan_fill_sel)
    then show "future_up M f" using assms placed(1) start_future_up by (fastforce simp: fan_up_def)
  qed
  moreover have "\<forall>blk \<in> set (fo_waiting (fan_fill wait bm F)). \<exists>p. bt_get bm (fst blk) = Some p \<and> placed_up M k p"
    using placed(2) by (simp add: fan_fill_sel)
  ultimately show ?thesis by (simp add: fan_up_def)
qed

lemma fan_up_step:
  assumes "fan_up M k bm F s" and i: "i < length (fo_running F)"
    and step: "future_step (direct xxh3) ino (fo_running F ! i) s = (q, s1)"
  shows "case q of Goes f \<Rightarrow> fan_up M k bm (F\<lparr>fo_running := (fo_running F)[i := f]\<rparr>) s1
    | Ends r \<Rightarrow> r = Ok () \<and> fan_up M k bm (F\<lparr>fo_running := remove_nth i (fo_running F), fo_tasks := ts\<rparr>) s1"
proof -
  let ?b = "k * dirty_bytes (fo_waiting F) + (\<Sum>f\<leftarrow>remove_nth i (fo_running F). future_need f)"
  have "fan_need k F = future_need (fo_running F ! i) + ?b"
    using sum_list_split_nth [OF i, of future_need] by (simp add: fan_need_def)
  then have can: "can_write M (future_need (fo_running F ! i) + ?b) s" and up: "future_up M (fo_running F ! i)"
    using assms(1) i by (simp_all add: fan_up_def)
  note st = future_step_up [OF step up can]
  have rest: "\<forall>f \<in> set (remove_nth i (fo_running F)). future_up M f"
    "\<forall>blk \<in> set (fo_waiting F). \<exists>p. bt_get bm (fst blk) = Some p \<and> placed_up M k p"
    using assms(1) subsetD [OF set_remove_nth [of i "fo_running F"]] by (simp_all add: fan_up_def)
  show ?thesis
  proof (cases q)
    case (Goes f)
    have need: "fan_need k (F\<lparr>fo_running := (fo_running F)[i := f]\<rparr>) = future_need f + ?b"
      using sum_list_split_nth [of i "(fo_running F)[i := f]" future_need] i by (simp add: fan_need_def remove_nth_update)
    have "set ((fo_running F)[i := f]) = insert f (set (remove_nth i (fo_running F)))"
      using set_nth_remove [of i "(fo_running F)[i := f]"] i by (simp add: remove_nth_update)
    then show ?thesis using st Goes rest need by (simp add: fan_up_def)
  next
    case (Ends r)
    then show ?thesis using st rest by (simp add: fan_up_def fan_need_def)
  qed
qed

lemma write_all_succeeds:
  assumes can: "can_write M (k * dirty_bytes blks) s"
    and placed: "\<forall>blk \<in> set blks. \<exists>p. bt_get bm (fst blk) = Some p \<and> placed_up M k p"
  shows "\<exists>ts s'. write_all (direct xxh3) wait ino bm pick blks s = (Ok (), ts, s') \<and> can_write M 0 s'"
proof -
  obtain r ts s' where w: "write_all (direct xxh3) wait ino bm pick blks s = (r, ts, s')" by (metis prod_cases3)
  have "r = Ok () \<and> can_write M 0 s'"
  proof (rule fan_out_rule [OF w [unfolded write_all_def], where I = "fan_up M k bm"])
    show "fan_up M k bm \<lparr> fo_waiting = blks, fo_running = [], fo_tasks = [] \<rparr> s"
      using assms by (simp add: fan_up_def fan_need_def)
    fix F t i s1
    assume ok: "fan_up M k bm F t" and i: "i < length (fo_running F)"
    {
      fix f assume "future_step (direct xxh3) ino (fo_running F ! i) t = (Goes f, s1)"
      from fan_up_step [OF ok i this] show "fan_up M k bm (F\<lparr>fo_running := (fo_running F)[i := f]\<rparr>) s1" by simp
    next
      fix u assume "future_step (direct xxh3) ino (fo_running F ! i) t = (Ends (Ok u), s1)"
      from fan_up_step [OF ok i this]
      show "fan_up M k bm (F\<lparr>fo_running := remove_nth i (fo_running F), fo_tasks := fo_tasks F @ spawned wait ino bm (fo_running F ! i)\<rparr>) s1"
        by simp
    next
      fix e :: "(unit, dtmpfs_error) result"
      assume "future_step (direct xxh3) ino (fo_running F ! i) t = (Ends e, s1)" "e \<noteq> Ok ()"
      with fan_up_step [OF ok i this(1)] show "e = Ok () \<and> can_write M 0 s1" by simp
    }
  next
    fix F t assume "fan_up M k bm F t"
    then show "fan_up M k bm (fan_fill wait bm F) t" by (rule fan_up_fill)
    show "Ok () = Ok () \<and> can_write M 0 t" if "fo_waiting F = []"
      using \<open>fan_up M k bm F t\<close> can_write_mono by (auto simp: fan_up_def)
  qed
  with w show ?thesis by blast
qed

section \<open>Placements\<close>

lemma live_addrs_node: "hm_get (live_addrs m) nid \<noteq> None \<longleftrightarrow> nid \<in> set (live_nodes m)"
proof -
  have id: "NodeId (as_str n) = n" for n by (cases n) simp
  show ?thesis
    unfolding live_addrs_def addr_map_of_def hm_get_collect live_nodes_def
    by (auto simp: map_of_eq_None_iff node_info_to_proto_def id image_comp comp_def)
qed

lemma place_block_up:
  assumes "live_nodes m \<noteq> []" and "0 < replication_factor m"
  shows "placed_up (live_addrs m) (replication_factor m)
    (place_block xxh3 (live_nodes m) (replication_factor m) ino idx)"
proof -
  let ?p = "place_block xxh3 (live_nodes m) (replication_factor m) ino idx"
  let ?L = "pick_nodes xxh3 \<lparr> bk_ino = ino, bk_block_idx = idx, bk_generation = Generation 0 \<rparr> (live_nodes m) (replication_factor m)"
  have L: "primary ?p # replicas ?p = ?L" by (rule place_block_nodes [OF assms])
  have "length (primary ?p # replicas ?p) \<le> replication_factor m" unfolding L by (simp add: pick_nodes_length)
  moreover have "set (primary ?p # replicas ?p) \<subseteq> set (live_nodes m)" unfolding L by (rule pick_nodes_subset)
  ultimately show ?thesis using live_addrs_node by (auto simp: placed_up_def)
qed

text \<open>The placements of an open file after it has taken over the blocks just allocated.\<close>

lemma allocated_placements:
  fixes f :: open_file
  defines "new \<equiv> map raw_idx (filter (\<lambda>i. \<not> bt_contains (of_block_map f) i) (map fst (of_dirty f)))"
  assumes idx: "idx \<in> fst ` set (of_dirty f)" and ag: "maps_agree f n"
    and b: "b = alloc_blocks g (map BlockIdx new) (i_blocks n)"
  shows "bt_get (fold insert_loc (map (\<lambda>i. placement_to_block_loc (BlockIdx i) (the (bt_get b (BlockIdx i)))) new) (of_block_map f)) idx
    = Some (case bt_get (of_block_map f) idx of None \<Rightarrow> g idx | Some p \<Rightarrow> p)"
proof (cases "bt_get (of_block_map f) idx")
  case None
  have mem: "raw_idx idx \<in> set new" using None idx by (force simp: bt_contains_def new_def)
  moreover have "bt_get (i_blocks n) idx = None" using ag None by (simp add: maps_agree_def)
  moreover have "idx \<in> set (map BlockIdx new)" using mem by (cases idx) force
  ultimately have "bt_get b idx = Some (g idx)" unfolding b bt_get_alloc_blocks by simp
  then show ?thesis using mem None by (simp add: fold_insert_locs [where g = "\<lambda>i. the (bt_get b i)"])
next
  case (Some p)
  have "raw_idx idx \<notin> set new"
  proof
    assume "raw_idx idx \<in> set new"
    then obtain i where "raw_idx i = raw_idx idx" "\<not> bt_contains (of_block_map f) i" by (auto simp: new_def)
    then show False using Some by (cases i; cases idx) (simp add: bt_contains_def)
  qed
  then show ?thesis using Some by (simp add: fold_insert_locs [where g = "\<lambda>i. the (bt_get b i)"])
qed

text \<open>
  Step 1 of a publish: the blocks without a placement get one on live nodes, everything
  else stays.
\<close>

lemma publish_allocate_succeeds:
  assumes tok: "fs_token s = cw_token (fs_world s)" and m: "m = cw_meta (fs_world s)"
    and n: "inodes m (of_ino f) = Some n" and ag: "maps_agree f n"
    and live: "live_nodes m \<noteq> []" and rf: "0 < replication_factor m" "replication_factor m \<le> k"
    and up: "\<forall>idx p. bt_get (of_block_map f) idx = Some p \<longrightarrow> idx \<in> fst ` set (of_dirty f) \<longrightarrow> placed_up (live_addrs m) k p"
  shows "\<exists>f1 s2 n2. publish_allocate (direct xxh3) f s = (Ok f1, s2) \<and> of_dirty f1 = of_dirty f \<and> of_ino f1 = of_ino f
    \<and> of_generation f1 = of_generation f
    \<and> s2 = s\<lparr>fs_world := (fs_world s)\<lparr>cw_meta := put_inode (of_ino f) n2 m\<rparr>\<rparr> \<and> i_generation n2 = i_generation n
    \<and> (\<forall>idx \<in> fst ` set (of_dirty f). \<exists>p. bt_get (of_block_map f1) idx = Some p \<and> placed_up (live_addrs m) k p)"
proof -
  let ?new = "map raw_idx (filter (\<lambda>i. \<not> bt_contains (of_block_map f) i) (map fst (of_dirty f)))"
  let ?r = "\<lparr> al_ino = raw (of_ino f), al_block_idxs = ?new \<rparr>"
  have placed: "placed_up (live_addrs m) k (place_block xxh3 (live_nodes m) (replication_factor m) ino idx)" for ino idx
    using place_block_up [OF live rf(1), of xxh3 ino idx] rf(2) by (simp add: placed_up_def)
  show ?thesis
  proof (cases "?new = []")
    case True
    then have "\<forall>idx \<in> fst ` set (of_dirty f). bt_get (of_block_map f) idx \<noteq> None"
      by (auto simp: filter_empty_conv bt_contains_def)
    then have "\<forall>idx \<in> fst ` set (of_dirty f). \<exists>p. bt_get (of_block_map f) idx = Some p \<and> placed_up (live_addrs m) k p"
      using up by blast
    moreover have "put_inode (of_ino f) n m = m" using n by (simp add: put_inode_same)
    ultimately show ?thesis
      using True m by (intro exI [of _ f] exI [of _ s] exI [of _ n]) (simp add: publish_allocate_def)
  next
    case False
    have ino: "InodeId (raw (of_ino f)) = of_ino f" by (cases "of_ino f") simp
    define g where "g = place_block xxh3 (live_nodes m) (replication_factor m) (InodeId (al_ino ?r))"
    define b where "b = alloc_blocks g (map BlockIdx (al_block_idxs ?r)) (i_blocks n)"
    have "inodes m (InodeId (al_ino ?r)) = Some n" using n by (simp add: ino)
    note eq = meta_allocate_blocks_eq [OF this g_def b_def]
    let ?locs = "map (\<lambda>i. placement_to_block_loc (BlockIdx i) (the (bt_get b (BlockIdx i)))) ?new"
    let ?s2 = "s\<lparr>fs_world := (fs_world s)\<lparr>cw_meta := put_inode (of_ino f) (n\<lparr>i_blocks := b\<rparr>) m\<rparr>\<rparr>"
    have "authed_call (direct xxh3) (\<lambda>md. t_allocate (direct xxh3) md ?r) s = (Ok ?locs, ?s2)"
      using authed_call_meta_eq [OF tok, of "\<lambda>md. t_allocate (direct xxh3) md ?r" "meta_allocate_blocks xxh3 ?r" xxh3] eq m
      by (simp add: direct_simps rpc_of_def ino)
    then have al: "publish_allocate (direct xxh3) f s = (Ok (f\<lparr>of_block_map := fold insert_loc ?locs (of_block_map f)\<rparr>), ?s2)"
      using False by (simp add: publish_allocate_def Let_def)
    have "\<exists>p. bt_get (fold insert_loc ?locs (of_block_map f)) idx = Some p \<and> placed_up (live_addrs m) k p"
      if idx: "idx \<in> fst ` set (of_dirty f)" for idx
    proof -
      have "b = alloc_blocks g (map BlockIdx ?new) (i_blocks n)" by (simp add: b_def)
      from allocated_placements [OF idx ag this] show ?thesis
        using up idx placed by (auto simp: g_def split: option.splits)
    qed
    then show ?thesis
      using al by (intro exI [of _ "f\<lparr>of_block_map := fold insert_loc ?locs (of_block_map f)\<rparr>"] exI [of _ ?s2]
          exI [of _ "n\<lparr>i_blocks := b\<rparr>"]) simp
  qed
qed

section \<open>The publish\<close>

lemma publish_addrs_succeeds:
  assumes "fs_token s = cw_token (fs_world s)"
  shows "publish_addrs (direct xxh3) s = (Ok (), s\<lparr>fs_addrs := live_addrs (cw_meta (fs_world s))\<rparr>)"
proof -
  let ?m = "cw_meta (fs_world s)"
  have "authed_call (direct xxh3) (t_list_nodes (direct xxh3)) s
      = (Ok (map node_info_to_proto (filter (\<lambda>n. ni_status n = Up) (map snd (nodes ?m)))), s)"
    using authed_call_meta_eq [OF assms, of "t_list_nodes (direct xxh3)" "\<lambda>m. (m, meta_list_nodes m)" xxh3]
    by (simp add: direct_simps meta_list_nodes_def rpc_of_def)
  then show ?thesis by (simp add: publish_addrs_def refresh_addrs_def live_addrs_def)
qed

lemma publish_close_succeeds:
  assumes tok: "fs_token s = cw_token (fs_world s)" and idxs: "idxs \<noteq> []"
    and h: "open_handles (cw_meta (fs_world s)) fh = Some h" "oh_ino h = of_ino f"
    and n: "inodes (cw_meta (fs_world s)) (of_ino f) = Some n" "i_generation n = of_generation f"
    and clock: "clock_ok (cw_now (fs_world s))"
  shows "\<exists>s'. publish_close (direct xxh3) fh idxs f s = (Ok (), s')"
proof -
  let ?w = "fs_world s" and ?now = "time_parts (cw_now (fs_world s))"
  let ?r = "\<lparr> cl_fh = fh, cl_ino = raw (of_ino f), cl_expected_generation = raw_gen (of_generation f),
      cl_new_size = of_size_hint f, cl_written_block_idxs = idxs, cl_mtime_s = fst ?now, cl_mtime_ns = snd ?now \<rparr>"
  have gen: "Generation (raw_gen g) = g" for g by (cases g) simp
  obtain fl where fl: "time_sub (cw_now ?w) (60 * nanos_per_sec) = Some fl" using time_sub_clock [OF clock] by blast
  obtain m' a where "meta_close (cw_now ?w) ?r (cw_meta ?w) = (m', Ok (Some a))"
    using meta_close_ok [of "cw_meta ?w" ?r h n "cw_now ?w" "cw_now ?w" fl] h n idxs unix_time_parts [OF clock] fl
    by (simp add: gen)
  then have "\<exists>t. authed_call (direct xxh3) (\<lambda>md. t_close (direct xxh3) md ?r) s = (Ok (Some a), t)"
    using authed_call_meta_eq [OF tok, of "\<lambda>md. t_close (direct xxh3) md ?r" "meta_close (cw_now ?w) ?r" xxh3]
    by (simp add: direct_simps rpc_of_def)
  then show ?thesis by (auto simp: publish_close_def Let_def direct_simps)
qed

text \<open>
  The cluster can take a publish: the generation is current, there are live nodes, and each
  has room for \<open>k\<close> copies of the dirty bytes, \<open>k\<close> being no less than the number of
  copies of any block.
\<close>

definition publish_up :: "nat \<Rightarrow> cluster fs \<Rightarrow> open_file \<Rightarrow> inode \<Rightarrow> bool" where
  "publish_up k s f n \<longleftrightarrow> (let m = cw_meta (fs_world s) in
     i_generation n = of_generation f \<and> clock_ok (cw_now (fs_world s))
     \<and> live_nodes m \<noteq> [] \<and> 0 < replication_factor m \<and> replication_factor m \<le> k
     \<and> cluster_room (live_addrs m) (k * dirty_bytes (of_dirty f)) (fs_world s)
     \<and> (\<forall>idx p. bt_get (of_block_map f) idx = Some p \<longrightarrow> idx \<in> fst ` set (of_dirty f) \<longrightarrow> placed_up (live_addrs m) k p))"

lemma publish_writes_succeed:
  assumes ready: "publish_ready s fh f n" and up: "publish_up k s f n"
    and m: "m = cw_meta (fs_world s)"
  shows "\<exists>s1 f1 s2 n2 ts s4. publish_addrs (direct xxh3) s = (Ok (), s1) \<and> publish_allocate (direct xxh3) f s1 = (Ok f1, s2)
    \<and> of_dirty f1 = of_dirty f \<and> of_ino f1 = of_ino f \<and> of_generation f1 = of_generation f
    \<and> write_all (direct xxh3) wait (of_ino f) (of_block_map f1) pick (of_dirty f) (put_open_file fh (f1\<lparr>of_dirty := []\<rparr>) s2)
        = (Ok (), ts, s4)
    \<and> cw_meta (fs_world s4) = put_inode (of_ino f) n2 m \<and> i_generation n2 = i_generation n
    \<and> fs_token s4 = cw_token (fs_world s4) \<and> cw_now (fs_world s4) = cw_now (fs_world s)"
proof -
  let ?M = "live_addrs m" and ?b = "k * dirty_bytes (of_dirty f)"
  let ?s1 = "s\<lparr>fs_addrs := ?M\<rparr>"
  have tok: "fs_token s = cw_token (fs_world s)" and n: "inodes m (of_ino f) = Some n" and ag: "maps_agree f n"
    and wfd: "bt_wf (of_dirty f)" and pool: "\<forall>nid c. fs_clients s nid = Some c \<longrightarrow> hm_get ?M nid = Some c"
    using ready m by (simp_all add: publish_ready_def Let_def)
  have room: "cluster_room ?M ?b (fs_world s)" and live: "live_nodes m \<noteq> []" "0 < replication_factor m" "replication_factor m \<le> k"
    and placed: "\<forall>idx p. bt_get (of_block_map f) idx = Some p \<longrightarrow> idx \<in> fst ` set (of_dirty f) \<longrightarrow> placed_up ?M k p"
    using up m by (simp_all add: publish_up_def Let_def)
  have 1: "publish_addrs (direct xxh3) s = (Ok (), ?s1)" using publish_addrs_succeeds [OF tok] m by simp
  have "fs_token ?s1 = cw_token (fs_world ?s1)" "m = cw_meta (fs_world ?s1)" using tok m by simp_all
  note alloc = publish_allocate_succeeds [OF this n ag live placed, of xxh3]
  obtain f1 s2 n2 where 2: "publish_allocate (direct xxh3) f ?s1 = (Ok f1, s2)" "of_dirty f1 = of_dirty f" "of_ino f1 = of_ino f"
    "of_generation f1 = of_generation f" and s2: "s2 = ?s1\<lparr>fs_world := (fs_world ?s1)\<lparr>cw_meta := put_inode (of_ino f) n2 m\<rparr>\<rparr>"
    and n2: "i_generation n2 = i_generation n"
    and bm: "\<forall>idx \<in> fst ` set (of_dirty f). \<exists>p. bt_get (of_block_map f1) idx = Some p \<and> placed_up ?M k p"
    using alloc by blast
  let ?s3 = "put_open_file fh (f1\<lparr>of_dirty := []\<rparr>) s2"
  have can: "can_write ?M ?b ?s3"
    using tok pool room by (simp add: can_write_def pool_ok_def put_open_file_def s2 cluster_room_def)
  have "\<forall>blk \<in> set (of_dirty f). \<exists>p. bt_get (of_block_map f1) (fst blk) = Some p \<and> placed_up ?M k p"
    using bm by blast
  from write_all_succeeds [OF can this, of xxh3 wait "of_ino f" pick] obtain ts s4
    where 3: "write_all (direct xxh3) wait (of_ino f) (of_block_map f1) pick (of_dirty f) ?s3 = (Ok (), ts, s4)"
      and tok4: "fs_token s4 = cw_token (fs_world s4)"
    unfolding can_write_def by blast
  have "pool_ok ?M ?s3" using can by (simp add: can_write_def)
  then have "world_frame (fs_world ?s3) (fs_world s4)" using write_all_direct [OF 3 _ bt_wf_distinct [OF wfd]] by blast
  then have "cw_meta (fs_world s4) = put_inode (of_ino f) n2 m" "cw_now (fs_world s4) = cw_now (fs_world s)"
    by (simp_all add: world_frame_def put_open_file_def s2)
  with 1 2 3 tok4 n2 show ?thesis by blast
qed

lemma publish_replies_ok:
  assumes ready: "publish_ready s fh f n" and up: "publish_up k s f n"
  shows "\<exists>ts s'. publish (direct xxh3) pick fh wait s = (Ok (), ts, s')"
proof -
  obtain s1 f1 s2 n2 ts s4 where 1: "publish_addrs (direct xxh3) s = (Ok (), s1)" and 2: "publish_allocate (direct xxh3) f s1 = (Ok f1, s2)"
    and f1: "of_dirty f1 = of_dirty f" "of_ino f1 = of_ino f" "of_generation f1 = of_generation f"
    and 3: "write_all (direct xxh3) wait (of_ino f) (of_block_map f1) pick (of_dirty f) (put_open_file fh (f1\<lparr>of_dirty := []\<rparr>) s2) = (Ok (), ts, s4)"
    and m4: "cw_meta (fs_world s4) = put_inode (of_ino f) n2 (cw_meta (fs_world s))" and n2: "i_generation n2 = i_generation n"
    and tok4: "fs_token s4 = cw_token (fs_world s4)" and now: "cw_now (fs_world s4) = cw_now (fs_world s)"
    using publish_writes_succeed [where pick = pick, OF ready up refl] by blast
  obtain h where h: "open_handles (cw_meta (fs_world s)) fh = Some h" "oh_ino h = of_ino f"
    and f: "fs_open_files s fh = Some f" "of_dirty f \<noteq> []"
    using ready by (auto simp: publish_ready_def Let_def)
  have gen: "i_generation n = of_generation f" "clock_ok (cw_now (fs_world s))" using up by (simp_all add: publish_up_def Let_def)
  let ?f2 = "f1\<lparr>of_dirty := []\<rparr>"
  have "\<exists>s'. publish_close (direct xxh3) fh (map (raw_idx \<circ> fst) (of_dirty f)) ?f2 s4 = (Ok (), s')"
    using h f(2) f1 gen n2 now m4 by (intro publish_close_succeeds [OF tok4, of _ fh h ?f2 n2]) (simp_all add: ns_simps)
  then show ?thesis using 1 2 3 f f1 by (auto simp: publish_def Let_def)
qed

text \<open>
  C7. A publish succeeds.  On a cluster of the modelled servers, let a client have a file
  open with dirty blocks, with the current generation, a handle and placements the
  metadata server knows and connections that are up to date.  If the metadata server lists
  at least one live node, every node it lists can be reached and has room for all copies of
  the dirty blocks, and the clock shows a time after 1970, then flush and fsync reply Ok,
  under any interleaving of the writes.
\<close>

theorem publish_succeeds:
  assumes "publish_ready s fh f n" and "publish_up k s f n"
  shows "\<exists>ts s'. publish (direct xxh3) pick fh wait s = (Ok (), ts, s')"
  by (rule publish_replies_ok [OF assms])

lemma store_room_new:
  assumes "b \<le> unat budget" and "unat budget < 2 ^ 63"
  shows "store_room b (store_new nid maddr budget)"
  using store_wf_new [of nid maddr budget] assms
  by (simp add: store_room_def) (simp add: store_new_def held_bytes_def hm_weight_def)

lemma pub_up: "publish_up 2 (pub_client 0) (pub_file 0) (the (inodes pub_meta (InodeId 2)))"
proof -
  have "cluster_room (live_addrs pub_meta) 8 pub_cluster"
    using store_room_new [of 8 100 "NodeId ''n2''" "[]"]
    by (auto simp: cluster_room_def pub_addrs pub_client_simps hm_get_def split: if_splits)
  then show ?thesis
    by (simp add: publish_up_def Let_def pub_client_simps pub_meta_simps sample_file new_file_inode_def pub_file_def
        clock_ok_def)
qed

theorem publish_succeeds_witness:
  "\<exists>ts s'. publish sample_T (\<lambda>F. length (fo_tasks F)) 1 PrimariesOnly (pub_client 0) = (Ok (), ts, s')"
  by (rule publish_succeeds [OF pub_ready pub_up])

end
