(* ===== verification/Stale_Reads.thy ===== *)
theory Stale_Reads
  imports Publish_Live
begin

text \<open>
  What a handle reads that was opened before somebody else published.  Its generation and
  its block map are the old ones, but the stores are asked for blocks without a generation:
  of the blocks in its map the handle shows those in the cache as they were and the others
  as they are now, and blocks that were added since read as zeros.
\<close>

section \<open>Reading through a warm cache\<close>

lemma cache_pool_get: "pool_get T n s = (r, t) \<Longrightarrow> fs_block_cache t = fs_block_cache s"
  by (auto simp: pool_get_def Let_def split: option.splits if_splits prod.splits)

lemma cache_authed_call: "authed_call T h s = (r, t) \<Longrightarrow> fs_block_cache t = fs_block_cache s"
  by (auto simp: authed_call_def split: result.splits prod.splits sum.splits)

lemma cache_refresh: "refresh_if_empty T s = (r, t) \<Longrightarrow> fs_block_cache t = fs_block_cache s"
  by (auto simp: refresh_if_empty_def refresh_addrs_def dest!: cache_authed_call
      split: if_splits prod.splits result.splits)

text \<open>A fetch adds blocks to the cache and removes none.\<close>

lemma cache_fetch_from:
  "fetch_from T f idx ns e s = (r, t) \<Longrightarrow> dom (fs_block_cache s) \<subseteq> dom (fs_block_cache t)"
proof (induction ns arbitrary: e s)
  case (Cons n ns)
  obtain p s1 where p: "pool_get T n s = (p, s1)" by fastforce
  note 1 = cache_pool_get [OF p]
  show ?case
  proof (cases p)
    case (Ok c)
    obtain a s2 where a: "authed_call T (\<lambda>md. t_read_block T c md (block_req (of_ino f) idx)) s1 = (a, s2)"
      by fastforce
    have "fs_block_cache s2 = fs_block_cache s" using cache_authed_call [OF a] 1 by simp
    then show ?thesis
      using Cons.prems p Ok a Cons.IH [of "EStoreUnavailable n" "evict n s2"]
      by (cases a) (auto simp: block_cache_insert_def evict_def split: if_splits)
  next
    case (Err x)
    then show ?thesis using Cons.prems p 1 Cons.IH [of x s1] by simp
  qed (use Cons.prems p 1 in simp)
qed simp

text \<open>
  \<open>view_ok\<close>: whatever is in the cache agrees with \<open>base\<close>, and a placed block that is not
  in it is held as \<open>base\<close> says by the first node that can be reached.
\<close>

definition view_ok ::
  "(string \<Rightarrow> u64 \<Rightarrow> u64) \<Rightarrow> cluster \<Rightarrow> (node_id, string) hmap \<Rightarrow> u64 \<Rightarrow> (block_idx \<Rightarrow> bytes) \<Rightarrow> open_file \<Rightarrow> cluster fs
     \<Rightarrow> bool" where
  "view_ok xxh3 w M bs base f s \<longleftrightarrow>
     client_ok (direct xxh3) (\<lambda>w'. w' = w) M bs (cw_token w) (of_ino f) (of_generation f) base s
     \<and> addrs_ok (direct xxh3) (\<lambda>w'. w' = w) M [''cluster-token'' \<mapsto> cw_token w] s
     \<and> (\<forall>idx p. bt_get (of_block_map f) idx = Some p \<longrightarrow>
          fs_block_cache s (of_ino f, of_generation f, idx) \<noteq> None \<or> holds w M (of_ino f) bs idx p (base idx))"

lemma view_fetch_block:
  assumes ok: "view_ok xxh3 w M bs base f s" and clean: "bt_get (of_dirty f) idx = None"
    and placed: "bt_contains (of_block_map f) idx"
  shows "\<exists>s'. fetch_block (direct xxh3) f idx s = (Ok (base idx), s') \<and> view_ok xxh3 w M bs base f s'"
proof (cases "fs_block_cache s (of_ino f, of_generation f, idx)")
  case (Some b)
  then have "b = base idx" "block_cache_get (direct xxh3) (of_ino f, of_generation f, idx) s = Some b"
    using ok by (auto simp: view_ok_def client_ok_def block_cache_get_def direct_simps)
  then show ?thesis using clean ok by (auto simp: fetch_block_def)
next
  case None
  let ?T = "direct xxh3" and ?W = "\<lambda>w'. w' = w" and ?md = "[''cluster-token'' \<mapsto> cw_token w]"
  obtain p where p: "bt_get (of_block_map f) idx = Some p" using placed by (auto simp: bt_contains_def)
  have c: "client_ok ?T ?W M bs (cw_token w) (of_ino f) (of_generation f) base s" and a: "addrs_ok ?T ?W M ?md s"
    and h: "holds w M (of_ino f) bs idx p (base idx)"
    using ok p None unfolding view_ok_def by blast+
  have v: "t_parse ?T (cw_token w) = Some (cw_token w)" by (simp add: direct_simps)
  obtain s1 where r: "refresh_if_empty ?T s = (Ok (), s1)"
    and c1: "client_ok ?T ?W M bs (cw_token w) (of_ino f) (of_generation f) base s1" "fs_addrs s1 = M"
    using refresh_ok [OF v refl c a] by blast
  have "some_answers ?T ?W M ?md bs (of_ino f) base idx (primary p # replicas p)"
    using h by (auto simp: holds_def simp del: first_up.simps some_answers.simps intro!: first_up_answers)
  from fetch_from_ok [OF v refl this c1] obtain s' where
    f: "fetch_from ?T f idx (primary p # replicas p) (EStoreUnavailable (primary p)) s1 = (Ok (base idx), s')"
    and c': "client_ok ?T ?W M bs (cw_token w) (of_ino f) (of_generation f) base s'" "fs_addrs s' = M"
    by blast
  have "block_cache_get ?T (of_ino f, of_generation f, idx) s = None" using None by (simp add: block_cache_get_def)
  then have "fetch_block ?T f idx s = (Ok (base idx), s')"
    unfolding fetch_block_def using clean r p f by (simp del: fetch_from.simps)
  moreover have "dom (fs_block_cache s) \<subseteq> dom (fs_block_cache s')"
    using cache_fetch_from [OF f] cache_refresh [OF r] by simp
  then have "view_ok xxh3 w M bs base f s'"
    using ok c' addrs_ok_after [OF a c'(2)] unfolding view_ok_def by blast
  ultimately show ?thesis by blast
qed

interpretation vw: block_source "fetch_block (direct xxh3)" "view_ok xxh3 w M bs base" base for xxh3 w M bs base
proof
  show "bt_get (of_dirty f) idx = Some b \<Longrightarrow> fetch_block (direct xxh3) f idx s = (Ok b, s)" for f idx b s
    by (simp add: fetch_block_def)
  show "view_ok xxh3 w M bs base f s \<Longrightarrow> bt_get (of_dirty f) idx = None \<Longrightarrow> bt_contains (of_block_map f) idx
      \<Longrightarrow> \<exists>s'. fetch_block (direct xxh3) f idx s = (Ok (base idx), s') \<and> view_ok xxh3 w M bs base f s'" for f idx s
    by (rule view_fetch_block)
  show "same_file f g \<Longrightarrow> view_ok xxh3 w M bs base f s \<Longrightarrow> view_ok xxh3 w M bs base g s" for f g s
    by (simp add: same_file_def view_ok_def)
qed

section \<open>A handle opened before a publish\<close>

definition handle_view :: "cluster fs \<Rightarrow> open_file \<Rightarrow> (block_idx \<Rightarrow> bytes) \<Rightarrow> block_idx \<Rightarrow> bytes" where
  "handle_view r g disk idx =
     (case fs_block_cache r (of_ino g, of_generation g, idx) of Some b \<Rightarrow> b | None \<Rightarrow> disk idx)"

text \<open>A reader whose connections and addresses are up to date, whatever its block cache holds.\<close>

definition connected :: "cluster fs \<Rightarrow> bool" where
  "connected r \<longleftrightarrow> (let M = live_addrs (cw_meta (fs_world r)) in
     fs_token r = cw_token (fs_world r) \<and> fs_addrs r \<in> {[], M}
     \<and> (\<forall>nid c. fs_clients r nid = Some c \<longrightarrow> hm_get M nid = Some c))"

lemma connected_view_ok:
  assumes con: "connected r" and w: "fs_world r = w" and M: "M = live_addrs (cw_meta w)" and bs: "fs_block_size r = bs"
    and held: "\<And>idx p. bt_get (of_block_map g) idx = Some p \<Longrightarrow> fs_block_cache r (of_ino g, of_generation g, idx) = None
      \<Longrightarrow> holds w M (of_ino g) bs idx p (disk idx)"
  shows "view_ok xxh3 w M bs (handle_view r g disk) g r"
proof -
  have "addrs_ok (direct xxh3) (\<lambda>w'. w' = w) M [''cluster-token'' \<mapsto> cw_token w] r"
    using con w M by (auto simp: addrs_ok_def connected_def Let_def list_nodes_direct live_addrs_def)
  moreover have "fs_block_cache r (of_ino g, of_generation g, idx) \<noteq> None
      \<or> holds w M (of_ino g) bs idx p (handle_view r g disk idx)" if "bt_get (of_block_map g) idx = Some p" for idx p
    using held [OF that] by (cases "fs_block_cache r (of_ino g, of_generation g, idx)") (auto simp: handle_view_def)
  ultimately show ?thesis
    using con w M bs by (simp add: view_ok_def client_ok_def connected_def Let_def handle_view_def)
qed

text \<open>
  A block of the file as an old handle \<open>g\<close> of a reader \<open>r\<close> shows it, after the open file \<open>f\<close>
  was published over the bytes \<open>base\<close>.
\<close>

definition mixed_block :: "cluster fs \<Rightarrow> open_file \<Rightarrow> open_file \<Rightarrow> (block_idx \<Rightarrow> bytes) \<Rightarrow> block_idx \<Rightarrow> bytes" where
  "mixed_block r g f base idx =
     (case bt_get (of_dirty g) idx of
        Some b \<Rightarrow> b
      | None \<Rightarrow>
          if \<not> bt_contains (of_block_map g) idx then []
          else (case fs_block_cache r (of_ino g, of_generation g, idx) of
             Some b \<Rightarrow> b
           | None \<Rightarrow> (case bt_get (of_dirty f) idx of Some b \<Rightarrow> b | None \<Rightarrow> base idx)))"

lemma mixed_block_view: "block_view (handle_view r g (published base f)) g = mixed_block r g f base"
  by (simp add: fun_eq_iff block_view_def mixed_block_def handle_view_def published_def split: option.split)

text \<open>
  C38. A handle that was opened before a publish reads a mixture.  Let a client have a file
  open, with the placements of before, while another client publishes it.  From then on a
  read through the old handle returns, block by block: the handle's own buffer where it has
  written the block itself; zeros where the block is not in the block map the handle got
  when it was opened, also for blocks that the publish has added; the old bytes where the
  reader has the block in its cache under the old generation; and for every other block
  the bytes just published, or what the file had before where the publish did not touch
  the block.
\<close>

theorem old_handle_mixes_generations:
  assumes "publish_ready s fh f n" and "publish (direct xxh3) pick fh wait s = (Ok (), ts, s')"
    and "\<forall>idx p. bt_get (of_block_map f) idx = Some p \<longrightarrow> bt_get (of_dirty f) idx = None \<longrightarrow>
      holds (fs_world s) (live_addrs (cw_meta (fs_world s))) (of_ino f) bs idx p (base idx)"
    and "fs_world r = fs_world s'" and "connected r" and "fs_block_size r = bs"
    and "fs_open_files r fh' = Some g" and "of_ino g = of_ino f" and "maps_agree g n"
    and "0 < unat bs" and "unat off + unat sz + unat bs < 2 ^ 64"
  shows "\<exists>r2. fuse_read (direct xxh3) fh' off sz r
    = Some (Ok (map (\<lambda>pos. byte_of (mixed_block r g f base (BlockIdx (of_nat (pos div unat bs)))) (pos mod unat bs))
        [unat off..<unat off + unat sz]), r2)"
proof -
  let ?M = "live_addrs (cw_meta (fs_world s))"
  obtain n' where n': "inodes (cw_meta (fs_world s')) (of_ino f) = Some n'"
    and live: "live_addrs (cw_meta (fs_world s')) = ?M"
    and old: "\<And>idx p. bt_get (i_blocks n) idx = Some p \<Longrightarrow> bt_get (i_blocks n') idx = Some p"
    using publish_readyD [OF assms(1,2) refl] by blast
  have "holds (fs_world s') ?M (of_ino g) bs idx p (published base f idx)" if "bt_get (of_block_map g) idx = Some p" for idx p
    using published_holds [OF assms(1,2) refl n', of idx p bs base] old assms(3,8,9) that by (simp add: maps_agree_def)
  then have "view_ok xxh3 (fs_world s') ?M bs (handle_view r g (published base f)) g r"
    using assms(4-6) live by (intro connected_view_ok) simp_all
  from vw.read_range_view [OF this assms(10,11)] show ?thesis
    using assms(6,7)
    by (auto simp: fuse_read_def read_file_def Let_def errno_of_def file_view_def [abs_def] mixed_block_view simp del: read_loop.simps)
qed

text \<open>
  A file of two blocks.  A reader has opened it and read block 0; a writer replaces both
  blocks.
\<close>

abbreviation mix_blocks :: "(block_idx, block_placement) btree" where
  "mix_blocks \<equiv> [(BlockIdx 0, pub_place), (BlockIdx 1, pub_place)]"

definition mix_inode :: inode where
  "mix_inode = (the (inodes pub_meta (InodeId 2)))\<lparr>i_blocks := mix_blocks\<rparr>"

definition mix_meta :: meta_state where
  "mix_meta = put_inode (InodeId 2) mix_inode pub_meta"

definition mix_file :: "(block_idx, bytes) btree \<Rightarrow> open_file" where
  "mix_file d = \<lparr> of_ino = InodeId 2, of_generation = Generation 0, of_block_map = mix_blocks, of_dirty = d,
     of_size_hint = 8, of_flags = 0 \<rparr>"

abbreviation mix_dirty :: "(block_idx, bytes) btree" where
  "mix_dirty \<equiv> [(BlockIdx 0, [1, 2, 3, 4]), (BlockIdx 1, [5, 6, 7, 8])]"

definition mix_writer :: "cluster fs" where
  "mix_writer = (build_fs (pub_cluster\<lparr>cw_meta := mix_meta\<rparr>) 1000 4 2 ''t'')\<lparr>fs_open_files := [1 \<mapsto> mix_file mix_dirty]\<rparr>"

definition mix_reader :: "cluster \<Rightarrow> cluster fs" where
  "mix_reader w = (build_fs w 1000 4 2 ''t'')\<lparr>fs_open_files := [7 \<mapsto> mix_file []],
     fs_block_cache := [(InodeId 2, Generation 0, BlockIdx 0) \<mapsto> [9, 9, 9, 9]]\<rparr>"

lemma mix_simps:
  "inodes mix_meta (InodeId 2) = Some mix_inode" "open_handles mix_meta = open_handles sample_state"
  "live_addrs mix_meta = [(NodeId ''n2'', ''http://b'')]" "live_nodes mix_meta = [NodeId ''n2'']"
  "replication_factor mix_meta = 2" "i_kind mix_inode = File" "i_generation mix_inode = Generation 0" "i_blocks mix_inode = mix_blocks"
  by (simp_all add: mix_meta_def mix_inode_def ns_simps pub_meta_simps sample_file new_file_inode_def
      live_addrs_def live_nodes_def node_info_to_proto_def addr_map_of_def hm_collect_def hm_insert_def)

lemma mix_writer_simps:
  "fs_world mix_writer = pub_cluster\<lparr>cw_meta := mix_meta\<rparr>" "fs_token mix_writer = ''t''" "fs_clients mix_writer = Map.empty"
  "fs_open_files mix_writer 1 = Some (mix_file mix_dirty)"
  by (simp_all add: mix_writer_def build_fs_def)

lemma mix_ready: "publish_ready mix_writer 1 (mix_file mix_dirty) mix_inode"
  by (simp add: publish_ready_def Let_def mix_writer_simps mix_simps mix_file_def maps_agree_def pub_client_simps sample_file id_orders)

lemma mix_up: "publish_up 2 mix_writer (mix_file mix_dirty) mix_inode"
proof -
  have "cluster_room [(NodeId ''n2'', ''http://b'')] 16 (pub_cluster\<lparr>cw_meta := mix_meta\<rparr>)"
    using store_room_new [of 16 100 "NodeId ''n2''" "[]"]
    by (auto simp: cluster_room_def pub_client_simps hm_get_def split: if_splits)
  then show ?thesis
    by (auto simp: publish_up_def Let_def mix_writer_simps mix_simps mix_file_def pub_client_simps clock_ok_def
        placed_up_def hm_get_def bt_get_def split: if_splits)
qed

theorem old_handle_mixes_generations_witness:
  "\<exists>ts s' r2. publish sample_T (\<lambda>_. 0) 1 AllReplicas mix_writer = (Ok (), ts, s')
     \<and> fuse_read sample_T 7 0 9 (mix_reader (fs_world s')) = Some (Ok [9, 9, 9, 9, 5, 6, 7, 8, 0], r2)"
proof -
  obtain ts s' where pub: "publish sample_T (\<lambda>_. 0) 1 AllReplicas mix_writer = (Ok (), ts, s')"
    using publish_replies_ok [OF mix_ready mix_up, of "\<lambda>_ _. 0" "\<lambda>_. 0" AllReplicas] by auto
  let ?r = "mix_reader (fs_world s')" and ?f = "mix_file mix_dirty"
  have "cw_token (fs_world s') = ''t''"
    using publish_readyD [OF mix_ready pub refl] by (auto simp: mix_writer_simps pub_client_simps)
  then have r: "fs_world ?r = fs_world s'" "connected ?r" "fs_block_size ?r = 4" "fs_open_files ?r 7 = Some (mix_file [])"
    by (simp_all add: mix_reader_def build_fs_def connected_def)
  have g: "of_ino (mix_file []) = of_ino ?f" "maps_agree (mix_file []) mix_inode"
    by (simp_all add: mix_file_def maps_agree_def mix_simps)
  have held: "\<forall>idx p. bt_get (of_block_map ?f) idx = Some p \<longrightarrow> bt_get (of_dirty ?f) idx = None \<longrightarrow>
      holds (fs_world mix_writer) (live_addrs (cw_meta (fs_world mix_writer))) (of_ino ?f) 4 idx p []"
    by (simp add: mix_file_def bt_get_def)
  define blk where "blk = mixed_block ?r (mix_file []) ?f (\<lambda>_. [])"
  have b: "blk (BlockIdx 0) = [9, 9, 9, 9]" "blk (BlockIdx 1) = [5, 6, 7, 8]" "blk (BlockIdx 2) = []"
    by (simp_all add: blk_def mixed_block_def mix_reader_def mix_file_def bt_get_def bt_contains_def)
  have upt: "[unat (0 :: i64)..<unat (0 :: i64) + unat (9 :: u32)] = [0, 1, 2, 3, 4, 5, 6, 7, 8]" by (simp add: upt_rec)
  have "map (\<lambda>pos. byte_of (blk (BlockIdx (of_nat (pos div unat (4 :: u64))))) (pos mod unat (4 :: u64)))
      [unat (0 :: i64)..<unat (0 :: i64) + unat (9 :: u32)] = [9, 9, 9, 9, 5, 6, 7, 8, 0]"
    unfolding upt by (simp add: b byte_of_def)
  then show ?thesis
    using old_handle_mixes_generations [OF mix_ready pub held r(1-4) g, of 0 9] pub unfolding blk_def by auto
qed

end
