(* ===== verification/Late_Deletes.thy ===== *)
theory Late_Deletes
  imports System_Meta Stale_Reads
begin

text \<open>
  Delete tasks that run late, and files that are still in use.  A truncation replies before
  the delete tasks it has spawned have run, and a task names a block by inode and index
  only.  When the block is written again in between, the task takes the new data.
\<close>

section \<open>What a publish leaves alone\<close>

lemma to_meta_cw_tasks [simp]: "cw_tasks (snd (to_meta md h w)) = cw_tasks w"
  by (simp add: to_meta_def split: prod.split)

lemma to_store_cw_tasks [simp]: "cw_tasks (snd (to_store a md h w)) = cw_tasks w"
  by (simp add: to_store_def split: option.split prod.split)

text \<open>None of the calls of a publish spawns or runs a delete task.\<close>

interpretation kept: client_calls "direct xxh3" "\<lambda>w w'. cw_tasks w' = cw_tasks w" "\<lambda>_. True" for xxh3
  by unfold_locales (simp_all add: direct_simps)

lemma run_delete_task_token:
  assumes "dt_token t = cw_token w"
  shows "cl_rd (run_delete_task t w) = (cl_rd w)((dt_addr t, write_key (dt_ino t) (dt_idx t)) := None)"
  using assms by (auto simp: fun_eq_iff cl_rd_run_delete_task)

lemma truncate_task:
  assumes "inodes m (InodeId (sa_ino sa)) = Some n" and "sa_size sa = Some sz" and "sz < i_size n"
    and "sa_atime_s sa = None" and "sa_mtime_s sa = None"
    and "(idx, p) \<in> set (i_blocks n)" and "raw_idx idx \<noteq> 0" and "unat sz \<le> unat (raw_idx idx) * 2 ^ 20"
    and "nid \<in> set (primary p # replicas p)" and "hm_get (node_addrs_of m) nid = Some a"
  shows "\<lparr> dt_addr = a, dt_ino = InodeId (sa_ino sa), dt_idx = idx, dt_token = token \<rparr>
    \<in> set (meta_tasks token (OpSetAttr now sa) m)"
proof -
  have "(idx, p) \<in> set (filter (\<lambda>(k, p). raw_idx k \<noteq> 0 \<and> unat sz \<le> unat (raw_idx k) * 2 ^ 20) (i_blocks n))"
    using assms(6-8) by simp
  moreover have "\<lparr> dt_addr = a, dt_ino = InodeId (sa_ino sa), dt_idx = idx, dt_token = token \<rparr>
      \<in> set (case hm_get (node_addrs_of m) nid of None \<Rightarrow> []
        | Some addr \<Rightarrow> [\<lparr> dt_addr = addr, dt_ino = InodeId (sa_ino sa), dt_idx = idx, dt_token = token \<rparr>])"
    using assms(10) by simp
  ultimately show ?thesis
    using assms(9) by (force simp: truncate_result [OF assms(1-5)] Let_def fire_delete_blocks_def)
qed

text \<open>
  C39. A delete task of a truncation that runs late takes a block that was written since.
  Let a SetAttr truncate a file and drop a block that lay on a node at address \<open>a0\<close>.  When
  the metadata server has handled the request, the delete task for the block at \<open>a0\<close> is
  pending.  Let anything happen after that, with the task still pending when a client
  publishes the same block again with success, whatever the wait policy: the metadata server
  then lists the block with the new generation and size, the nodes of the new
  placement that were waited for hold exactly the bytes written, and the task is still
  there.  Now it can run: afterwards the block is gone from the store at \<open>a0\<close>, everything
  else on the stores is as before, and the metadata server lists the block as if nothing
  had happened.  So where the new placement uses the same store, committed data is lost.
\<close>

theorem late_delete_undoes_publish:
  assumes "inodes (cw_meta w0) (InodeId (sa_ino sa)) = Some n0" and "sa_size sa = Some sz" and "sz < i_size n0"
    and "sa_atime_s sa = None" and "sa_mtime_s sa = None"
    and "(idx, p0) \<in> set (i_blocks n0)" and "raw_idx idx \<noteq> 0" and "unat sz \<le> unat (raw_idx idx) * 2 ^ 20"
    and "nid0 \<in> set (primary p0 # replicas p0)" and "hm_get (node_addrs_of (cw_meta w0)) nid0 = Some a0"
    and "w1 = serve xxh3 (OpSetAttr now sa) w0"
    and "t = \<lparr> dt_addr = a0, dt_ino = InodeId (sa_ino sa), dt_idx = idx, dt_token = cw_token w0 \<rparr>"
    and "(world_step xxh3 G)\<^sup>*\<^sup>* w1 (fs_world s)" and "t \<in> set (cw_tasks (fs_world s))"
    and "publish_ready s fh f n" and "publish (direct xxh3) pick fh wait s = (Ok (), ts, s')"
    and "of_ino f = InodeId (sa_ino sa)" and "bt_get (of_dirty f) idx = Some buf"
  shows "t \<in> set (cw_tasks w1)
    \<and> (\<exists>n' p w3. inodes (cw_meta (fs_world s')) (of_ino f) = Some n' \<and> i_generation n' = bump (of_generation f)
         \<and> i_size n' = of_size_hint f \<and> bt_get (i_blocks n') idx = Some p
         \<and> (\<forall>nid \<in> set (synced wait p). \<exists>a. hm_get (live_addrs (cw_meta (fs_world s'))) nid = Some a
              \<and> cl_rd (fs_world s') (a, write_key (of_ino f) idx) = Some buf)
         \<and> world_step xxh3 G (fs_world s') w3 \<and> cw_meta w3 = cw_meta (fs_world s')
         \<and> cl_rd w3 = (cl_rd (fs_world s'))((a0, write_key (of_ino f) idx) := None))"
proof
  show "t \<in> set (cw_tasks w1)"
    using truncate_task [OF assms(1-10), of "cw_token w0" now] by (simp add: assms(11,12) serve_def)
  obtain n' where n': "inodes (cw_meta (fs_world s')) (of_ino f) = Some n'" "i_generation n' = bump (of_generation f)"
      "i_size n' = of_size_hint f"
    and M: "live_addrs (cw_meta (fs_world s')) = live_addrs (cw_meta (fs_world s))"
    and dom: "\<forall>idx. bt_get (i_blocks n') idx \<noteq> None \<longleftrightarrow> bt_get (of_block_map f) idx \<noteq> None \<or> bt_get (of_dirty f) idx \<noteq> None"
    and st: "\<forall>idx buf p. bt_get (of_dirty f) idx = Some buf \<longrightarrow> bt_get (i_blocks n') idx = Some p \<longrightarrow>
         (\<forall>nid \<in> set (synced wait p). \<exists>a. hm_get (live_addrs (cw_meta (fs_world s))) nid = Some a
            \<and> cl_rd (fs_world s') (a, write_key (of_ino f) idx) = Some buf)"
    and tok': "cw_token (fs_world s') = cw_token (fs_world s)"
    using publish_readyD [OF assms(15,16) refl] by (elim exE conjE) (rule that; assumption)
  have "bt_get (i_blocks n') idx \<noteq> None" using dom assms(18) by simp
  then obtain p where p: "bt_get (i_blocks n') idx = Some p" by blast
  have held: "\<forall>nid \<in> set (synced wait p). \<exists>a. hm_get (live_addrs (cw_meta (fs_world s'))) nid = Some a
      \<and> cl_rd (fs_world s') (a, write_key (of_ino f) idx) = Some buf"
    using st assms(18) p unfolding M by blast
  have "cw_token (fs_world s) = cw_token w0"
    using world_meta_run [OF assms(13)] assms(11) by (simp add: serve_def)
  then have tok: "dt_token t = cw_token (fs_world s')" by (simp add: assms(12) tok')
  have "t \<in> set (cw_tasks (fs_world s'))" using kept.publish_R [OF assms(16)] assms(14) by simp
  from world_step.delete [OF this]
  have step: "world_step xxh3 G (fs_world s') ((run_delete_task t (fs_world s'))\<lparr>cw_tasks := remove1 t (cw_tasks (fs_world s'))\<rparr>)"
    (is "world_step _ _ _ ?w3") .
  have "cl_rd ?w3 = cl_rd (run_delete_task t (fs_world s'))" by (simp add: cl_rd_def fun_eq_iff)
  then have "cl_rd ?w3 = (cl_rd (fs_world s'))((a0, write_key (of_ino f) idx) := None)"
    using run_delete_task_token [OF tok] by (simp add: assms(12,17))
  moreover have "cw_meta ?w3 = cw_meta (fs_world s')" by (simp add: run_delete_task_meta)
  ultimately show "\<exists>n' p w3. inodes (cw_meta (fs_world s')) (of_ino f) = Some n' \<and> i_generation n' = bump (of_generation f)
         \<and> i_size n' = of_size_hint f \<and> bt_get (i_blocks n') idx = Some p
         \<and> (\<forall>nid \<in> set (synced wait p). \<exists>a. hm_get (live_addrs (cw_meta (fs_world s'))) nid = Some a
              \<and> cl_rd (fs_world s') (a, write_key (of_ino f) idx) = Some buf)
         \<and> world_step xxh3 G (fs_world s') w3 \<and> cw_meta w3 = cw_meta (fs_world s')
         \<and> cl_rd w3 = (cl_rd (fs_world s'))((a0, write_key (of_ino f) idx) := None)"
    using n' p held step by (intro exI [of _ n'] exI [of _ p] exI [of _ ?w3] conjI)
qed

text \<open>
  A file of two blocks on one store is truncated to nothing, which keeps block 0; before
  the delete task for block 1 runs, a client writes block 1 again and publishes it.
\<close>

definition trunc_inode :: inode where
  "trunc_inode = mix_inode\<lparr>i_size := 8\<rparr>"

definition trunc_world :: cluster where
  "trunc_world = pub_cluster\<lparr>cw_meta := put_inode (InodeId 2) trunc_inode pub_meta\<rparr>"

abbreviation trunc_req :: set_attr_req where
  "trunc_req \<equiv> \<lparr> sa_ino = 2, sa_size = Some 0, sa_mode = None, sa_uid = None, sa_gid = None,
     sa_atime_s = None, sa_atime_ns = None, sa_mtime_s = None, sa_mtime_ns = None \<rparr>"

definition trunc_after :: cluster where
  "trunc_after = serve (\<lambda>_ _. 0) (OpSetAttr 5 trunc_req) trunc_world"

definition trunc_left :: inode where
  "trunc_left = (set_attr_fields trunc_req trunc_inode)\<lparr>i_blocks := [(BlockIdx 0, pub_place)], i_size := 0, i_ctime := 5\<rparr>"

abbreviation trunc_task :: delete_task where
  "trunc_task \<equiv> \<lparr> dt_addr = ''http://b'', dt_ino = InodeId 2, dt_idx = BlockIdx 1, dt_token = ''t'' \<rparr>"

definition trunc_file :: open_file where
  "trunc_file = \<lparr> of_ino = InodeId 2, of_generation = Generation 0, of_block_map = [(BlockIdx 0, pub_place)],
     of_dirty = [(BlockIdx 1, [5, 6, 7, 8])], of_size_hint = 8, of_flags = 0 \<rparr>"

definition trunc_writer :: "cluster fs" where
  "trunc_writer = (build_fs trunc_after 1000 4 2 ''t'')\<lparr>fs_open_files := [1 \<mapsto> trunc_file]\<rparr>"

lemma trunc_inode_simps:
  "i_kind trunc_inode = File" "i_generation trunc_inode = Generation 0" "i_blocks trunc_inode = mix_blocks" "i_size trunc_inode = 8"
  by (simp_all add: trunc_inode_def mix_simps)

lemma trunc_world_simps:
  "cw_meta trunc_world = put_inode (InodeId 2) trunc_inode pub_meta" "cw_token trunc_world = ''t''" "cw_tasks trunc_world = []"
  "cw_now trunc_world = 0" "cw_stores trunc_world = [''http://b'' \<mapsto> store_new (NodeId ''n2'') [] 100]"
  "inodes (put_inode (InodeId 2) trunc_inode pub_meta) (InodeId 2) = Some trunc_inode"
  "node_addrs_of (put_inode (InodeId 2) trunc_inode pub_meta) = [(NodeId ''n2'', ''http://b'')]"
  by (simp_all add: trunc_world_def pub_client_simps ns_simps)
    (simp_all add: pub_cluster_def sample_cluster_def node_addrs_of_def pub_meta_simps hm_collect_def hm_insert_def)

lemma trunc_after_simps:
  "cw_meta trunc_after = put_inode (InodeId 2) trunc_left (put_inode (InodeId 2) trunc_inode pub_meta)"
  "cw_tasks trunc_after = [trunc_task]" "cw_token trunc_after = ''t''" "cw_now trunc_after = 0"
  "cw_stores trunc_after = [''http://b'' \<mapsto> store_new (NodeId ''n2'') [] 100]"
proof -
  have n: "inodes (cw_meta trunc_world) (InodeId (sa_ino trunc_req)) = Some trunc_inode" "(0 :: u64) < i_size trunc_inode"
    by (simp_all add: trunc_world_simps trunc_inode_simps)
  have k: "bt_retain (\<lambda>k. raw_idx k \<le> truncate_last_idx 0) mix_blocks = [(BlockIdx 0, pub_place)]"
    by (simp add: bt_retain_def truncate_last_idx_def)
  have m: "meta_set_attr ''t'' 5 trunc_req (cw_meta trunc_world)
      = (put_inode (InodeId 2) trunc_left (cw_meta trunc_world), [trunc_task], Ok (Some (build_attr trunc_left)))"
    using truncate_result [OF n(1) _ n(2), of "''t''" 5] k
    by (simp add: Let_def trunc_left_def trunc_inode_simps set_attr_fields_def fire_delete_blocks_def trunc_world_simps hm_get_def)
  show "cw_meta trunc_after = put_inode (InodeId 2) trunc_left (put_inode (InodeId 2) trunc_inode pub_meta)"
    "cw_tasks trunc_after = [trunc_task]" "cw_token trunc_after = ''t''" "cw_now trunc_after = 0"
    "cw_stores trunc_after = [''http://b'' \<mapsto> store_new (NodeId ''n2'') [] 100]"
    by (simp_all add: trunc_after_def serve_def trunc_world_simps m [unfolded trunc_world_simps])
qed

lemma trunc_meta_simps:
  "inodes (cw_meta trunc_after) (InodeId 2) = Some trunc_left" "open_handles (cw_meta trunc_after) = open_handles sample_state"
  "live_addrs (cw_meta trunc_after) = [(NodeId ''n2'', ''http://b'')]" "live_nodes (cw_meta trunc_after) = [NodeId ''n2'']"
  "replication_factor (cw_meta trunc_after) = 2" "i_kind trunc_left = File" "i_generation trunc_left = Generation 0"
  "i_blocks trunc_left = [(BlockIdx 0, pub_place)]"
  by (simp_all add: trunc_after_simps ns_simps pub_meta_simps trunc_left_def set_attr_fields_def trunc_inode_simps
      live_addrs_def live_nodes_def node_info_to_proto_def addr_map_of_def hm_collect_def hm_insert_def)

lemma trunc_writer_simps:
  "fs_world trunc_writer = trunc_after" "fs_token trunc_writer = ''t''" "fs_clients trunc_writer = Map.empty"
  "fs_open_files trunc_writer 1 = Some trunc_file"
  by (simp_all add: trunc_writer_def build_fs_def)

lemma trunc_ready: "publish_ready trunc_writer 1 trunc_file trunc_left"
  by (simp add: publish_ready_def Let_def trunc_writer_simps trunc_meta_simps trunc_after_simps(3) trunc_file_def maps_agree_def
      sample_file)

lemma trunc_up: "publish_up 2 trunc_writer trunc_file trunc_left"
proof -
  have "cluster_room [(NodeId ''n2'', ''http://b'')] 8 trunc_after"
    using store_room_new [of 8 100 "NodeId ''n2''" "[]"]
    by (auto simp: cluster_room_def trunc_after_simps(5) hm_get_def split: if_splits)
  then show ?thesis
    by (auto simp: publish_up_def Let_def trunc_writer_simps trunc_meta_simps trunc_after_simps(4) trunc_file_def clock_ok_def
        bt_get_def split: if_splits)
qed

theorem late_delete_undoes_publish_witness:
  "\<exists>ts s' n' p w3. publish sample_T (\<lambda>_. 0) 1 AllReplicas trunc_writer = (Ok (), ts, s')
     \<and> trunc_task \<in> set (cw_tasks (fs_world trunc_writer))
     \<and> cl_rd (fs_world s') (''http://b'', write_key (InodeId 2) (BlockIdx 1)) = Some [5, 6, 7, 8]
     \<and> world_step (\<lambda>_ _. 0) rename_safe (fs_world s') w3
     \<and> cl_rd w3 (''http://b'', write_key (InodeId 2) (BlockIdx 1)) = None
     \<and> inodes (cw_meta w3) (InodeId 2) = Some n' \<and> bt_get (i_blocks n') (BlockIdx 1) = Some p"
proof -
  obtain ts s' where pub: "publish sample_T (\<lambda>_. 0) 1 AllReplicas trunc_writer = (Ok (), ts, s')"
    using publish_replies_ok [OF trunc_ready trunc_up, of "\<lambda>_ _. 0" "\<lambda>_. 0" AllReplicas] by auto
  have M: "live_addrs (cw_meta (fs_world s')) = [(NodeId ''n2'', ''http://b'')]"
    using publish_readyD [OF trunc_ready pub refl] by (auto simp: trunc_writer_simps trunc_meta_simps)
  have run: "(world_step (\<lambda>_ _. 0) rename_safe)\<^sup>*\<^sup>* trunc_after (fs_world trunc_writer)"
    and pend: "trunc_task \<in> set (cw_tasks (fs_world trunc_writer))"
    by (simp_all add: trunc_writer_simps trunc_after_simps(2))
  have n0: "inodes (cw_meta trunc_world) (InodeId (sa_ino trunc_req)) = Some trunc_inode" "(0 :: u64) < i_size trunc_inode"
    "(BlockIdx 1, pub_place) \<in> set (i_blocks trunc_inode)"
    "hm_get (node_addrs_of (cw_meta trunc_world)) (NodeId ''n2'') = Some ''http://b''"
    by (simp_all add: trunc_world_simps trunc_inode_simps hm_get_def)
  have f: "of_ino trunc_file = InodeId (sa_ino trunc_req)" "bt_get (of_dirty trunc_file) (BlockIdx 1) = Some [5, 6, 7, 8]"
    by (simp_all add: trunc_file_def bt_get_def)
  have t: "trunc_task = \<lparr> dt_addr = ''http://b'', dt_ino = InodeId (sa_ino trunc_req), dt_idx = BlockIdx 1, dt_token = cw_token trunc_world \<rparr>"
    by (simp add: trunc_world_simps)
  obtain n' p w3 where r: "inodes (cw_meta (fs_world s')) (of_ino trunc_file) = Some n'" "bt_get (i_blocks n') (BlockIdx 1) = Some p"
    and held: "\<forall>nid \<in> set (synced AllReplicas p). \<exists>a. hm_get (live_addrs (cw_meta (fs_world s'))) nid = Some a
              \<and> cl_rd (fs_world s') (a, write_key (of_ino trunc_file) (BlockIdx 1)) = Some [5, 6, 7, 8]"
    and w3: "world_step (\<lambda>_ _. 0) rename_safe (fs_world s') w3" "cw_meta w3 = cw_meta (fs_world s')"
      "cl_rd w3 = (cl_rd (fs_world s'))((''http://b'', write_key (of_ino trunc_file) (BlockIdx 1)) := None)"
    using late_delete_undoes_publish [OF n0(1) _ n0(2) _ _ n0(3) _ _ _ n0(4) trunc_after_def t run pend trunc_ready pub f]
    by auto
  have "primary p \<in> set (synced AllReplicas p)" by (simp add: synced_def)
  then obtain a where "hm_get [(NodeId ''n2'', ''http://b'')] (primary p) = Some a"
    "cl_rd (fs_world s') (a, write_key (InodeId 2) (BlockIdx 1)) = Some [5, 6, 7, 8]"
    using held unfolding M by (auto simp: f)
  then have "cl_rd (fs_world s') (''http://b'', write_key (InodeId 2) (BlockIdx 1)) = Some [5, 6, 7, 8]"
    by (simp add: hm_get_def split: if_splits)
  moreover have "cl_rd w3 (''http://b'', write_key (InodeId 2) (BlockIdx 1)) = None" by (simp add: w3(3) f)
  moreover have "inodes (cw_meta w3) (InodeId 2) = Some n'" using r(1) by (simp add: w3(2) f)
  ultimately show ?thesis using pub pend w3(1) r(2) by blast
qed

end
