(* ===== verification/Crashes.thy ===== *)
theory Crashes
  imports Publish_Live
begin

text \<open>
  Losing stores.  An fsync that replied Ok has written every dirty block to all nodes of
  its placement; what is left of a file when stores are lost is read off the stores that
  remain.
\<close>

section \<open>What the remaining stores hold\<close>

lemma cl_rd_restrict: "cl_rd (w\<lparr>cw_stores := cw_stores w |` A\<rparr>) (a, k) = (if a \<in> A then cl_rd w (a, k) else None)"
  by (simp add: cl_rd_def)

lemma holds_replicated:
  assumes all: "\<forall>nid \<in> set (primary p # replicas p). \<exists>a. hm_get M nid = Some a \<and> cl_rd w (a, write_key ino idx) = Some b"
    and alive: "\<exists>nid \<in> set (primary p # replicas p). \<exists>a \<in> A. hm_get M nid = Some a"
  shows "holds (w\<lparr>cw_stores := cw_stores w |` A\<rparr>) M ino bs idx p b"
proof -
  let ?w = "w\<lparr>cw_stores := cw_stores w |` A\<rparr>" and ?ns = "primary p # replicas p"
  obtain nid a where "nid \<in> set ?ns" "a \<in> A" "hm_get M nid = Some a" using alive by blast
  moreover from this have "cl_rd w (a, write_key ino idx) = Some b" using all by auto
  ultimately have "\<exists>a. first_up ?w M ?ns = Some a"
    unfolding first_up_iff by (intro bexI [of _ nid] exI [of _ a]) (auto simp: cl_rd_def split: option.splits)
  then obtain a' where a': "first_up ?w M ?ns = Some a'" by blast
  then obtain nid' where "nid' \<in> set ?ns" "hm_get M nid' = Some a'" "a' \<in> A"
    using first_up_SomeD [OF a'] by (auto simp: restrict_map_def split: if_splits)
  then have "cl_rd ?w (a', write_key ino idx) = Some b"
    using all unfolding cl_rd_restrict by auto
  then show ?thesis using a' unfolding holds_def by (intro exI [of _ a']) simp
qed

text \<open>
  What a reader gets for a placed block: the bytes that the first reachable node of the
  placement holds, a block of zeros when that node does not have the block.
\<close>

definition left_of_block :: "cluster \<Rightarrow> (node_id, string) hmap \<Rightarrow> inode_id \<Rightarrow> u64 \<Rightarrow> inode \<Rightarrow> block_idx \<Rightarrow> bytes" where
  "left_of_block w M ino bs n idx =
     (case Option.bind (bt_get (i_blocks n) idx) (\<lambda>p. first_up w M (primary p # replicas p)) of
        None \<Rightarrow> []
      | Some a \<Rightarrow> (case cl_rd w (a, write_key ino idx) of Some b \<Rightarrow> b | None \<Rightarrow> replicate (unat bs) 0))"

lemma left_of_block_holds:
  assumes "bt_get (i_blocks n) idx = Some p" and "first_up w M (primary p # replicas p) \<noteq> None"
  shows "holds w M ino bs idx p (left_of_block w M ino bs n idx)"
  using assms by (auto simp: holds_def left_of_block_def simp del: first_up.simps split: option.split)

section \<open>Fsync\<close>

text \<open>
  C20. Data that was fsynced survives the loss of stores.  After an fsync that replied Ok,
  let every store be lost except those at the addresses of a set \<open>A\<close>.  Of each block that
  was dirty one node of its placement is in \<open>A\<close>, and of each other block of the file some
  node can still be reached.  Then a client that opens the file reads the writer's size,
  for every block that was dirty exactly the writer's bytes, and for every other block
  what its first reachable node holds after the crash, zeros if that node does not have
  it.  So the fsync protects the blocks it wrote and no others: a block that was only
  flushed before, to its primary, is lost with that primary.
\<close>

theorem fsync_survives_crash:
  assumes "publish_ready s fh f n" and "fsync_path (direct xxh3) pick fh s = (Ok (), ts, s')"
    and "M = live_addrs (cw_meta (fs_world s))"
    and "inodes (cw_meta (fs_world s')) (of_ino f) = Some n'"
    and "fs_world r = (fs_world s')\<lparr>cw_stores := cw_stores (fs_world s') |` A\<rparr>"
    and "\<forall>idx p. bt_get (of_dirty f) idx \<noteq> None \<longrightarrow> bt_get (i_blocks n') idx = Some p \<longrightarrow>
      (\<exists>nid \<in> set (primary p # replicas p). \<exists>a \<in> A. hm_get M nid = Some a)"
    and "\<forall>idx p. bt_get (of_dirty f) idx = None \<longrightarrow> bt_get (i_blocks n') idx = Some p \<longrightarrow>
      first_up (fs_world r) M (primary p # replicas p) \<noteq> None"
    and "fresh_for (of_ino f) (bump (of_generation f)) r" and "fs_block_size r = bs"
    and "0 < unat bs" and "unat off + unat sz + unat bs < 2 ^ 64"
  shows "\<exists>fh' r1 r2 f'. fuse_open (direct xxh3) (raw (of_ino f)) flags r = (Ok fh', r1)
    \<and> fs_open_files r1 fh' = Some f' \<and> of_size_hint f' = of_size_hint f
    \<and> fuse_read (direct xxh3) fh' off sz r1
      = Some (Ok (map (file_view (unat bs) (left_of_block (fs_world r) M (of_ino f) bs n') f)
          [unat off..<unat off + unat sz]), r2)"
proof -
  let ?base = "left_of_block (fs_world r) M (of_ino f) bs n'"
  note pub = assms(2) [unfolded fsync_path_def]
  have dirty: "\<forall>nid \<in> set (primary p # replicas p). \<exists>a. hm_get M nid = Some a \<and> cl_rd (fs_world s') (a, write_key (of_ino f) idx) = Some buf"
    if "bt_get (of_dirty f) idx = Some buf" "bt_get (i_blocks n') idx = Some p" for idx buf p
    using publish_readyD [OF assms(1) pub assms(3)] assms(4) that by (auto simp: synced_def)
  have "holds (fs_world r) M (of_ino f) bs idx p (published ?base f idx)" if p: "bt_get (i_blocks n') idx = Some p" for idx p
  proof (cases "bt_get (of_dirty f) idx")
    case None
    then have "first_up (fs_world r) M (primary p # replicas p) \<noteq> None" using assms(7) p by blast
    from left_of_block_holds [OF p this] None show ?thesis by (simp add: published_def)
  next
    case (Some buf)
    have "\<exists>nid \<in> set (primary p # replicas p). \<exists>a \<in> A. hm_get M nid = Some a" using assms(6) Some p by blast
    then show ?thesis
      using holds_replicated [OF dirty [OF Some p]] Some by (simp add: published_def assms(5))
  qed
  then show ?thesis
    using published_read [OF assms(1) pub assms(4) refl _ _ assms(8-11)] assms(3,5) by simp
qed

text \<open>
  Two stores and a file of two blocks, both placed on both nodes.  Block 1 has been flushed
  to its primary only, block 0 is written and fsynced; then the primary of both is lost.
\<close>

abbreviation crash_place :: block_placement where
  "crash_place \<equiv> \<lparr> primary = NodeId ''n2'', replicas = [NodeId ''n3''] \<rparr>"

abbreviation crash_blocks :: "(block_idx, block_placement) btree" where
  "crash_blocks \<equiv> [(BlockIdx 0, crash_place), (BlockIdx 1, crash_place)]"

abbreviation crash_addrs :: "(node_id, string) hmap" where
  "crash_addrs \<equiv> [(NodeId ''n2'', ''http://b''), (NodeId ''n3'', ''http://c'')]"

definition crash_inode :: inode where
  "crash_inode = (the (inodes pub_meta (InodeId 2)))\<lparr>i_blocks := crash_blocks\<rparr>"

definition crash_meta :: meta_state where
  "crash_meta = put_inode (InodeId 2) crash_inode (fst (meta_heartbeat_node 5
     \<lparr> hb_node_id = ''n3'', hb_addr = ''c'', hb_used_bytes = 0, hb_capacity_bytes = 100, hb_epoch_s = 0 \<rparr> pub_meta))"

definition crash_store :: store_state where
  "crash_store = fst (store_write_block \<lparr> wb_key = Some (write_key (InodeId 2) (BlockIdx 1)), wb_data = [7, 7, 7, 7] \<rparr>
     (store_new (NodeId ''n2'') [] 100))"

definition crash_cluster :: cluster where
  "crash_cluster = pub_cluster\<lparr>cw_meta := crash_meta,
     cw_stores := [''http://b'' \<mapsto> crash_store, ''http://c'' \<mapsto> store_new (NodeId ''n3'') [] 100]\<rparr>"

definition crash_file :: open_file where
  "crash_file = \<lparr> of_ino = InodeId 2, of_generation = Generation 0, of_block_map = crash_blocks,
     of_dirty = [(BlockIdx 0, [1, 2, 3, 4])], of_size_hint = 8, of_flags = 0 \<rparr>"

definition crash_writer :: "cluster fs" where
  "crash_writer = (build_fs crash_cluster 1000 4 2 ''t'')\<lparr>fs_open_files := [1 \<mapsto> crash_file]\<rparr>"

lemma crash_simps:
  "inodes crash_meta (InodeId 2) = Some crash_inode" "open_handles crash_meta = open_handles sample_state"
  "live_addrs crash_meta = crash_addrs" "live_nodes crash_meta = [NodeId ''n2'', NodeId ''n3'']"
  "replication_factor crash_meta = 2" "i_kind crash_inode = File" "i_generation crash_inode = Generation 0"
  "i_blocks crash_inode = crash_blocks"
  by (simp_all add: crash_meta_def crash_inode_def ns_simps pub_meta_simps sample_file new_file_inode_def
      meta_heartbeat_node_def Let_def live_addrs_def live_nodes_def node_info_to_proto_def addr_map_of_def hm_collect_def hm_insert_def)

lemma crash_writer_simps:
  "fs_world crash_writer = crash_cluster" "fs_token crash_writer = ''t''" "fs_clients crash_writer = Map.empty"
  "fs_open_files crash_writer 1 = Some crash_file" "cw_meta crash_cluster = crash_meta" "cw_token crash_cluster = ''t''"
  "cw_now crash_cluster = 0"
  "cw_stores crash_cluster = [''http://b'' \<mapsto> crash_store, ''http://c'' \<mapsto> store_new (NodeId ''n3'') [] 100]"
  by (simp_all add: crash_writer_def build_fs_def crash_cluster_def pub_client_simps)

lemma crash_ready: "publish_ready crash_writer 1 crash_file crash_inode"
  by (simp add: publish_ready_def Let_def crash_writer_simps crash_simps crash_file_def maps_agree_def sample_file id_orders)

lemma crash_up: "publish_up 2 crash_writer crash_file crash_inode"
proof -
  have "store_room 8 crash_store"
    using room_write [OF store_room_new [of 12 100 "NodeId ''n2''" "[]"], of "[7, 7, 7, 7]" _ "InodeId 2" "BlockIdx 1", OF _ _ _ refl]
    by (simp add: crash_store_def)
  then have "cluster_room crash_addrs 8 crash_cluster"
    using store_room_new [of 8 100 "NodeId ''n3''" "[]"]
    by (auto simp: cluster_room_def crash_writer_simps hm_get_def split: if_splits)
  then show ?thesis
    by (auto simp: publish_up_def Let_def crash_writer_simps crash_simps crash_file_def clock_ok_def
        placed_up_def hm_get_def bt_get_def split: if_splits)
qed

theorem fsync_survives_crash_witness:
  "\<exists>ts s' fh' r1 r2. fsync_path sample_T (\<lambda>_. 0) 1 crash_writer = (Ok (), ts, s')
     \<and> fuse_open sample_T 2 0 (build_fs ((fs_world s')\<lparr>cw_stores := cw_stores (fs_world s') |` {''http://c''}\<rparr>) 1000 4 2 ''t'') = (Ok fh', r1)
     \<and> fuse_read sample_T fh' 0 8 r1 = Some (Ok [1, 2, 3, 4, 0, 0, 0, 0], r2)"
proof -
  let ?f = crash_file
  obtain ts s' where pub: "publish sample_T (\<lambda>_. 0) 1 AllReplicas crash_writer = (Ok (), ts, s')"
    using publish_replies_ok [OF crash_ready crash_up, of "\<lambda>_ _. 0" "\<lambda>_. 0" AllReplicas] by auto
  then have fs: "fsync_path sample_T (\<lambda>_. 0) 1 crash_writer = (Ok (), ts, s')" by (simp add: fsync_path_def)
  let ?w = "(fs_world s')\<lparr>cw_stores := cw_stores (fs_world s') |` {''http://c''}\<rparr>"
  let ?r = "build_fs ?w 1000 4 2 ''t''"
  have M: "crash_addrs = live_addrs (cw_meta (fs_world crash_writer))" by (simp add: crash_writer_simps crash_simps)
  obtain n' where n': "inodes (cw_meta (fs_world s')) (of_ino ?f) = Some n'"
    and map: "\<forall>idx p. bt_get (i_blocks crash_inode) idx = Some p \<longrightarrow> bt_get (i_blocks n') idx = Some p"
    and dom: "\<forall>idx. bt_get (i_blocks n') idx \<noteq> None \<longleftrightarrow> bt_get (of_block_map ?f) idx \<noteq> None \<or> bt_get (of_dirty ?f) idx \<noteq> None"
    and clean: "\<forall>a idx. bt_get (of_dirty ?f) idx = None \<longrightarrow>
         cl_rd (fs_world s') (a, write_key (of_ino ?f) idx) = cl_rd (fs_world crash_writer) (a, write_key (of_ino ?f) idx)"
    and st: "dom (cw_stores (fs_world s')) = dom (cw_stores (fs_world crash_writer))" "cw_token (fs_world s') = cw_token (fs_world crash_writer)"
    using publish_readyD [OF crash_ready pub M] by blast
  have places: "p = crash_place" if "bt_get (i_blocks n') idx = Some p" for idx p
  proof -
    have sub: "bt_get (of_dirty ?f) idx \<noteq> None \<Longrightarrow> bt_get (of_block_map ?f) idx \<noteq> None"
      by (simp add: crash_file_def bt_get_def split: if_splits)
    have "bt_get (i_blocks n') idx \<noteq> None" using that by simp
    then have "bt_get (of_block_map ?f) idx \<noteq> None" using dom sub by blast
    then have "bt_get (i_blocks crash_inode) idx = Some crash_place"
      by (auto simp: crash_file_def crash_simps bt_get_def split: if_splits)
    then show ?thesis using map that by simp
  qed
  have "''http://c'' \<in> dom (cw_stores (fs_world s'))" unfolding st by (simp add: crash_writer_simps)
  then have up: "first_up ?w crash_addrs (primary crash_place # replicas crash_place) = Some ''http://c''"
    by (auto simp: hm_get_def)
  have r: "fresh_for (of_ino ?f) (bump (of_generation ?f)) ?r" "fs_block_size ?r = 4" "fs_world ?r = ?w"
    using st(2) by (simp_all add: build_fs_def fresh_for_def Let_def crash_writer_simps)
  have alive: "\<forall>idx p. bt_get (of_dirty ?f) idx \<noteq> None \<longrightarrow> bt_get (i_blocks n') idx = Some p \<longrightarrow>
      (\<exists>nid \<in> set (primary p # replicas p). \<exists>a \<in> {''http://c''}. hm_get crash_addrs nid = Some a)"
  proof (intro allI impI)
    fix idx p assume "bt_get (i_blocks n') idx = Some p"
    from places [OF this] show "\<exists>nid \<in> set (primary p # replicas p). \<exists>a \<in> {''http://c''}. hm_get crash_addrs nid = Some a"
      by (simp add: hm_get_def)
  qed
  have others: "\<forall>idx p. bt_get (of_dirty ?f) idx = None \<longrightarrow> bt_get (i_blocks n') idx = Some p \<longrightarrow>
      first_up (fs_world ?r) crash_addrs (primary p # replicas p) \<noteq> None"
  proof (intro allI impI)
    fix idx p assume "bt_get (i_blocks n') idx = Some p"
    from places [OF this] show "first_up (fs_world ?r) crash_addrs (primary p # replicas p) \<noteq> None"
      unfolding r(3) using up by (simp del: first_up.simps)
  qed
  define base where "base = left_of_block ?w crash_addrs (InodeId 2) 4 n'"
  have "bt_get (i_blocks n') (BlockIdx 1) = Some crash_place" using map by (simp add: crash_simps bt_get_def)
  moreover have "cl_rd ?w (''http://c'', write_key (InodeId 2) (BlockIdx 1)) = None"
    using clean [rule_format, of "BlockIdx 1" "''http://c''"]
    by (simp add: cl_rd_restrict crash_file_def bt_get_def) (simp add: cl_rd_def crash_writer_simps store_rd_eq store_new_def hm_get_def)
  moreover have "unat (4 :: u64) = 4" "replicate 4 (0 :: u8) = [0, 0, 0, 0]" by (simp, simp add: numeral_eq_Suc)
  ultimately have "base (BlockIdx 1) = [0, 0, 0, 0]"
    using up by (simp add: base_def left_of_block_def del: first_up.simps)
  then have blk: "block_view base ?f (BlockIdx 0) = [1, 2, 3, 4]" "block_view base ?f (BlockIdx 1) = [0, 0, 0, 0]"
    by (simp_all add: block_view_def crash_file_def bt_get_def bt_contains_def)
  have upt: "[unat (0 :: i64)..<unat (0 :: i64) + unat (8 :: u32)] = [0, 1, 2, 3, 4, 5, 6, 7]" by (simp add: upt_rec)
  have view: "map (file_view (unat (4 :: u64)) base ?f) [unat (0 :: i64)..<unat (0 :: i64) + unat (8 :: u32)] = [1, 2, 3, 4, 0, 0, 0, 0]"
    unfolding upt by (simp add: file_view_def blk byte_of_def)
  have ino: "of_ino ?f = InodeId 2" by (simp add: crash_file_def)
  obtain fh' r1 r2 where "fuse_open sample_T (raw (of_ino ?f)) 0 ?r = (Ok fh', r1)"
    "fuse_read sample_T fh' 0 8 r1 = Some (Ok (map (file_view (unat (4 :: u64)) (left_of_block (fs_world ?r) crash_addrs (of_ino ?f) 4 n') ?f)
       [unat (0 :: i64)..<unat (0 :: i64) + unat (8 :: u32)]), r2)"
    using fsync_survives_crash [OF crash_ready fs M n' r(3) alive others r(1,2), of 0 8 0] by auto
  then have "fuse_open sample_T 2 0 ?r = (Ok fh', r1)" "fuse_read sample_T fh' 0 8 r1 = Some (Ok [1, 2, 3, 4, 0, 0, 0, 0], r2)"
    using view unfolding r(3) ino base_def by simp_all
  then show ?thesis using fs by blast
qed

end
