(* ===== verification/Fuse_Props.thy ===== *)
theory Fuse_Props
  imports Client_Fuse Publish_Props
begin

text \<open>
  The FUSE requests against a cluster: the listing of a directory, the errors an
  application sees, the session from create to a reader's open.
\<close>

section \<open>Requests delivered to the metadata server\<close>

lemma world_same [simp]: "s\<lparr>fs_world := fs_world s\<rparr> = s" "w\<lparr>cw_meta := cw_meta w\<rparr> = w"
  by simp_all

lemma fuse_call_err:
  assumes "authed_call T f s = (Err st, s1)"
  shows "fuse_call T f k s = (Err (to_errno (from_status st None)), s1)"
  using assms by (simp add: fuse_call_def)

section \<open>Listing a directory\<close>

lemma bt_after_nth:
  assumes "bt_wf d" and "k < length d"
  shows "bt_after (fst (d ! k)) d = drop (Suc k) d"
  using assms
proof (induction d arbitrary: k)
  case (Cons e d)
  have after: "bt_after (fst e) d = d"
    using Cons.prems(1) by (auto simp: bt_after_def intro!: filter_True)
  show ?case
  proof (cases k)
    case 0
    then show ?thesis using after by (cases e) (simp add: bt_after_def)
  next
    case (Suc j)
    have "fst e < fst (d ! j)" using Cons.prems Suc by simp
    then have "bt_after (fst (d ! j)) (e # d) = bt_after (fst (d ! j)) d"
      by (cases e) (simp add: bt_after_def)
    then show ?thesis using Cons Suc by simp
  qed
qed simp

lemma bt_wf_nth_less: "bt_wf d \<Longrightarrow> i < j \<Longrightarrow> j < length d \<Longrightarrow> fst (d ! i) < fst (d ! j)"
  using sorted_wrt_nth_less [of "(<)" "map fst d" i j] by (simp add: bt_wf_def)

text \<open>The cookie that stands for the first \<open>k\<close> entries.\<close>

definition cookie_at :: "dir \<Rightarrow> nat \<Rightarrow> string" where
  "cookie_at d k = (if k = 0 then [] else fst (d ! (k - 1)))"

lemma cookie_at_nonempty:
  assumes "bt_wf d" and "Suc 0 < k" and "k \<le> length d"
  shows "cookie_at d k \<noteq> []"
proof -
  have "fst (d ! 0) < fst (d ! (k - 1))" using assms by (intro bt_wf_nth_less) auto
  then show ?thesis using assms by (auto simp: cookie_at_def)
qed

lemma meta_read_dir_page:
  assumes dir: "dirs m (InodeId ino) = Some d" and wf: "bt_wf d"
    and names: "\<forall>e \<in> set d. valid_utf8 (fst e)" and k: "k = 0 \<or> Suc 0 < k" "k \<le> length d"
  shows "meta_read_dir \<lparr> rq_ino = ino, rq_cookie = cookie_at d k, rq_max_entries = 256 \<rparr> m =
    Ok \<lparr> rr_entries = map (dir_entry_of m) (take 256 (drop k d)),
         rr_next_cookie = (if k < length d then cookie_at d (min (k + 256) (length d)) else []),
         rr_eof = length d - k < 256 \<rparr>"
proof -
  have it: "(if unwrap_or (from_utf8 (cookie_at d k)) [] = [] then d
      else bt_after (unwrap_or (from_utf8 (cookie_at d k)) []) d) = drop k d"
  proof (cases "k = 0")
    case True
    then show ?thesis by (simp add: cookie_at_def from_utf8_def)
  next
    case False
    then have k1: "k - 1 < length d" "Suc (k - 1) = k" using k by auto
    then have "valid_utf8 (cookie_at d k)" using names False by (simp add: cookie_at_def)
    moreover have "bt_after (cookie_at d k) d = drop k d"
      using bt_after_nth [OF wf k1(1)] k1 False by (simp add: cookie_at_def)
    ultimately show ?thesis using cookie_at_nonempty [OF wf _ k(2)] k False by simp
  qed
  have nxt: "de_name (last (map (dir_entry_of m) (take 256 (drop k d)))) = cookie_at d (min (k + 256) (length d))"
    if "k < length d"
  proof -
    have ne: "take 256 (drop k d) \<noteq> []" using that by simp
    have "last (take 256 (drop k d)) = d ! (min (k + 256) (length d) - 1)"
      using that by (simp add: last_conv_nth ne del: take_eq_Nil) (auto simp: min_def intro!: arg_cong [where f = "(!) d"])
    moreover have "cookie_at d (min (k + 256) (length d)) = fst (d ! (min (k + 256) (length d) - 1))"
      using that by (auto simp: cookie_at_def)
    ultimately show ?thesis using ne by (simp add: last_map dir_entry_of_def)
  qed
  show ?thesis
    using nxt by (auto simp: meta_read_dir_def dir Let_def it)
qed

text \<open>
  The loop appends page after page, as long as the fuel lasts; a page of fewer than 256
  entries is the last one.
\<close>

lemma read_dir_direct:
  assumes "fs_token s = cw_token (fs_world s)" and "meta_read_dir rq (cw_meta (fs_world s)) = Ok resp"
  shows "authed_call (direct xxh3) (\<lambda>md. t_read_dir (direct xxh3) md rq) s = (Ok resp, s)"
  using authed_call_meta_eq [of s "\<lambda>md. t_read_dir (direct xxh3) md rq" "\<lambda>m. (m, meta_read_dir rq m)" xxh3] assms
  by (simp add: direct_simps rpc_of_def)

lemma readdir_loop_direct:
  assumes tok: "fs_token s = cw_token (fs_world s)" and m: "m = cw_meta (fs_world s)"
    and dir: "dirs m (InodeId ino) = Some d" and wf: "bt_wf d"
    and names: "\<forall>e \<in> set d. valid_utf8 (fst e)"
  shows "k = 0 \<or> Suc 0 < k \<Longrightarrow> k \<le> length d \<Longrightarrow> (length d - k) div 256 < fuel \<Longrightarrow>
    readdir_loop fuel (direct xxh3) ino (cookie_at d k) (map (dir_entry_of m) (take k d)) s
      = Some (Ok (map (dir_entry_of m) d), s)"
proof (induction fuel arbitrary: k)
  case (Suc fuel)
  note page = read_dir_direct [of s "\<lparr> rq_ino = ino, rq_cookie = cookie_at d k, rq_max_entries = 256 \<rparr>" _ xxh3,
      OF tok, folded m, OF meta_read_dir_page [OF dir wf names Suc.prems(1,2)]]
  have acc: "map (dir_entry_of m) (take k d) @ map (dir_entry_of m) (take 256 (drop k d))
      = map (dir_entry_of m) (take (k + 256) d)"
    by (simp add: take_add)
  show ?case
  proof (cases "length d - k < 256")
    case True
    then show ?thesis
      unfolding readdir_loop.simps page by (simp add: Let_def flip: map_append)
  next
    case False
    then have k: "k + 256 \<le> length d" by linarith
    have "(length d - (k + 256)) div 256 < fuel"
      using le_div_geq [of 256 "length d - k"] False Suc.prems(3) by (simp add: diff_diff_left)
    then have "readdir_loop fuel (direct xxh3) ino (cookie_at d (k + 256)) (map (dir_entry_of m) (take (k + 256) d)) s
        = Some (Ok (map (dir_entry_of m) d), s)"
      using k by (intro Suc.IH) auto
    moreover have "k < length d" "min (k + 256) (length d) = k + 256" using k by auto
    ultimately show ?thesis
      unfolding readdir_loop.simps page using False by (simp add: Let_def acc)
  qed
qed simp

lemma readdir_loop_all:
  assumes "fs_token s = cw_token (fs_world s)" and "dirs (cw_meta (fs_world s)) (InodeId ino) = Some d"
    and "bt_wf d" and "\<forall>e \<in> set d. valid_utf8 (fst e)" and "length d div 256 < fuel"
  shows "readdir_loop fuel (direct xxh3) ino [] [] s = Some (Ok (map (dir_entry_of (cw_meta (fs_world s))) d), s)"
  using readdir_loop_direct [OF assms(1) refl assms(2-4), of 0 fuel xxh3] assms(5) by (simp add: cookie_at_def)

text \<open>What a listing should show: every entry of the directory, numbered from 1, with the kind of its inode.\<close>

definition dirent_at :: "meta_state \<Rightarrow> dir \<Rightarrow> nat \<Rightarrow> dirent" where
  "dirent_at m d i = \<lparr> d_ino = raw (snd (d ! i)), d_offset = of_nat (i + 1),
     d_kind = (case inodes m (snd (d ! i)) of
        None \<Rightarrow> RegularFile
      | Some n \<Rightarrow> (case i_kind n of File \<Rightarrow> RegularFile | Dir \<Rightarrow> Directory | Symlink \<Rightarrow> SymlinkFile)),
     d_name = fst (d ! i) \<rparr>"

lemma kind_to_fuse:
  "proto_kind_to_fuse (de_kind (dir_entry_of m e)) = (case inodes m (snd e) of
        None \<Rightarrow> RegularFile
      | Some n \<Rightarrow> (case i_kind n of File \<Rightarrow> RegularFile | Dir \<Rightarrow> Directory | Symlink \<Rightarrow> SymlinkFile))"
  by (simp add: dir_entry_of_def proto_kind_to_fuse_def split: option.splits inode_kind.splits)

lemma fill_reply_prefix:
  "\<exists>n \<le> length es. fill_reply full es acc = acc @ map (\<lambda>(i, e). \<lparr> d_ino = de_ino e, d_offset = of_nat (i + 1),
       d_kind = proto_kind_to_fuse (de_kind e), d_name = de_name e \<rparr>) (take n es)
     \<and> (n < length es \<longrightarrow> full (fill_reply full es acc)
          ((\<lambda>(i, e). \<lparr> d_ino = de_ino e, d_offset = of_nat (i + 1),
             d_kind = proto_kind_to_fuse (de_kind e), d_name = de_name e \<rparr>) (es ! n)))"
proof (induction es arbitrary: acc)
  case (Cons x es)
  obtain i e where x: "x = (i, e)" by (cases x)
  let ?d = "\<lparr> d_ino = de_ino e, d_offset = of_nat (i + 1), d_kind = proto_kind_to_fuse (de_kind e), d_name = de_name e \<rparr>"
  show ?case
  proof (cases "full acc ?d")
    case True
    then show ?thesis by (intro exI [of _ 0]) (simp add: x)
  next
    case False
    obtain n where "n \<le> length es" and n: "fill_reply full es (acc @ [?d]) = (acc @ [?d]) @ map (\<lambda>(i, e). \<lparr> d_ino = de_ino e, d_offset = of_nat (i + 1),
        d_kind = proto_kind_to_fuse (de_kind e), d_name = de_name e \<rparr>) (take n es)"
      "n < length es \<longrightarrow> full (fill_reply full es (acc @ [?d]))
          ((\<lambda>(i, e). \<lparr> d_ino = de_ino e, d_offset = of_nat (i + 1),
             d_kind = proto_kind_to_fuse (de_kind e), d_name = de_name e \<rparr>) (es ! n))"
      using Cons.IH [of "acc @ [?d]"] by blast
    then show ?thesis using False by (intro exI [of _ "Suc n"]) (simp add: x Let_def)
  qed
qed simp

text \<open>
  C22. A directory listing is complete.  For a directory of any length, a readdir at an
  offset returns consecutive entries of the directory in name order, starting at that
  offset, each with its inode number, its type, and the offset at which the next call
  continues; it stops only at the end of the directory or at an entry the kernel's buffer
  refuses.  The pages the client asks the metadata server for meet without a gap or an
  overlap, and \<open>length d div 256 + 1\<close> of them are enough.
\<close>

theorem readdir_lists_directory:
  assumes "fs_token s = cw_token (fs_world s)" and "dirs (cw_meta (fs_world s)) (InodeId ino) = Some d"
    and "bt_wf d" and "\<forall>e \<in> set d. valid_utf8 (fst e)" and "length d div 256 < fuel"
  shows "\<exists>n \<le> length d - unat off. let L = map (dirent_at (cw_meta (fs_world s)) d) [unat off..<unat off + n] in
    fuse_readdir fuel (direct xxh3) full ino off s = Some (Ok L, s)
    \<and> (unat off + n < length d \<longrightarrow> full L (dirent_at (cw_meta (fs_world s)) d (unat off + n)))"
proof -
  let ?m = "cw_meta (fs_world s)" and ?o = "unat off"
  let ?conv = "\<lambda>(i, e). \<lparr> d_ino = de_ino e, d_offset = of_nat (i + 1), d_kind = proto_kind_to_fuse (de_kind e), d_name = de_name e \<rparr>"
  let ?es = "drop ?o (enumerate 0 (map (dir_entry_of ?m) d))"
  have nth: "?conv (?es ! j) = dirent_at ?m d (?o + j)" if "?o + j < length d" for j
  proof -
    have "?es ! j = (?o + j, dir_entry_of ?m (d ! (?o + j)))"
      using that by (simp add: nth_enumerate_eq)
    then show ?thesis
      by (simp add: kind_to_fuse dirent_at_def) (simp add: dir_entry_of_def)
  qed
  obtain n where n: "n \<le> length ?es" "fill_reply full ?es [] = map ?conv (take n ?es)"
    "n < length ?es \<longrightarrow> full (fill_reply full ?es []) (?conv (?es ! n))"
    using fill_reply_prefix [of ?es full "[]"] by auto
  have "map ?conv (take n ?es) = map (dirent_at ?m d) [?o..<?o + n]"
  proof (rule nth_equalityI)
    fix j assume "j < length (map ?conv (take n ?es))"
    then have j: "j < n" "?o + j < length d" using n(1) by auto
    then show "map ?conv (take n ?es) ! j = map (dirent_at ?m d) [?o..<?o + n] ! j"
      using nth [OF j(2)] n(1) by simp
  qed (use n(1) in simp)
  then show ?thesis
    using n nth [of n] readdir_loop_all [OF assms] by (intro exI [of _ n]) (auto simp: fuse_readdir_def Let_def)
qed

theorem readdir_lists_directory_witness:
  "\<exists>L. fuse_readdir 1 sample_T (\<lambda>_ _. False) 1 0
       ((build_fs pub_cluster 1000 4 2 ''t'')) = Some (Ok L, build_fs pub_cluster 1000 4 2 ''t'') \<and> map d_name L = [''f''] \<and> map d_ino L = [2]"
proof -
  let ?s = "build_fs pub_cluster 1000 4 2 ''t''"
  have w: "fs_token ?s = cw_token (fs_world ?s)" "cw_meta (fs_world ?s) = pub_meta"
    by (simp_all add: build_fs_def pub_client_simps)
  have "dirs pub_meta = dirs sample_state"
    by (simp add: pub_meta_def meta_heartbeat_node_def Let_def)
  then have d: "dirs (cw_meta (fs_world ?s)) (InodeId 1) = Some [(''f'', InodeId 2)]"
    by (simp add: w(2) sample_dirs)
  have "\<exists>n\<le>length [(''f'', InodeId 2)] - unat (0 :: i64).
     let L = map (dirent_at (cw_meta (fs_world ?s)) [(''f'', InodeId 2)]) [unat (0 :: i64)..<unat (0 :: i64) + n] in
     fuse_readdir 1 sample_T (\<lambda>_ _. False) 1 0 ?s = Some (Ok L, ?s)
     \<and> (unat (0 :: i64) + n < length [(''f'', InodeId 2)] \<longrightarrow> False)"
    by (rule readdir_lists_directory [OF w(1) d]) (simp_all add: valid_utf8.simps)
  then show ?thesis by (auto simp: Let_def dirent_at_def le_Suc_eq)
qed

section \<open>Reads and writes return\<close>

text \<open>
  C35. Reads and writes return.  For every transport, that is whatever the servers answer
  and however often, a read and a write whose range ends at least a block before the end
  of the 64 bit range return to the kernel, with data, an error, or a panic; the loops
  over the blocks never run on.
\<close>

theorem read_write_return:
  assumes "unat off + unat sz + unat (fs_block_size s) < 2 ^ 64"
    and "unat off + length data + unat (fs_block_size s) < 2 ^ 64"
  shows "fuse_read T fh off sz s \<noteq> None \<and> fuse_write T fh off data s \<noteq> None"
proof
  have e: "unat (off + ucast sz) = unat off + unat sz"
    using assms(1) by (simp add: unat_word_ariths(1) unat_ucast_u32)
  have d: "unat (off + of_nat (length data)) = unat off + length data"
    using assms(2) by (simp add: unat_word_ariths(1) unat_of_nat)
  have r: "read_file T off sz f s \<noteq> None" for f
    unfolding read_file_def Let_def by (rule read_loop_returns) (use assms(1) e in simp_all)
  show "fuse_read T fh off sz s \<noteq> None"
    using r [of "the (fs_open_files s fh)"] by (cases "fs_open_files s fh") (auto simp: fuse_read_def)
  have w: "apply_write T off data f s \<noteq> None" for f
    using write_loop_returns [of "off + of_nat (length data)" "fs_block_size s" off "Suc (length data)" "fetch_block T" data 0 f s] assms(2) d
    by (auto simp: apply_write_def apply_write_with_def Let_def simp del: write_loop.simps split: option.split result.split)
  show "fuse_write T fh off data s \<noteq> None"
    using w [of "the (fs_open_files s fh)"] by (cases "fs_open_files s fh") (auto simp: fuse_write_def)
qed

theorem read_write_return_witness:
  "fuse_read sample_T 1 0 7 (pub_client 0) \<noteq> None \<and> fuse_write sample_T 1 0 [1, 2, 3] (pub_client 0) \<noteq> None"
  by (rule read_write_return) (simp_all add: pub_client_def build_fs_def)

section \<open>What errors an application sees\<close>

lemma fuse_call_errno:
  assumes "\<And>a t. fst (k a t) \<notin> Err ` {ENOTEMPTY, EISDIR, ENOTDIR}"
  shows "fst (fuse_call T f k s) \<notin> Err ` {ENOTEMPTY, EISDIR, ENOTDIR}"
proof -
  obtain r s1 where c: "authed_call T f s = (r, s1)" by fastforce
  show ?thesis
  proof (cases r)
    case (Ok a)
    then show ?thesis using assms [of a s1] c by (simp add: fuse_call_def)
  next
    case (Err st)
    then show ?thesis
      using c from_status_not_dir_errors [of st None] to_errno_dir_errors [of "from_status st None"]
      by (simp add: fuse_call_def)
  qed (use c in \<open>simp add: fuse_call_def image_iff\<close>)
qed

lemma reply_errno:
  "fst (attr_reply T key a s) \<notin> Err ` {ENOTEMPTY, EISDIR, ENOTDIR}"
  "fst (unit_reply u s) \<notin> Err ` {ENOTEMPTY, EISDIR, ENOTDIR}"
  by (auto simp: attr_reply_def unit_reply_def split: option.splits)

text \<open>
  Directory error numbers never reach the application.  Whatever the metadata server,
  the network or the clock do, no namespace request ever fails with ENOTEMPTY, EISDIR or
  ENOTDIR, though the client's error type has variants for all three: a gRPC status
  cannot carry them.
\<close>

theorem no_directory_errno:
  "fst (fuse_unlink T parent name s) \<notin> Err ` {ENOTEMPTY, EISDIR, ENOTDIR}
   \<and> fst (fuse_rmdir T parent name s) \<notin> Err ` {ENOTEMPTY, EISDIR, ENOTDIR}
   \<and> fst (fuse_rename T parent name newparent newname s) \<notin> Err ` {ENOTEMPTY, EISDIR, ENOTDIR}
   \<and> fst (fuse_create T uid gid parent name mode flags s) \<notin> Err ` {ENOTEMPTY, EISDIR, ENOTDIR}
   \<and> fst (fuse_mkdir T uid gid parent name mode s) \<notin> Err ` {ENOTEMPTY, EISDIR, ENOTDIR}
   \<and> fst (fuse_lookup T parent name s) \<notin> Err ` {ENOTEMPTY, EISDIR, ENOTDIR}
   \<and> fst (fuse_open T ino flags s) \<notin> Err ` {ENOTEMPTY, EISDIR, ENOTDIR}"
proof (intro conjI)
  show "fst (fuse_unlink T parent name s) \<notin> Err ` {ENOTEMPTY, EISDIR, ENOTDIR}"
    "fst (fuse_rmdir T parent name s) \<notin> Err ` {ENOTEMPTY, EISDIR, ENOTDIR}"
    "fst (fuse_rename T parent name newparent newname s) \<notin> Err ` {ENOTEMPTY, EISDIR, ENOTDIR}"
    "fst (fuse_mkdir T uid gid parent name mode s) \<notin> Err ` {ENOTEMPTY, EISDIR, ENOTDIR}"
    unfolding fuse_unlink_def fuse_rmdir_def fuse_rename_def fuse_mkdir_def by (rule fuse_call_errno, rule reply_errno)+
  show "fst (fuse_create T uid gid parent name mode flags s) \<notin> Err ` {ENOTEMPTY, EISDIR, ENOTDIR}"
    unfolding fuse_create_def by (rule fuse_call_errno) (auto split: option.splits prod.splits)
  show "fst (fuse_lookup T parent name s) \<notin> Err ` {ENOTEMPTY, EISDIR, ENOTDIR}"
    unfolding fuse_lookup_def by (rule fuse_call_errno) (auto simp: attr_reply_def split: option.splits)
  show "fst (fuse_open T ino flags s) \<notin> Err ` {ENOTEMPTY, EISDIR, ENOTDIR}"
    unfolding fuse_open_def by (rule fuse_call_errno) (auto split: option.splits prod.splits)
qed

lemma to_meta_tasks_token:
  assumes "cw_token w = token"
  shows "to_meta_tasks [''cluster-token'' \<mapsto> token] h w = (case h (cw_meta w) of (m, ts, r) \<Rightarrow>
    (rpc_of r, w\<lparr>cw_meta := m, cw_tasks := cw_tasks w @ ts\<rparr>))"
  using assms by (simp add: to_meta_tasks_def check_token_def)

text \<open>
  What rmdir and unlink of a directory answer.  On a cluster, unlink of an entry that
  is a directory fails with EINVAL, and rmdir of a directory that has entries fails with
  EIO; neither changes anything.
\<close>

theorem directory_request_errno:
  assumes "fs_token s = cw_token (fs_world s)" and "m = cw_meta (fs_world s)"
    and "entry m (InodeId parent) (to_string_lossy name) = Some c"
    and "inodes m c = Some n" and "i_kind n = Dir" and "dirs m c = Some d" and "d \<noteq> []"
  shows "fuse_unlink (direct xxh3) parent name s = (Err EINVAL, s)
    \<and> fuse_rmdir (direct xxh3) parent name s = (Err EIO, s)"
proof
  let ?u = "\<lparr> ul_parent_ino = parent, ul_name = to_string_lossy name \<rparr>"
  let ?r = "\<lparr> rd_parent_ino = parent, rd_name = to_string_lossy name \<rparr>"
  have "meta_unlink token ?u m = (m, [], Err (st_invalid_argument ''is a directory''))" for token
    using assms(3-5) by (simp add: meta_unlink_def)
  then have "authed_call (direct xxh3) (\<lambda>md. t_unlink (direct xxh3) md ?u) s = (Err (st_invalid_argument ''is a directory''), s)"
    using authed_call_eq [of "direct xxh3" s "fs_token s" _ "\<lambda>md. t_unlink (direct xxh3) md ?u", OF _ refl] assms(1,2)
    by (simp add: direct_def to_meta_tasks_token rpc_of_def)
  then show "fuse_unlink (direct xxh3) parent name s = (Err EINVAL, s)"
    by (simp add: fuse_unlink_def fuse_call_err from_status_def)
  have "meta_rmdir ?r m = (m, Err (st_failed_precondition ''directory not empty''))"
    using assms(3,6,7) by (simp add: meta_rmdir_def)
  then have "authed_call (direct xxh3) (\<lambda>md. t_rmdir (direct xxh3) md ?r) s = (Err (st_failed_precondition ''directory not empty''), s)"
    using authed_call_meta_eq [of s "\<lambda>md. t_rmdir (direct xxh3) md ?r" "meta_rmdir ?r" xxh3] assms(1,2)
    by (simp add: direct_simps rpc_of_def)
  then show "fuse_rmdir (direct xxh3) parent name s = (Err EIO, s)"
    by (simp add: fuse_rmdir_def fuse_call_err from_status_def)
qed

definition dir_state :: meta_state where
  "dir_state = fst (meta_create 0 \<lparr> cr_parent_ino = 2, cr_name = ''x'', cr_mode = 420, cr_uid = 0, cr_gid = 0 \<rparr>
     (fst (meta_mkdir 0 \<lparr> mk_parent_ino = 1, mk_name = ''d'', mk_mode = 493, mk_uid = 0, mk_gid = 0 \<rparr> (meta_new 0 2))))"

definition dir_client :: "cluster fs" where
  "dir_client = build_fs (sample_cluster\<lparr>cw_meta := dir_state\<rparr>) 1000 4 2 ''t''"

lemma dir_state_simps:
  "entry dir_state (InodeId 1) ''d'' = Some (InodeId 2)" "dirs dir_state (InodeId 2) = Some [(''x'', InodeId 3)]"
  "map_option i_kind (inodes dir_state (InodeId 2)) = Some Dir"
  by (simp_all add: dir_state_def meta_mkdir_def meta_create_def Let_def meta_new_def ROOT_def alloc_ino_def alloc_fh_def
      with_dir_def bt_contains_def bt_get_def put_inode_def entry_def modify_inode_def nlink_inc_def new_dir_inode_def)

theorem directory_request_errno_witness:
  "fuse_unlink sample_T 1 ''d'' dir_client = (Err EINVAL, dir_client)
   \<and> fuse_rmdir sample_T 1 ''d'' dir_client = (Err EIO, dir_client)"
proof -
  have w: "fs_token dir_client = cw_token (fs_world dir_client)" "dir_state = cw_meta (fs_world dir_client)"
    by (simp_all add: dir_client_def build_fs_def sample_cluster_def)
  have l: "to_string_lossy ''d'' = ''d''" by simp
  obtain n where n: "inodes dir_state (InodeId 2) = Some n" "i_kind n = Dir" using dir_state_simps(3) by auto
  show ?thesis
    by (rule directory_request_errno [OF w _ n dir_state_simps(2)]) (simp_all add: l dir_state_simps(1))
qed

section \<open>Truncating an open file\<close>

lemma open_files_attr_reply: "attr_reply T key a s = (r, s') \<Longrightarrow> fs_open_files s' = fs_open_files s"
  by (auto simp: attr_reply_def attr_cache_insert_def split: option.splits)

lemma open_files_fuse_call:
  assumes "fuse_call T f k s = (r, s')" and "\<And>a t r' t'. k a t = (r', t') \<Longrightarrow> fs_open_files t' = fs_open_files t"
  shows "fs_open_files s' = fs_open_files s"
proof -
  obtain q s1 where c: "authed_call T f s = (q, s1)" by fastforce
  note same = open_files_authed_call [OF c]
  show ?thesis
  proof (cases q)
    case (Ok a)
    then show ?thesis using assms(2) [of a s1 r s'] assms(1) c same by (simp add: fuse_call_def)
  qed (use assms(1) c same in \<open>simp_all add: fuse_call_def\<close>)
qed

lemma open_files_setattr:
  "fuse_setattr T ino mode uid gid sz atime mtime s = (r, s') \<Longrightarrow> fs_open_files s' = fs_open_files s"
  unfolding fuse_setattr_def
  by (erule open_files_fuse_call) (auto dest: open_files_attr_reply split: option.splits)

lemma load_block_same:
  assumes "load_block fetch bs idx whole f s = (r, f1, s1)"
  shows "same_file f f1 \<and> of_size_hint f1 = of_size_hint f"
  using assms by (auto simp: load_block_def same_file_def split: if_splits prod.splits result.splits)

lemma copy_chunk_same:
  assumes "copy_chunk idx i n w data f = Some f1"
  shows "same_file f f1 \<and> of_size_hint f1 = of_size_hint f"
  using assms by (auto simp: copy_chunk_def same_file_def split: if_splits option.splits)

lemma write_loop_same:
  assumes "write_loop fuel fetch bs end' data cur written f s = Some (r, f', s')"
  shows "same_file f f' \<and> of_size_hint f' = of_size_hint f"
  using assms
proof (induction fuel arbitrary: cur written f s)
  case (Suc fuel)
  let ?idx = "BlockIdx (cur div bs)" and ?off = "cur div bs * bs"
  let ?n = "min (?off + bs) end' - cur"
  obtain q f1 s1 where l: "load_block fetch bs ?idx (cur - ?off = 0 \<and> ?n = bs) f s = (q, f1, s1)"
    by (metis prod_cases3)
  note 1 = load_block_same [OF l]
  show ?case
  proof (cases "cur < end' \<and> bs \<noteq> 0")
    case False
    then show ?thesis using Suc.prems by (auto split: if_splits)
  next
    case True
    show ?thesis
    proof (cases q)
      case (Ok u)
      show ?thesis
      proof (cases "copy_chunk ?idx (unat (cur - ?off)) (unat ?n) (unat written) data f1")
        case None
        then show ?thesis using Suc.prems True l Ok 1 by (simp add: Let_def)
      next
        case (Some f2)
        note 2 = copy_chunk_same [OF Some]
        have "write_loop fuel fetch bs end' data (cur + ?n) (written + ucast ?n) f2 s1 = Some (r, f', s')"
          using Suc.prems True l Ok Some by (simp add: Let_def)
        from Suc.IH [OF this] 1 2 show ?thesis by (simp add: same_file_def)
      qed
    qed (use Suc.prems True l 1 in \<open>simp_all add: Let_def\<close>)
  qed
qed simp

lemma apply_write_same:
  assumes "apply_write T offset data f s = Some (Ok n, f', s')"
  shows "same_file f f' \<and> of_size_hint f' = max (of_size_hint f) (offset + of_nat (length data))"
proof -
  let ?stop = "offset + of_nat (length data)"
  let ?loop = "write_loop (Suc (length data)) (fetch_block T) (fs_block_size s) ?stop data offset 0 f s"
  have "\<exists>f1. ?loop = Some (Ok n, f1, s') \<and> f' = f1\<lparr>of_size_hint := max (of_size_hint f1) ?stop\<rparr>"
    using assms unfolding apply_write_def apply_write_with_def Let_def
    by (cases ?loop) (auto split: result.splits simp del: write_loop.simps)
  then show ?thesis
    using write_loop_same [of "Suc (length data)" "fetch_block T" "fs_block_size s" ?stop data offset 0 f s "Ok n" _ s']
    by (auto simp: same_file_def simp del: write_loop.simps)
qed

text \<open>
  A truncation is not seen by the handles that are open.  Let a file be open, as it
  is when the kernel opens it with O_TRUNC and then sends the truncation.  Setting the
  size, to any value and whatever the metadata server replies, followed by a write
  through the handle, leaves the handle with its old block placements and generation, and
  with a size that is at least the size before the truncation: this is the size the next
  publish installs, so the old length comes back.
\<close>

theorem truncate_not_seen_by_handle:
  assumes "fs_open_files s fh = Some f"
    and "fuse_setattr T ino mode uid gid (Some sz) atime mtime s = (r, s1)"
    and "fuse_write T fh off data s1 = Some (Ok n, s2)"
  shows "\<exists>f2. fs_open_files s2 fh = Some f2 \<and> of_block_map f2 = of_block_map f \<and> of_generation f2 = of_generation f
    \<and> of_size_hint f2 = max (of_size_hint f) (off + of_nat (length data))"
proof -
  have "fs_open_files s1 fh = Some f" using open_files_setattr [OF assms(2)] assms(1) by simp
  then obtain q f2 s' where w: "apply_write T off data f s1 = Some (q, f2, s')" and q: "errno_of q = Ok n"
    and s2: "s2 = put_open_file fh f2 s'"
    using assms(3) by (auto simp: fuse_write_def split: option.splits prod.splits)
  have "q = Ok n" using q by (cases q) (simp_all add: errno_of_def)
  with apply_write_same [of T off data f s1 n f2 s'] w s2 show ?thesis
    by (simp add: put_open_file_def same_file_def)
qed

lemma block_size_setattr:
  assumes "fuse_setattr T ino mode uid gid sz atime mtime s = (r, s')"
  shows "fs_block_size s' = fs_block_size s"
  using assms unfolding fuse_setattr_def fuse_call_def authed_call_def
  by (auto simp: attr_reply_def attr_cache_insert_def split: result.splits prod.splits sum.splits option.splits)

theorem truncate_not_seen_by_handle_witness:
  "\<exists>r s1 s2 f2. fuse_setattr sample_T 2 None None None (Some 0) None None
       ((pub_client 0)\<lparr>fs_open_files := [1 \<mapsto> (pub_file 0)\<lparr>of_size_hint := 9\<rparr>]\<rparr>) = (r, s1)
     \<and> fuse_write sample_T 1 0 [9, 8, 7, 6] s1 = Some (Ok 4, s2) \<and> fs_open_files s2 1 = Some f2 \<and> of_size_hint f2 = 9"
proof -
  let ?f = "(pub_file 0)\<lparr>of_size_hint := 9\<rparr>"
  let ?s = "(pub_client 0)\<lparr>fs_open_files := [1 \<mapsto> ?f]\<rparr>"
  obtain r s1 where a: "fuse_setattr sample_T 2 None None None (Some 0) None None ?s = (r, s1)" by fastforce
  have bs: "fs_block_size s1 = 4" using block_size_setattr [OF a] by (simp add: pub_client_def build_fs_def)
  have f: "fs_open_files s1 1 = Some ?f" using open_files_setattr [OF a] by simp
  have sp: "splice 0 [9, 8, 7, 6] [1, 2, 3, 4] = [9, 8, 7, 6 :: u8]" by (simp add: splice_def)
  have l: "load_block (fetch_block sample_T) 4 (BlockIdx 0) True ?f s1 = (Ok (), ?f, s1)"
    by (simp add: load_block_def pub_file_def bt_contains_def bt_get_def)
  have c: "copy_chunk (BlockIdx 0) 0 4 0 [9, 8, 7, 6] ?f = Some (?f\<lparr>of_dirty := [(BlockIdx 0, [9, 8, 7, 6])]\<rparr>)"
    using sp by (simp add: copy_chunk_def pub_file_def bt_get_def)
  have "write_loop (Suc (Suc n)) (fetch_block sample_T) 4 4 [9, 8, 7, 6] 0 0 ?f s1
      = Some (Ok 4, ?f\<lparr>of_dirty := [(BlockIdx 0, [9, 8, 7, 6])]\<rparr>, s1)" for n
    using l c by (simp add: Let_def)
  then have "apply_write sample_T 0 [9, 8, 7, 6] ?f s1
      = Some (Ok 4, ?f\<lparr>of_dirty := [(BlockIdx 0, [9, 8, 7, 6])]\<rparr>, s1)"
    by (simp add: apply_write_def apply_write_with_def bs pub_file_def)
  then obtain s2 where w: "fuse_write sample_T 1 0 [9, 8, 7, 6] s1 = Some (Ok 4, s2)"
    by (simp add: fuse_write_def f errno_of_def)
  have "fs_open_files ?s 1 = Some ?f" by simp
  from truncate_not_seen_by_handle [OF this a w] show ?thesis using a w by auto
qed

end
