(* ===== verification/Client_Frame.thy ===== *)
theory Client_Frame
  imports Client_Calls
begin

text \<open>
  Parts of the client state that reading, writing, publishing and listing never touch.
  \<open>client_part\<close> fixes a projection that ignores the world, the connections, the block
  cache and the open files; inside it, whole requests keep the projection.
\<close>

locale client_part =
  fixes proj :: "'w fs \<Rightarrow> 'x"
  assumes proj_world: "proj (s\<lparr>fs_world := w\<rparr>) = proj s"
    and proj_clients: "proj (s\<lparr>fs_clients := c\<rparr>) = proj s"
    and proj_addrs: "proj (s\<lparr>fs_addrs := m\<rparr>) = proj s"
    and proj_blocks: "proj (s\<lparr>fs_block_cache := b\<rparr>) = proj s"
    and proj_files: "proj (s\<lparr>fs_open_files := h\<rparr>) = proj s"
begin

lemmas proj_simps = proj_world proj_clients proj_addrs proj_blocks proj_files

lemma proj_pool_get: "pool_get T n s = (r, t) \<Longrightarrow> proj t = proj s"
  by (auto simp: pool_get_def Let_def proj_simps split: option.splits if_splits prod.splits)

lemma proj_authed_call: "authed_call T h s = (r, t) \<Longrightarrow> proj t = proj s"
  by (auto simp: authed_call_def proj_simps split: result.splits prod.splits sum.splits)

end

sublocale client_part \<subseteq> pf: call_frame T "\<lambda>s t. proj t = proj s" for T
  by unfold_locales (simp_all add: proj_pool_get proj_authed_call)

context client_part
begin

lemma proj_fetch_from: "fetch_from T f idx ns e s = (r, t) \<Longrightarrow> proj t = proj s"
proof (induction ns arbitrary: e s)
  case (Cons n ns)
  obtain p s1 where p: "pool_get T n s = (p, s1)" by fastforce
  show ?case
  proof (cases p)
    case (Ok c)
    obtain a s2 where a: "authed_call T (\<lambda>md. t_read_block T c md (block_req (of_ino f) idx)) s1 = (a, s2)"
      by fastforce
    have "proj s2 = proj s" using proj_authed_call [OF a] proj_pool_get [OF p] by simp
    then show ?thesis
      using Cons.prems p Ok a Cons.IH [of "EStoreUnavailable n" "evict n s2"]
      by (cases a) (auto simp: block_cache_insert_def evict_def proj_simps split: if_splits)
  qed (use Cons proj_pool_get [OF p] p in auto)
qed simp

lemma proj_fetch_block:
  assumes "fetch_block T f idx s = (r, t)"
  shows "proj t = proj s"
proof -
  obtain q u where q: "refresh_if_empty T s = (q, u)" by fastforce
  have "proj u = proj s"
    using q by (auto simp: refresh_if_empty_def refresh_addrs_def proj_simps dest!: proj_authed_call
        split: if_splits prod.splits result.splits)
  then show ?thesis
    using assms q proj_fetch_from [of T f idx _ _ u r t]
    by (auto simp: fetch_block_def simp del: fetch_from.simps split: option.splits result.splits)
qed

lemma proj_read_loop:
  "read_loop fuel (fetch_block T) bs e cur buf f s = Some (r, t) \<Longrightarrow> proj t = proj s"
proof (induction fuel arbitrary: cur buf s)
  case (Suc fuel)
  obtain q u where q: "fetch_block T f (BlockIdx (cur div bs)) s = (q, u)" by fastforce
  show ?case
    using Suc.prems q proj_fetch_block [OF q] Suc.IH
    by (auto simp: Let_def split: if_splits result.splits)
qed simp

lemma proj_load_block: "load_block (fetch_block T) bs idx whole f s = (r, f', t) \<Longrightarrow> proj t = proj s"
  by (auto simp: load_block_def dest: proj_fetch_block split: if_splits prod.splits result.splits)

lemma proj_write_loop:
  "write_loop fuel (fetch_block T) bs e data cur written f s = Some (r, f', t) \<Longrightarrow> proj t = proj s"
proof (induction fuel arbitrary: cur written f s)
  case (Suc fuel)
  let ?off = "cur div bs * bs"
  obtain q f1 u where q: "load_block (fetch_block T) bs (BlockIdx (cur div bs))
      (cur - ?off = 0 \<and> min (?off + bs) e - cur = bs) f s = (q, f1, u)"
    by (metis prod_cases3)
  show ?case
    using Suc.prems q proj_load_block [OF q] Suc.IH
    by (auto simp: Let_def split: if_splits result.splits option.splits)
qed simp

lemma proj_fuse_read: "fuse_read T fh offset sz s = Some (r, t) \<Longrightarrow> proj t = proj s"
  by (auto simp: fuse_read_def read_file_def dest: proj_read_loop simp del: read_loop.simps split: option.splits)

lemma proj_fuse_write: "fuse_write T fh offset data s = Some (r, t) \<Longrightarrow> proj t = proj s"
  by (auto simp: fuse_write_def apply_write_def apply_write_with_def Let_def put_open_file_def proj_simps
      dest!: proj_write_loop simp del: write_loop.simps split: option.splits result.splits)

lemma proj_publish_close: "publish_close T fh idxs f s = (r, t) \<Longrightarrow> proj t = proj s"
  by (auto simp: publish_close_def Let_def put_open_file_def proj_simps dest!: proj_authed_call
      split: prod.splits result.splits)

lemma proj_publish_allocate: "publish_allocate T f s = (r, t) \<Longrightarrow> proj t = proj s"
  by (auto simp: publish_allocate_def Let_def dest!: proj_authed_call split: if_splits prod.splits result.splits)

lemma proj_publish_addrs: "publish_addrs T s = (r, t) \<Longrightarrow> proj t = proj s"
  by (auto simp: publish_addrs_def refresh_addrs_def proj_simps dest!: proj_authed_call split: prod.splits result.splits)

lemma proj_publish: "publish T pick fh wait s = (r, ts, t) \<Longrightarrow> proj t = proj s"
  by (auto simp: publish_def Let_def put_open_file_def proj_simps
      dest!: proj_publish_addrs proj_publish_allocate proj_publish_close pf.write_all_call_frame
      split: option.splits if_splits prod.splits result.splits)

lemma proj_publish_requests:
  "proj (snd (snd (fuse_flush T pick fh s))) = proj s" "proj (snd (snd (fuse_fsync T pick fh s))) = proj s"
  "proj (snd (snd (fuse_release T pick fh s))) = proj s"
  by (auto simp: fuse_flush_def fuse_fsync_def fuse_release_def flush_path_def fsync_path_def proj_simps
      dest: proj_publish split: prod.split result.split)

lemma proj_replica_task: "proj (run_replica_task T rt s) = proj s"
  using pf.any.run_replica_task_frame by simp

lemma proj_readdir_loop: "readdir_loop fuel T ino cookie es s = Some (r, t) \<Longrightarrow> proj t = proj s"
proof (induction fuel arbitrary: cookie es s)
  case (Suc fuel)
  obtain q u where c: "authed_call T (\<lambda>md. t_read_dir T md \<lparr> rq_ino = ino, rq_cookie = cookie, rq_max_entries = 256 \<rparr>) s = (q, u)"
    by fastforce
  show ?case
    using Suc.prems c proj_authed_call [OF c] Suc.IH by (cases q) (auto simp: Let_def split: if_splits)
qed simp

lemma proj_fuse_readdir: "fuse_readdir fuel T full ino off s = Some (r, t) \<Longrightarrow> proj t = proj s"
  by (auto simp: fuse_readdir_def dest!: proj_readdir_loop simp del: readdir_loop.simps split: option.splits result.splits)

lemma proj_fuse_statfs: "proj (snd (fuse_statfs T s)) = proj s"
  by (auto simp: fuse_statfs_def dest!: proj_authed_call split: prod.splits result.splits)

lemma proj_fuse_call:
  assumes "\<And>a u. proj (snd (k a u)) = proj u"
  shows "proj (snd (fuse_call T h k s)) = proj s"
  using assms by (auto simp: fuse_call_def dest!: proj_authed_call split: prod.splits result.splits)

end

interpretation cpa: client_part fs_attr_cache
  by unfold_locales simp_all

end
