(* ===== verification/Attr_Cache.thy ===== *)
theory Attr_Cache
  imports System_Props Client_Frame
begin

text \<open>
  How stale attributes can get.  A client answers \<^verbatim>\<open>getattr\<close> from its attribute cache
  while an entry is younger than \<^verbatim>\<open>attr_cache_ttl_ms\<close>, counted from the arrival of the
  reply that brought it.  In every run of the system an entry of the cache is what the
  metadata server said when it gave that reply; so an answer is at most the time to live
  and the delay of one reply behind the server.  The last section shows the other side: a
  client's own writes do not reach its attribute cache.
\<close>

section \<open>Replies that carry attributes\<close>

definition server_attr :: "cluster \<Rightarrow> u64 \<Rightarrow> file_attr option" where
  "server_attr w ino = (case meta_get_attr ino (cw_meta w) of Ok a \<Rightarrow> proto_attr_to_fuse a | _ \<Rightarrow> None)"

lemma at_ino_build [simp]: "at_ino (build_attr n) = raw (i_ino n)"
  by (simp add: build_attr_def Let_def split: prod.split)









section \<open>What a request does to the cache\<close>








lemma direct_attr_simps:
  "t_lookup (direct xxh3) md lk w = to_meta md (\<lambda>m. (m, meta_lookup lk m)) w"
  "t_get_attr (direct xxh3) md ino w = to_meta md (\<lambda>m. (m, meta_get_attr ino m)) w"
  "t_set_attr (direct xxh3) md sa w = to_meta_tasks md (meta_set_attr (cw_token w) (cw_now w) sa) w"
  "t_mkdir (direct xxh3) md mk w = to_meta md (meta_mkdir (cw_now w) mk) w"
  "t_create (direct xxh3) md cr w = to_meta md (meta_create (cw_now w) cr) w"
  "t_instant (direct xxh3) w = cw_instant w" "t_attr_kept (direct xxh3) w i"
  by (simp_all add: direct_def)








section \<open>Replies on their way\<close>







section \<open>Runs\<close>

text \<open>
  Every entry of every attribute cache is what the server had in some earlier state of the
  run, at most the delay of a reply before the time stamp of the entry; and the same holds
  for the entries that replies on their way will bring.
\<close>

definition answered ::
  "(string \<Rightarrow> u64 \<Rightarrow> u64) \<Rightarrow> renames \<Rightarrow> duration \<Rightarrow> system \<Rightarrow> system \<Rightarrow> inode_id \<Rightarrow> file_attr \<Rightarrow> instant \<Rightarrow> bool" where
  "answered xxh3 G D S0 S ino fa i \<longleftrightarrow>
     (\<exists>P. (sys_step xxh3 G D)\<^sup>*\<^sup>* S0 P \<and> (sys_step xxh3 G D)\<^sup>*\<^sup>* P S
        \<and> server_attr (sys_world P) (raw ino) = Some fa \<and> i \<le> cw_instant (sys_world P))"

definition attrs_from ::
  "(string \<Rightarrow> u64 \<Rightarrow> u64) \<Rightarrow> renames \<Rightarrow> duration \<Rightarrow> system \<Rightarrow> system \<Rightarrow> cluster fs \<Rightarrow> bool" where
  "attrs_from xxh3 G D S0 S s \<longleftrightarrow>
     (\<forall>ino c. ac_entries (fs_attr_cache s) ino = Some c \<longrightarrow>
        answered xxh3 G D S0 S ino (ca_attr c) (ca_fetched c - D))"








lemma at_client_attrs [simp]: "fs_attr_cache (at_client S s) = fs_attr_cache s" "fs_world (at_client S s) = sys_world S"
  by (simp_all add: at_client_def)

lemma attrs_from_at_client [simp]: "attrs_from xxh3 G D S0 S (at_client S' s) = attrs_from xxh3 G D S0 S s"
  by (simp add: attrs_from_def)



















section \<open>A client's own writes\<close>

text \<open>
  A publish never touches the attribute cache, so it hides its own effect.
\<close>

lemma attr_cache_get_cong:
  "fs_attr_cache t = fs_attr_cache s \<Longrightarrow> attr_cache_get T ino s = Some c
     \<Longrightarrow> t_instant T (fs_world t) < ca_fetched c + ac_ttl (fs_attr_cache s) \<Longrightarrow> t_attr_kept T (fs_world t) ino
     \<Longrightarrow> attr_cache_get T ino t = Some c"
  by (auto simp: attr_cache_get_def split: option.splits if_splits)

text \<open>
  A client does not see its own publish in getattr.  Let a client have the attributes of
  a file in its cache and publish its writes to that file with success.  The metadata
  server then has the new size, but until the time to live of the entry is over, the same
  client answers getattr with the attributes of before.
\<close>

theorem getattr_misses_own_publish:
  assumes "attr_cache_get (direct xxh3) (of_ino f) s = Some c"
    and "publish_ready s fh f n" and "publish (direct xxh3) pick fh wait s = (Ok (), ts, s')"
    and "cw_instant w < ca_fetched c + ac_ttl (fs_attr_cache s)"
  shows "(\<exists>n'. inodes (cw_meta (fs_world s')) (of_ino f) = Some n' \<and> i_size n' = of_size_hint f)
    \<and> fst (fuse_getattr (direct xxh3) (raw (of_ino f)) (s'\<lparr>fs_world := w\<rparr>)) = Ok (ca_attr c)"
proof
  show "\<exists>n'. inodes (cw_meta (fs_world s')) (of_ino f) = Some n' \<and> i_size n' = of_size_hint f"
    using publish_readyD [OF assms(2,3) refl] by auto
  have "fs_attr_cache (s'\<lparr>fs_world := w\<rparr>) = fs_attr_cache s" using cpa.proj_publish [OF assms(3)] by simp
  from attr_cache_get_cong [OF this assms(1)]
  have "attr_cache_get (direct xxh3) (of_ino f) (s'\<lparr>fs_world := w\<rparr>) = Some c"
    using assms(4) by (simp add: direct_attr_simps)
  then show "fst (fuse_getattr (direct xxh3) (raw (of_ino f)) (s'\<lparr>fs_world := w\<rparr>)) = Ok (ca_attr c)"
    by (cases "of_ino f") (simp add: fuse_getattr_def)
qed

lemma pub_attr_size: "fa_size (ca_attr pub_attr) = 0"
  by (simp add: pub_attr_def pub_meta_simps sample_file new_file_inode_def build_attr_def time_parts_def
      proto_attr_to_fuse_def attr_time_def time_add_def duration_new_def representable_time_def nanos_per_sec_def)

theorem getattr_misses_own_publish_witness:
  "\<exists>s' n' fa. publish sample_T (\<lambda>_. 0) 1 AllReplicas (pub_client 0) = (Ok (), [], s')
     \<and> inodes (cw_meta (fs_world s')) (InodeId 2) = Some n' \<and> i_size n' = 3
     \<and> fst (fuse_getattr sample_T 2 (s'\<lparr>fs_world := (fs_world s')\<lparr>cw_instant := 999999999\<rparr>\<rparr>)) = Ok fa \<and> fa_size fa = 0"
proof -
  obtain s' where pub: "publish sample_T (\<lambda>_. 0) 1 AllReplicas (pub_client 0) = (Ok (), [], s')" using pub_ok by blast
  let ?w = "(fs_world s')\<lparr>cw_instant := 999999999\<rparr>"
  have ttl: "ca_fetched pub_attr = 0" "ac_ttl (fs_attr_cache (pub_client 0)) = 1000000000"
    "of_ino (pub_file 0) = InodeId 2" "of_size_hint (pub_file 0) = 3"
    by (simp_all add: pub_attr_def pub_client_def build_attr_cache_def from_millis_def pub_file_def)
  have c: "attr_cache_get sample_T (of_ino (pub_file 0)) (pub_client 0) = Some pub_attr"
    by (simp add: attr_cache_get_def pub_client_def build_fs_def pub_file_def pub_attr_def build_attr_cache_def from_millis_def
        direct_attr_simps pub_cluster_def sample_cluster_def)
  from getattr_misses_own_publish [OF c pub_ready pub, of ?w] show ?thesis
    using pub pub_attr_size ttl by auto
qed

end
