(* ===== verification/Fanout_Props.thy ===== *)
theory Fanout_Props
  imports Publish_Live
begin

text \<open>
  What the concurrency of a publish cannot do: end with different blocks than writing them
  one after the other, leave half of a block, leave more than a handful of requests behind.
\<close>

section \<open>All interleavings agree\<close>

text \<open>The tasks of a fan-out: what its futures have spawned and what they will spawn.\<close>

definition block_tasks ::
  "wait_policy \<Rightarrow> inode_id \<Rightarrow> (block_idx, block_placement) btree \<Rightarrow> block_idx \<times> bytes \<Rightarrow> replica_task list" where
  "block_tasks wait ino bm blk = spawned wait ino bm (WGet (fst blk) (snd blk) [])"

fun future_tasks ::
  "wait_policy \<Rightarrow> inode_id \<Rightarrow> (block_idx, block_placement) btree \<Rightarrow> write_future \<Rightarrow> replica_task list" where
  "future_tasks wait ino bm WMissing = []"
| "future_tasks wait ino bm (WGet idx buf ns) = block_tasks wait ino bm (idx, buf)"
| "future_tasks wait ino bm (WSend idx buf n c ns) = block_tasks wait ino bm (idx, buf)"

definition fan_tasks ::
  "wait_policy \<Rightarrow> inode_id \<Rightarrow> (block_idx, block_placement) btree \<Rightarrow> fanout \<Rightarrow> replica_task multiset" where
  "fan_tasks wait ino bm F = mset (fo_tasks F) + mset (concat (map (future_tasks wait ino bm) (fo_running F)))
     + mset (concat (map (block_tasks wait ino bm) (fo_waiting F)))"

lemma future_tasks_start [simp]: "future_tasks wait ino bm (start_future wait' bm blk) = block_tasks wait ino bm blk"
  by (cases wait) (auto simp: start_future_def block_tasks_def split: prod.split option.split)

lemma future_tasks_goes:
  "future_step T ino f s = (Goes f', s1) \<Longrightarrow> future_tasks wait ino' bm f' = future_tasks wait ino' bm f"
  by (cases "(T, ino, f, s)" rule: future_step.cases) (auto split: prod.splits result.splits)

lemma future_tasks_ends:
  "future_step T ino f s = (Ends (Ok u), s1) \<Longrightarrow> spawned wait ino' bm f = future_tasks wait ino' bm f"
  by (cases "(T, ino, f, s)" rule: future_step.cases; cases wait)
    (auto simp: block_tasks_def split: prod.splits result.splits)

lemma fan_tasks_fill: "fan_tasks wait ino bm (fan_fill wait bm F) = fan_tasks wait ino bm F"
proof -
  let ?k = "max_in_flight - length (fo_running F)"
  have "mset (concat (map (block_tasks wait ino bm) (fo_waiting F)))
      = mset (concat (map (block_tasks wait ino bm) (take ?k (fo_waiting F) @ drop ?k (fo_waiting F))))" by simp
  then show ?thesis
    unfolding map_append concat_append mset_append by (simp add: fan_tasks_def fan_fill_sel comp_def)
qed

lemma mset_concat_split_nth:
  assumes "i < length xs"
  shows "mset (concat (map g xs)) = mset (g (xs ! i)) + mset (concat (map g (remove_nth i xs)))"
proof -
  have "mset (concat (map g xs)) = mset (concat (map g (take i xs @ xs ! i # drop (Suc i) xs)))"
    using split_nth [OF assms] by simp
  then show ?thesis by (simp add: remove_nth_def)
qed

lemma write_all_tasks_mset:
  assumes "write_all T wait ino bm pick blks s = (Ok u, ts, s')"
  shows "mset ts = mset (concat (map (block_tasks wait ino bm) blks))"
proof -
  let ?all = "mset (concat (map (block_tasks wait ino bm) blks))"
  have "(Ok u :: (unit, dtmpfs_error) result) = Ok () \<longrightarrow> mset ts = ?all"
  proof (rule fan_out_rule [OF assms [unfolded write_all_def], where I = "\<lambda>F t. fan_tasks wait ino bm F = ?all"
        and Q = "\<lambda>r ts s'. r = Ok () \<longrightarrow> mset ts = ?all"])
    fix F t i s1 f
    assume I: "fan_tasks wait ino bm F = ?all" and i: "i < length (fo_running F)"
      and step: "future_step T ino (fo_running F ! i) t = (Goes f, s1)"
    have "mset (concat (map (future_tasks wait ino bm) ((fo_running F)[i := f]))) = mset (concat (map (future_tasks wait ino bm) (fo_running F)))"
      using mset_concat_split_nth [OF i, of "future_tasks wait ino bm"] future_tasks_goes [OF step, of wait ino bm] i
        mset_concat_split_nth [of i "(fo_running F)[i := f]" "future_tasks wait ino bm"] by (simp add: remove_nth_update)
    then show "fan_tasks wait ino bm (F\<lparr>fo_running := (fo_running F)[i := f]\<rparr>) = ?all" using I by (simp add: fan_tasks_def)
  next
    fix F t i s1 v
    assume I: "fan_tasks wait ino bm F = ?all" and i: "i < length (fo_running F)"
      and step: "future_step T ino (fo_running F ! i) t = (Ends (Ok v), s1)"
    show "fan_tasks wait ino bm (F\<lparr>fo_running := remove_nth i (fo_running F),
        fo_tasks := fo_tasks F @ spawned wait ino bm (fo_running F ! i)\<rparr>) = ?all"
      unfolding I [symmetric] using mset_concat_split_nth [OF i, of "future_tasks wait ino bm"] future_tasks_ends [OF step, of wait ino bm]
      by (simp add: fan_tasks_def)
  qed (simp_all add: fan_tasks_fill, simp_all add: fan_tasks_def)
  then show ?thesis by simp
qed

text \<open>The blocks after a fan-out that came out well are determined by what it was to write.\<close>

lemma write_all_rd:
  assumes "write_all (direct xxh3) wait ino bm pick blks s = (Ok u, ts, s')" and "pool_ok M s" and "distinct (map fst blks)"
    and J: "J = \<lparr> j_addrs = M, j_nodes = synced wait, j_ino = ino, j_map = bm, j_blks = blks \<rparr>"
  shows "aims J a k buf \<Longrightarrow> cl_rd (fs_world s') (a, k) = Some buf"
    and "\<nexists>buf. aims J a k buf \<Longrightarrow> cl_rd (fs_world s') (a, k) = cl_rd (fs_world s) (a, k)"
proof -
  have jw: "job_writes J (fs_world s) (fs_world s')" and fin: "\<forall>blk \<in> set blks. block_done J wait (fs_world s') blk"
    using write_all_job [OF assms(1), of J] assms(2,3) by (simp_all add: job_ok_def job_covers_def J)
  show "cl_rd (fs_world s') (a, k) = cl_rd (fs_world s) (a, k)" if "\<nexists>buf. aims J a k buf"
    using jw that by (auto simp: job_writes_def)
  show "cl_rd (fs_world s') (a, k) = Some buf" if aim: "aims J a k buf"
  proof -
    obtain idx p n where b: "(idx, buf) \<in> set blks" "k = write_key ino idx" "bt_get bm idx = Some p" "n \<in> set (synced wait p)"
      "hm_get M n = Some a" using aim by (auto simp: aims_def J)
    then have "stored J (fs_world s') n idx buf" using bspec [OF fin b(1)] by (simp add: block_done_def J)
    then show ?thesis using b by (simp add: stored_def J)
  qed
qed

text \<open>
  C8. Concurrency changes nothing that can be seen.  When the concurrent writes of a publish
  come out well, under any interleaving, then the blocks on the stores and the replica
  writes left to do are the ones that writing all blocks one after the other, and the nodes
  of each block one after the other, ends with; and that is itself one of the
  interleavings.
\<close>

theorem interleavings_agree:
  assumes "write_all (direct xxh3) wait ino bm pick blks s = (Ok (), ts, s')"
    and "write_seq (direct xxh3) wait ino bm blks s = (Ok (), ts0, s0)"
    and "pool_ok M s" and "distinct (map fst blks)"
  shows "cl_rd (fs_world s') = cl_rd (fs_world s0) \<and> mset ts = mset ts0
    \<and> write_all (direct xxh3) wait ino bm (\<lambda>_. 0) blks s = write_seq (direct xxh3) wait ino bm blks s"
proof (intro conjI)
  let ?J = "\<lparr> j_addrs = M, j_nodes = synced wait, j_ino = ino, j_map = bm, j_blks = blks \<rparr>"
  have seq: "write_all (direct xxh3) wait ino bm (\<lambda>_. 0) blks s = (Ok (), ts0, s0)"
    using assms(2) by (simp add: write_all_first)
  show "cl_rd (fs_world s') = cl_rd (fs_world s0)"
  proof
    fix ak :: "string \<times> proto_block_key"
    obtain a k where ak: "ak = (a, k)" by fastforce
    show "cl_rd (fs_world s') ak = cl_rd (fs_world s0) ak"
    proof (cases "\<exists>buf. aims ?J a k buf")
      case True
      then obtain buf where "aims ?J a k buf" by blast
      then show ?thesis using write_all_rd(1) [OF assms(1,3,4) refl] write_all_rd(1) [OF seq assms(3,4) refl] ak by simp
    next
      case False
      then show ?thesis using write_all_rd(2) [OF assms(1,3,4) refl] write_all_rd(2) [OF seq assms(3,4) refl] ak by simp
    qed
  qed
  show "mset ts = mset ts0" using write_all_tasks_mset [OF assms(1)] write_all_tasks_mset [OF seq] by simp
qed (rule write_all_first)

text \<open>Two blocks for one node, to be written to a store with room for both.\<close>

definition fan_client :: "cluster fs" where
  "fan_client = (build_fs pub_cluster 1000 4 2 ''t'')\<lparr>fs_addrs := [(NodeId ''n2'', ''http://b'')]\<rparr>"

abbreviation fan_map :: "(block_idx, block_placement) btree" where
  "fan_map \<equiv> [(BlockIdx 0, pub_place), (BlockIdx 1, pub_place)]"

abbreviation fan_blks :: "(block_idx \<times> bytes) list" where
  "fan_blks \<equiv> [(BlockIdx 0, [1, 2, 3, 4]), (BlockIdx 1, [5, 6, 7, 8])]"

lemma fan_client_simps:
  "fs_world fan_client = pub_cluster" "fs_token fan_client = ''t''" "fs_clients fan_client = Map.empty"
  "fs_addrs fan_client = [(NodeId ''n2'', ''http://b'')]"
  by (simp_all add: fan_client_def build_fs_def)

lemma fan_pool: "pool_ok [(NodeId ''n2'', ''http://b'')] fan_client"
  by (simp add: pool_ok_def fan_client_simps)

lemma fan_writes: "\<exists>ts s'. write_all sample_T AllReplicas (InodeId 2) fan_map pick fan_blks fan_client = (Ok (), ts, s')"
proof -
  let ?M = "[(NodeId ''n2'', ''http://b'')]"
  have "cluster_room ?M 16 pub_cluster"
    using store_room_new [of 16 100 "NodeId ''n2''" "[]"]
    by (auto simp: cluster_room_def pub_client_simps hm_get_def split: if_splits)
  then have can: "can_write ?M (2 * dirty_bytes fan_blks) fan_client"
    using fan_pool by (simp add: can_write_def fan_client_simps pub_client_simps)
  have "\<forall>blk \<in> set fan_blks. \<exists>p. bt_get fan_map (fst blk) = Some p \<and> placed_up ?M 2 p"
    by (simp add: bt_get_def placed_up_def hm_get_def)
  from write_all_succeeds [OF can this, of "\<lambda>_ _. 0" AllReplicas "InodeId 2" pick] show ?thesis by blast
qed

theorem interleavings_agree_witness:
  "\<exists>ts s' ts0 s0. write_all sample_T AllReplicas (InodeId 2) fan_map (\<lambda>F. length (fo_running F) - 1) fan_blks fan_client = (Ok (), ts, s')
     \<and> write_seq sample_T AllReplicas (InodeId 2) fan_map fan_blks fan_client = (Ok (), ts0, s0)
     \<and> cl_rd (fs_world s') = cl_rd (fs_world s0)"
proof -
  obtain ts s' where w: "write_all sample_T AllReplicas (InodeId 2) fan_map (\<lambda>F. length (fo_running F) - 1) fan_blks fan_client = (Ok (), ts, s')"
    using fan_writes by blast
  obtain ts0 s0 where w0: "write_seq sample_T AllReplicas (InodeId 2) fan_map fan_blks fan_client = (Ok (), ts0, s0)"
    using fan_writes [of "\<lambda>_. 0"] unfolding write_all_first by blast
  have "distinct (map fst fan_blks)" by simp
  from interleavings_agree [OF w w0 fan_pool this] show ?thesis using w w0 by blast
qed

section \<open>What a failure leaves on the way\<close>

definition few_in_flight :: "fanout \<Rightarrow> bool" where
  "few_in_flight F \<longleftrightarrow> length (fo_running F) \<le> max_in_flight \<and> (\<forall>t \<in> set (fo_tasks F). rt_chan t = None)"

lemma spawned_fresh: "t \<in> set (spawned wait ino bm f) \<Longrightarrow> rt_chan t = None"
  by (cases f; cases wait) (auto split: option.splits)

lemma length_in_flight: "length (in_flight ino f) \<le> 1"
  by (cases f) simp_all

lemma length_concat_le: "(\<And>x. length (g x) \<le> 1) \<Longrightarrow> length (concat (map g xs)) \<le> length xs"
proof (induction xs)
  case (Cons x xs)
  then show ?case using add_mono [of "length (g x)" 1] by simp
qed simp

lemma length_remove_nth: "i < length xs \<Longrightarrow> Suc (length (remove_nth i xs)) = length xs"
  by (simp add: remove_nth_def)

lemma few_in_flight_ends:
  assumes "few_in_flight F" and "i < length (fo_running F)"
  shows "few_in_flight (F\<lparr>fo_running := remove_nth i (fo_running F), fo_tasks := fo_tasks F @ spawned wait ino bm (fo_running F ! i)\<rparr>)"
  using assms length_remove_nth [OF assms(2)] by (auto simp: few_in_flight_def spawned_fresh)

lemma few_in_flight_left:
  assumes "few_in_flight F" and "i < length (fo_running F)"
  shows "length (filter (\<lambda>t. rt_chan t \<noteq> None) (fo_tasks F @ concat (map (in_flight ino) (remove_nth i (fo_running F))))) < max_in_flight"
proof -
  let ?ts = "concat (map (in_flight ino) (remove_nth i (fo_running F)))"
  have "filter (\<lambda>t. rt_chan t \<noteq> None) (fo_tasks F) = []" using assms(1) by (simp add: few_in_flight_def filter_empty_conv)
  then have "length (filter (\<lambda>t. rt_chan t \<noteq> None) (fo_tasks F @ ?ts)) \<le> length ?ts" by simp
  also have "\<dots> \<le> length (remove_nth i (fo_running F))" by (rule length_concat_le [OF length_in_flight])
  also have "\<dots> < max_in_flight" using assms length_remove_nth [OF assms(2)] by (simp add: few_in_flight_def)
  finally show ?thesis .
qed

text \<open>
  C14. A failed publish leaves little behind.  However the writes interleave and whatever
  the stores answer, when the fan-out ends, at most fifteen requests of dropped futures are
  still on their way to a store, one for each future beside the one that failed; and when
  it comes out well, there is none.
\<close>

theorem requests_left_bounded:
  assumes "write_all T wait ino bm pick blks s = (r, ts, s')"
  shows "length (filter (\<lambda>t. rt_chan t \<noteq> None) ts) \<le> 15 \<and> (r = Ok () \<longrightarrow> (\<forall>t \<in> set ts. rt_chan t = None))"
proof (rule fan_out_rule [OF assms [unfolded write_all_def], where I = "\<lambda>F t. few_in_flight F"])
  fix F i s1 and e :: "(unit, dtmpfs_error) result"
  assume "few_in_flight F" "i < length (fo_running F)" "e \<noteq> Ok ()"
  then show "length (filter (\<lambda>t. rt_chan t \<noteq> None) (fo_tasks F @ concat (map (in_flight ino) (remove_nth i (fo_running F))))) \<le> 15
      \<and> (e = Ok () \<longrightarrow> (\<forall>t \<in> set (fo_tasks F @ concat (map (in_flight ino) (remove_nth i (fo_running F)))). rt_chan t = None))"
    using few_in_flight_left [of F i ino] unfolding max_in_flight_def by simp
next
  fix F assume "few_in_flight F"
  then show "length (filter (\<lambda>t. rt_chan t \<noteq> None) (fo_tasks F)) \<le> 15 \<and> (Ok () = Ok () \<longrightarrow> (\<forall>t \<in> set (fo_tasks F). rt_chan t = None))"
    by (simp add: few_in_flight_def filter_False)
next
  show "few_in_flight \<lparr> fo_waiting = blks, fo_running = [], fo_tasks = [] \<rparr>" by (simp add: few_in_flight_def)
  fix F assume "few_in_flight F"
  then show "few_in_flight (fan_fill wait bm F)" by (auto simp: few_in_flight_def fan_fill_sel min_def)
  show "few_in_flight (F\<lparr>fo_running := (fo_running F)[i := f]\<rparr>)" for i f
    using \<open>few_in_flight F\<close> by (simp add: few_in_flight_def)
qed (rule few_in_flight_ends)

text \<open>
  The second of two blocks has no placement.  The first future has its request on the way
  when the second one fails.
\<close>

definition fan_stall :: "fanout \<Rightarrow> nat" where
  "fan_stall F = (case fo_running F of WSend _ _ _ _ _ # _ \<Rightarrow> 1 | _ \<Rightarrow> 0)"

lemma fan_fails:
  "\<exists>s'. write_all sample_T AllReplicas (InodeId 2) [(BlockIdx 0, pub_place)] fan_stall fan_blks fan_client
    = (Err ENotFound, [\<lparr> rt_ino = InodeId 2, rt_idx = BlockIdx 0, rt_node = NodeId ''n2'', rt_data = [1, 2, 3, 4],
         rt_chan = Some ''http://b'' \<rparr>], s')"
proof -
  have g: "pool_get sample_T (NodeId ''n2'') fan_client = (Ok ''http://b'', fan_client\<lparr>fs_clients := [NodeId ''n2'' \<mapsto> ''http://b'']\<rparr>)"
    by (simp add: pool_get_def fan_client_simps pub_client_simps hm_get_def direct_simps)
  show ?thesis
    by (simp add: write_all_def fan_out.simps fan_fill_def Let_def max_in_flight_def start_future_def synced_def bt_get_def
        fan_stall_def fan_advance_def remove_nth_def g)
qed

theorem requests_left_bounded_witness:
  "\<exists>ts s'. write_all sample_T AllReplicas (InodeId 2) [(BlockIdx 0, pub_place)] fan_stall fan_blks fan_client = (Err ENotFound, ts, s')
     \<and> length (filter (\<lambda>t. rt_chan t \<noteq> None) ts) = 1 \<and> length (filter (\<lambda>t. rt_chan t \<noteq> None) ts) \<le> 15"
proof -
  obtain ts s' where w: "write_all sample_T AllReplicas (InodeId 2) [(BlockIdx 0, pub_place)] fan_stall fan_blks fan_client = (Err ENotFound, ts, s')"
    and 1: "length (filter (\<lambda>t. rt_chan t \<noteq> None) ts) = 1" using fan_fails by force
  with requests_left_bounded [OF w] show ?thesis by blast
qed

section \<open>Whole blocks\<close>

lemma publish_allocate_rd:
  assumes tok: "fs_token s = cw_token (fs_world s)" and al: "publish_allocate (direct xxh3) f s = (r, t)"
  shows "cl_rd (fs_world t) = cl_rd (fs_world s)"
proof -
  let ?new = "map raw_idx (filter (\<lambda>i. \<not> bt_contains (of_block_map f) i) (map fst (of_dirty f)))"
  let ?r = "\<lparr> al_ino = raw (of_ino f), al_block_idxs = ?new \<rparr>"
  obtain q u where c: "authed_call (direct xxh3) (\<lambda>md. t_allocate (direct xxh3) md ?r) s = (q, u)" by fastforce
  have "cl_rd (fs_world u) = cl_rd (fs_world s)"
    using c authed_call_meta_eq [OF tok, of "\<lambda>md. t_allocate (direct xxh3) md ?r" "meta_allocate_blocks xxh3 ?r" xxh3]
    by (auto simp: direct_simps cl_rd_def fun_eq_iff)
  then show ?thesis
    using al c by (cases q; cases "?new = []") (auto simp: publish_allocate_def Let_def)
qed

lemma meta_close_blocks:
  "inodes m i = Some n \<Longrightarrow> \<exists>n'. inodes (fst (meta_close now r m)) i = Some n' \<and> i_blocks n' = i_blocks n"
  by (auto simp: meta_close_def Let_def close_apply_def ns_simps split: option.split)

lemma publish_close_blocks:
  assumes tok: "fs_token s = cw_token (fs_world s)" and cl: "publish_close (direct xxh3) fh idxs f s = (r, t)"
    and n: "inodes (cw_meta (fs_world s)) i = Some n"
  shows "cl_rd (fs_world t) = cl_rd (fs_world s) \<and> fs_addrs t = fs_addrs s \<and> fs_clients t = fs_clients s
    \<and> (\<exists>n'. inodes (cw_meta (fs_world t)) i = Some n' \<and> i_blocks n' = i_blocks n)"
proof -
  let ?now = "time_parts (t_now (direct xxh3) (fs_world s))"
  let ?r = "\<lparr> cl_fh = fh, cl_ino = raw (of_ino f), cl_expected_generation = raw_gen (of_generation f),
      cl_new_size = of_size_hint f, cl_written_block_idxs = idxs, cl_mtime_s = fst ?now, cl_mtime_ns = snd ?now \<rparr>"
  let ?m = "fst (meta_close (cw_now (fs_world s)) ?r (cw_meta (fs_world s)))"
  obtain q u where c: "authed_call (direct xxh3) (\<lambda>md. t_close (direct xxh3) md ?r) s = (q, u)" by fastforce
  have u: "u = s\<lparr>fs_world := (fs_world s)\<lparr>cw_meta := ?m\<rparr>\<rparr>"
    using c authed_call_meta_eq [OF tok, of "\<lambda>md. t_close (direct xxh3) md ?r" "meta_close (cw_now (fs_world s)) ?r" xxh3]
    by (simp add: direct_simps)
  have "fs_world t = fs_world u \<and> fs_addrs t = fs_addrs u \<and> fs_clients t = fs_clients u"
    using cl c by (cases q) (auto simp: publish_close_def Let_def put_open_file_def)
  then show ?thesis
    using u meta_close_blocks [OF n, of "cw_now (fs_world s)" ?r] by (simp add: cl_rd_def fun_eq_iff)
qed

text \<open>The writes of a publish as a job, however the publish comes out.\<close>

lemma publish_job:
  assumes ready: "publish_ready s fh f n" and pub: "publish (direct xxh3) pick fh wait s = (r, ts, s')"
    and M: "M = live_addrs (cw_meta (fs_world s))"
  shows "(ts = [] \<and> cl_rd (fs_world s') = cl_rd (fs_world s))
    \<or> (\<exists>bm n'. (let J = \<lparr> j_addrs = M, j_nodes = \<lambda>p. primary p # replicas p, j_ino = of_ino f, j_map = bm, j_blks = of_dirty f \<rparr> in
          (\<forall>t \<in> set ts. task_of_job J t) \<and> pool_ok M s'
          \<and> (\<forall>a k. cl_rd (fs_world s') (a, k) = cl_rd (fs_world s) (a, k)
               \<or> (\<exists>buf. aims J a k buf \<and> cl_rd (fs_world s') (a, k) = Some buf)))
        \<and> inodes (cw_meta (fs_world s')) (of_ino f) = Some n' \<and> (\<forall>idx. bt_get (i_blocks n') idx = bt_get bm idx))"
proof -
  let ?m = "cw_meta (fs_world s)" and ?s1 = "s\<lparr>fs_addrs := M\<rparr>"
  have a: "fs_open_files s fh = Some f" "of_dirty f \<noteq> []" "bt_wf (of_dirty f)" "fs_token s = cw_token (fs_world s)"
    "inodes ?m (of_ino f) = Some n" "maps_agree f n" "\<forall>nid c. fs_clients s nid = Some c \<longrightarrow> hm_get M nid = Some c"
    using ready M by (simp_all add: publish_ready_def Let_def)
  have 1: "publish_addrs (direct xxh3) s = (Ok (), ?s1)" using publish_addrs_succeeds [OF a(4)] M by simp
  have tok1: "fs_token ?s1 = cw_token (fs_world ?s1)" and n1: "inodes (cw_meta (fs_world ?s1)) (of_ino f) = Some n"
    using a(4,5) by simp_all
  obtain b s2 where 2: "publish_allocate (direct xxh3) f ?s1 = (b, s2)" by fastforce
  have rd2: "cl_rd (fs_world s2) = cl_rd (fs_world s)" using publish_allocate_rd [OF tok1 2] by simp
  show ?thesis
  proof (cases b)
    case (Ok f1)
    obtain bl bm where f1: "f1 = f\<lparr>of_block_map := bm\<rparr>" and ag: "maps_agree f1 (n\<lparr>i_blocks := bl\<rparr>)"
      and s2: "s2 = ?s1\<lparr>fs_world := (fs_world ?s1)\<lparr>cw_meta := put_inode (of_ino f) (n\<lparr>i_blocks := bl\<rparr>) ?m\<rparr>\<rparr>"
      using publish_allocate_direct [OF tok1 2 [unfolded Ok] n1 a(6)] by auto
    let ?s3 = "put_open_file fh (f1\<lparr>of_dirty := []\<rparr>) s2"
    let ?J = "\<lparr> j_addrs = M, j_nodes = \<lambda>p. primary p # replicas p, j_ino = of_ino f, j_map = bm, j_blks = of_dirty f \<rparr>"
    obtain c ts1 s4 where 3: "write_all (direct xxh3) wait (of_ino f) bm pick (of_dirty f) ?s3 = (c, ts1, s4)" by (metis prod_cases3)
    have "pool_ok M ?s3" using a(7) by (simp add: pool_ok_def put_open_file_def s2)
    then have J: "pool_ok M s4" "client_frame ?s3 s4" "job_writes ?J (fs_world ?s3) (fs_world s4)" "\<forall>t \<in> set ts1. task_of_job ?J t"
      using write_all_job [OF 3, of ?J] bt_wf_distinct [OF a(3)] set_synced by (simp_all add: job_ok_def job_covers_def)
    have rd4: "\<forall>a k. cl_rd (fs_world s4) (a, k) = cl_rd (fs_world s) (a, k)
        \<or> (\<exists>buf. aims ?J a k buf \<and> cl_rd (fs_world s4) (a, k) = Some buf)"
      using J(3) rd2 by (simp add: job_writes_def put_open_file_def)
    have w4: "inodes (cw_meta (fs_world s4)) (of_ino f) = Some (n\<lparr>i_blocks := bl\<rparr>)" "fs_token s4 = cw_token (fs_world s4)"
      using J(2,3) a(4) by (simp_all add: job_writes_def world_frame_def client_frame_def put_open_file_def s2 ns_simps)
    obtain d s5 where 4: "publish_close (direct xxh3) fh (map (raw_idx \<circ> fst) (of_dirty f)) (f1\<lparr>of_dirty := []\<rparr>) s4 = (d, s5)" by fastforce
    have ts: "ts = ts1" "s' = s4 \<or> s' = s5"
      using pub a(1,2) 1 2 3 4 Ok f1 by (cases c; auto simp: publish_def Let_def)+
    note close = publish_close_blocks [OF w4(2) 4 w4(1)]
    have "cl_rd (fs_world s') = cl_rd (fs_world s4)" "pool_ok M s'"
      "\<exists>n'. inodes (cw_meta (fs_world s')) (of_ino f) = Some n' \<and> i_blocks n' = bl"
      using ts(2) close J(1) w4(1) by (auto simp: pool_ok_def)
    moreover have "bt_get bl idx = bt_get bm idx" for idx using ag f1 by (simp add: maps_agree_def)
    ultimately show ?thesis using rd4 J(4) ts(1) unfolding Let_def by auto
  qed (use pub a(1,2) 1 2 rd2 in \<open>simp_all add: publish_def\<close>)
qed

text \<open>
  C9. Blocks stay whole.  Let a client publish, by flush or by fsync, under any
  interleaving, with success or not; and let any of the requests and replica writes it
  leaves behind be handled afterwards, in any order, also more than once.  Then every block
  of every store is what it was before or, on a node of its placement as the metadata
  server lists it, exactly a buffer that was to be published: a reader sees the old block or
  the new one, and no other block of any file is touched.
\<close>

theorem publish_keeps_blocks_whole:
  assumes "publish_ready s fh f n" and "publish (direct xxh3) pick fh wait s = (r, ts, s')" and "set late \<subseteq> set ts"
    and "w = fs_world (fold (run_replica_task (direct xxh3)) late s')"
  shows "cl_rd w (a, k) = cl_rd (fs_world s) (a, k)
    \<or> (\<exists>idx buf n' p nid. bt_get (of_dirty f) idx = Some buf \<and> k = write_key (of_ino f) idx
         \<and> inodes (cw_meta w) (of_ino f) = Some n' \<and> bt_get (i_blocks n') idx = Some p \<and> nid \<in> set (primary p # replicas p)
         \<and> hm_get (live_addrs (cw_meta (fs_world s))) nid = Some a \<and> cl_rd w (a, k) = Some buf)"
proof -
  let ?M = "live_addrs (cw_meta (fs_world s))"
  consider "ts = []" "cl_rd (fs_world s') = cl_rd (fs_world s)"
    | bm n' J where "J = \<lparr> j_addrs = ?M, j_nodes = \<lambda>p. primary p # replicas p, j_ino = of_ino f, j_map = bm, j_blks = of_dirty f \<rparr>"
      "\<forall>t \<in> set ts. task_of_job J t" "pool_ok ?M s'"
      "\<forall>a k. cl_rd (fs_world s') (a, k) = cl_rd (fs_world s) (a, k) \<or> (\<exists>buf. aims J a k buf \<and> cl_rd (fs_world s') (a, k) = Some buf)"
      "inodes (cw_meta (fs_world s')) (of_ino f) = Some n'" "\<forall>idx. bt_get (i_blocks n') idx = bt_get bm idx"
    using publish_job [OF assms(1,2) refl] unfolding Let_def by blast
  then show ?thesis
  proof cases
    case 1
    then show ?thesis using assms(3,4) by simp
  next
    case (2 bm n' J)
    have jw: "job_writes J (fs_world s') w"
      using late_tasks_job [of late J s' xxh3] 2(1-3) assms(3,4) by auto
    have "cl_rd w (a, k) = cl_rd (fs_world s) (a, k) \<or> (\<exists>buf. aims J a k buf \<and> cl_rd w (a, k) = Some buf)"
      using jw 2(4) unfolding job_writes_def by metis
    moreover have "inodes (cw_meta w) (of_ino f) = Some n'" using jw 2(5) by (simp add: job_writes_def world_frame_def)
    moreover have "\<exists>idx p nid. bt_get (of_dirty f) idx = Some buf \<and> k = write_key (of_ino f) idx
        \<and> bt_get (i_blocks n') idx = Some p \<and> nid \<in> set (primary p # replicas p) \<and> hm_get ?M nid = Some a"
      if "aims J a k buf" for buf
    proof -
      have wf: "bt_wf (of_dirty f)" using assms(1) by (simp add: publish_ready_def Let_def)
      show ?thesis using that unfolding aims_def 2(1) by (simp add: 2(6) bt_get_iff [OF wf])
    qed
    ultimately show ?thesis by blast
  qed
qed

theorem publish_keeps_blocks_whole_witness:
  "\<exists>s'. publish sample_T (\<lambda>_. 0) 1 AllReplicas (pub_client 0) = (Ok (), [], s')
     \<and> (cl_rd (fs_world s') (''http://b'', write_key (InodeId 2) (BlockIdx 0)) \<in> {None, Some [1, 2, 3, 4]})"
proof -
  obtain s' where pub: "publish sample_T (\<lambda>_. 0) 1 AllReplicas (pub_client 0) = (Ok (), [], s')" using pub_ok by blast
  let ?ak = "(''http://b'', write_key (InodeId 2) (BlockIdx 0))"
  have old: "cl_rd (fs_world (pub_client 0)) ?ak = None"
    by (simp add: cl_rd_def pub_client_simps store_rd_eq store_new_def write_key_def hm_get_def)
  have "bt_get (of_dirty (pub_file 0)) idx = Some buf \<Longrightarrow> buf = [1, 2, 3, 4]" for idx buf
    by (simp add: pub_file_def bt_get_def split: if_splits)
  then show ?thesis
    using publish_keeps_blocks_whole [OF pub_ready pub _ refl, of "[]" "''http://b''" "write_key (InodeId 2) (BlockIdx 0)"] old pub
    by auto
qed

end
