(* ===== verification/End_To_End.thy ===== *)
theory End_To_End
  imports Publish_Live
begin

text \<open>
  From the system calls of one client to those of another: a file that is opened, written
  any number of times and flushed is read by the next client that opens it with exactly the
  content that the sequence of writes defines.  The content of a file is specified as a
  function from positions to bytes, without blocks, caches, stores or generations.
\<close>

section \<open>What a sequence of writes means\<close>

type_synonym content = "nat \<Rightarrow> u8"

definition write_at :: "i64 \<times> bytes \<Rightarrow> content \<Rightarrow> content" where
  "write_at w c p = (if unat (fst w) \<le> p \<and> p < unat (fst w) + length (snd w) then snd w ! (p - unat (fst w)) else c p)"

definition write_size :: "i64 \<times> bytes \<Rightarrow> u64 \<Rightarrow> u64" where
  "write_size w sz = max sz (fst w + of_nat (length (snd w)))"

lemma fold_write_at_cong: "c p = c' p \<Longrightarrow> fold write_at ws c p = fold write_at ws c' p"
proof (induction ws arbitrary: c c')
  case (Cons w ws)
  have "write_at w c p = write_at w c' p" using Cons.prems by (simp add: write_at_def)
  then show ?case using Cons.IH [of "write_at w c" "write_at w c'"] by simp
qed simp

text \<open>The write calls of an application, each of which has to write everything.\<close>

fun write_calls :: "'w transport \<Rightarrow> u64 \<Rightarrow> (i64 \<times> bytes) list \<Rightarrow> 'w fs \<Rightarrow> 'w fs option" where
  "write_calls T fh [] s = Some s"
| "write_calls T fh (w # ws) s =
     (case fuse_write T fh (fst w) (snd w) s of
        Some (Ok n, s1) \<Rightarrow> if unat n = length (snd w) then write_calls T fh ws s1 else None
      | _ \<Rightarrow> None)"

definition write_fits :: "u64 \<Rightarrow> i64 \<times> bytes \<Rightarrow> bool" where
  "write_fits bs w \<longleftrightarrow> unat (fst w) + length (snd w) + unat bs < 2 ^ 64 \<and> length (snd w) < 2 ^ 32"

section \<open>The writing client\<close>

lemma bt_insert_nonempty: "bt_insert k v m \<noteq> []"
  using keys_bt_insert [of k v m] by auto

lemma load_block_wf:
  "load_block fetch bs idx whole f s = (r, f1, s1) \<Longrightarrow> bt_wf (of_dirty f) \<Longrightarrow> bt_wf (of_dirty f1)"
  by (auto simp: load_block_def bt_wf_insert split: if_splits prod.splits result.splits)

lemma copy_chunk_wf:
  "copy_chunk idx a b c data f = Some f1 \<Longrightarrow> bt_wf (of_dirty f) \<Longrightarrow> bt_wf (of_dirty f1) \<and> of_dirty f1 \<noteq> []"
  by (auto simp: copy_chunk_def bt_wf_insert bt_insert_nonempty split: option.splits if_splits)

lemma write_loop_wf:
  "write_loop fuel fetch bs e data cur written f s = Some (Ok v, f', s') \<Longrightarrow> bt_wf (of_dirty f) \<Longrightarrow>
     bt_wf (of_dirty f') \<and> (of_dirty f \<noteq> [] \<or> cur < e \<longrightarrow> of_dirty f' \<noteq> [])"
proof (induction fuel arbitrary: cur written f s)
  case (Suc fuel)
  let ?off = "cur div bs * bs" and ?n = "min (cur div bs * bs + bs) e - cur"
  show ?case
  proof (cases "cur < e")
    case True
    then have bs: "bs \<noteq> 0" using Suc.prems(1) by auto
    obtain q f1 s1 where q: "load_block fetch bs (BlockIdx (cur div bs)) (cur - ?off = 0 \<and> ?n = bs) f s = (q, f1, s1)"
      by (metis prod_cases3)
    have "q = Ok ()" using Suc.prems(1) True bs q by (cases q) (simp_all add: Let_def)
    then obtain f2 where f2: "copy_chunk (BlockIdx (cur div bs)) (unat (cur - ?off)) (unat ?n) (unat written) data f1 = Some f2"
      and rest: "write_loop fuel fetch bs e data (cur + ?n) (written + ucast ?n) f2 s1 = Some (Ok v, f', s')"
      using Suc.prems(1) True bs q by (auto simp: Let_def split: option.splits)
    have "bt_wf (of_dirty f2)" "of_dirty f2 \<noteq> []" using copy_chunk_wf [OF f2 load_block_wf [OF q Suc.prems(2)]] by blast+
    then show ?thesis using Suc.IH [OF rest] by blast
  qed (use Suc.prems in auto)
qed simp

text \<open>A client between two write calls.\<close>

definition writing ::
  "(string \<Rightarrow> u64 \<Rightarrow> u64) \<Rightarrow> cluster \<Rightarrow> (node_id, string) hmap \<Rightarrow> u64 \<Rightarrow> (block_idx \<Rightarrow> bytes) \<Rightarrow> u64 \<Rightarrow> open_file \<Rightarrow> cluster fs \<Rightarrow> bool" where
  "writing xxh3 w M bs base fh f s \<longleftrightarrow> fs_open_files s fh = Some f \<and> dirty_ok bs f \<and> bt_wf (of_dirty f)
     \<and> fetch_ok (direct xxh3) (\<lambda>w'. w' = w) M (cw_token w) bs base f s"

lemma fetch_ok_put_open_file [simp]:
  "fetch_ok T W M token bs base f (put_open_file fh g s) = fetch_ok T W M token bs base f s"
  by (simp add: fetch_ok_def client_ok_def addrs_ok_def put_open_file_def)

lemma write_call_ok:
  assumes wr: "writing xxh3 w M bs base fh f s" and bs: "0 < unat bs" and fits: "write_fits bs (off, data)"
  shows "\<exists>f' s'. fuse_write (direct xxh3) fh off data s = Some (Ok (of_nat (length data)), s')
    \<and> writing xxh3 w M bs base fh f' s' \<and> same_file f f' \<and> of_size_hint f' = write_size (off, data) (of_size_hint f)
    \<and> (of_dirty f \<noteq> [] \<or> data \<noteq> [] \<longrightarrow> of_dirty f' \<noteq> [])
    \<and> (\<forall>p < 2 ^ 64. file_view (unat bs) base f' p = write_at (off, data) (file_view (unat bs) base f) p)"
proof -
  let ?stop = "off + of_nat (length data)"
  have ok: "fetch_ok (direct xxh3) (\<lambda>w'. w' = w) M (cw_token w) bs base f s" and d: "dirty_ok bs f" "bt_wf (of_dirty f)"
    and opened: "fs_open_files s fh = Some f"
    using wr by (simp_all add: writing_def)
  have room: "unat off + length data + unat bs < 2 ^ 64" "length data < 2 ^ 32" using fits by (simp_all add: write_fits_def)
  have size: "fs_block_size s = bs" using ok by (auto simp: fetch_ok_def client_ok_def)
  obtain dirty f' s' where w': "apply_write_with (Suc (length data)) (fetch_block (direct xxh3)) bs off data f s = Some (Ok (of_nat (length data)), f', s')"
    and f': "f' = f\<lparr>of_dirty := dirty, of_size_hint := max (of_size_hint f) ?stop\<rparr>"
    and ok': "fetch_ok (direct xxh3) (\<lambda>w'. w' = w) M (cw_token w) bs base f' s'" "dirty_ok bs f'"
    and view: "\<forall>p < 2 ^ 64. file_view (unat bs) base f' p =
         (if unat off \<le> p \<and> p < unat off + length data then data ! (p - unat off) else file_view (unat bs) base f p)"
    using fb.apply_write_view [OF ok d(1) bs room] by blast
  obtain v g t where loop: "write_loop (Suc (length data)) (fetch_block (direct xxh3)) bs ?stop data off 0 f s = Some (Ok v, g, t)"
    and g: "of_dirty f' = of_dirty g"
    using w' by (auto simp: apply_write_with_def Let_def simp del: write_loop.simps split: option.splits result.splits)
  have "off < ?stop" if "data \<noteq> []"
    using room that by (simp add: word_less_nat_alt unat_word_ariths(1) unat_of_nat_u64)
  then have "bt_wf (of_dirty f')" "of_dirty f \<noteq> [] \<or> data \<noteq> [] \<longrightarrow> of_dirty f' \<noteq> []"
    using write_loop_wf [OF loop d(2)] by (auto simp: g)
  moreover have "fuse_write (direct xxh3) fh off data s = Some (Ok (of_nat (length data)), put_open_file fh f' s')"
    using opened w' size by (simp add: fuse_write_def apply_write_def errno_of_def)
  moreover have "fs_open_files (put_open_file fh f' s') fh = Some f'" by (simp add: put_open_file_def)
  ultimately show ?thesis
    using ok' view f' by (intro exI [of _ f'] exI [of _ "put_open_file fh f' s'"])
      (simp add: writing_def same_file_def write_at_def write_size_def)
qed

lemma write_calls_ok:
  assumes "writing xxh3 w M bs base fh f s" and bs: "0 < unat bs" and "\<forall>x \<in> set ws. write_fits bs x"
  shows "\<exists>f' s'. write_calls (direct xxh3) fh ws s = Some s' \<and> writing xxh3 w M bs base fh f' s' \<and> same_file f f'
    \<and> of_size_hint f' = fold write_size ws (of_size_hint f)
    \<and> (of_dirty f \<noteq> [] \<or> (\<exists>x \<in> set ws. snd x \<noteq> []) \<longrightarrow> of_dirty f' \<noteq> [])
    \<and> (\<forall>p < 2 ^ 64. file_view (unat bs) base f' p = fold write_at ws (file_view (unat bs) base f) p)"
  using assms(1,3)
proof (induction ws arbitrary: f s)
  case Nil
  then show ?case by (intro exI [of _ f] exI [of _ s]) (simp add: same_file_def)
next
  case (Cons x ws)
  obtain off data where x: "x = (off, data)" by (cases x)
  have fits: "write_fits bs (off, data)" and rest: "\<forall>x \<in> set ws. write_fits bs x" using Cons.prems(2) x by simp_all
  have len: "unat (of_nat (length data) :: u32) = length data"
    using fits by (simp add: write_fits_def unat_of_nat take_bit_nat_eq_self)
  obtain f1 s1 where 1: "fuse_write (direct xxh3) fh off data s = Some (Ok (of_nat (length data)), s1)"
    "writing xxh3 w M bs base fh f1 s1" "same_file f f1" "of_size_hint f1 = write_size x (of_size_hint f)"
    "of_dirty f \<noteq> [] \<or> data \<noteq> [] \<longrightarrow> of_dirty f1 \<noteq> []"
    "\<forall>p < 2 ^ 64. file_view (unat bs) base f1 p = write_at x (file_view (unat bs) base f) p"
    using write_call_ok [OF Cons.prems(1) bs fits] unfolding x by blast
  obtain f' s' where 2: "write_calls (direct xxh3) fh ws s1 = Some s'" "writing xxh3 w M bs base fh f' s'" "same_file f1 f'"
    "of_size_hint f' = fold write_size ws (of_size_hint f1)"
    "of_dirty f1 \<noteq> [] \<or> (\<exists>x \<in> set ws. snd x \<noteq> []) \<longrightarrow> of_dirty f' \<noteq> []"
    "\<forall>p < 2 ^ 64. file_view (unat bs) base f' p = fold write_at ws (file_view (unat bs) base f1) p"
    using Cons.IH [OF 1(2) rest] by blast
  have "file_view (unat bs) base f' p = fold write_at (x # ws) (file_view (unat bs) base f) p" if "p < 2 ^ 64" for p
    using 2(6) 1(6) that
      fold_write_at_cong [of "file_view (unat bs) base f1" p "write_at x (file_view (unat bs) base f)" ws] by simp
  moreover have "write_calls (direct xxh3) fh (x # ws) s = Some s'" using 1(1) 2(1) len by (simp add: x)
  moreover have "same_file f f'" using 1(3) 2(3) by (simp add: same_file_def)
  moreover have "of_size_hint f' = fold write_size (x # ws) (of_size_hint f)" using 1(4) 2(4) by simp
  moreover have "of_dirty f \<noteq> [] \<or> (\<exists>y \<in> set (x # ws). snd y \<noteq> []) \<longrightarrow> of_dirty f' \<noteq> []"
    using 1(5) 2(5) by (auto simp: x)
  ultimately show ?case using 2(2) by blast
qed

section \<open>From one client to another\<close>

text \<open>
  The file a session starts from: it exists, its blocks are held by the first reachable
  nodes of their placements, and the content is what these blocks make up.
\<close>

definition file_on_disk :: "cluster \<Rightarrow> u64 \<Rightarrow> u64 \<Rightarrow> (block_idx \<Rightarrow> bytes) \<Rightarrow> inode \<Rightarrow> bool" where
  "file_on_disk w ino bs base n \<longleftrightarrow> inodes (cw_meta w) (InodeId ino) = Some n \<and> i_kind n = File \<and> bt_wf (i_blocks n)
     \<and> (\<forall>idx p. bt_get (i_blocks n) idx = Some p \<longrightarrow> holds w (live_addrs (cw_meta w)) (InodeId ino) bs idx p (base idx))"

text \<open>A session up to its last write call is ready to publish.\<close>

lemma written_ready:
  assumes disk: "file_on_disk (fs_world s) ino bs base n" and fresh: "fresh_for (InodeId ino) (i_generation n) s"
    and bs: "fs_block_size s = bs" "0 < unat bs" and fits: "\<forall>x \<in> set ws. write_fits bs x"
  shows "\<exists>fh s1 s2 f. fuse_open (direct xxh3) ino fl s = (Ok fh, s1) \<and> write_calls (direct xxh3) fh ws s1 = Some s2
    \<and> ((\<exists>x \<in> set ws. snd x \<noteq> []) \<longrightarrow> publish_ready s2 fh f n)
    \<and> live_addrs (cw_meta (fs_world s2)) = live_addrs (cw_meta (fs_world s)) \<and> cw_stores (fs_world s2) = cw_stores (fs_world s)
    \<and> of_ino f = InodeId ino \<and> of_generation f = i_generation n \<and> of_size_hint f = fold write_size ws (i_size n) \<and> maps_agree f n
    \<and> (\<forall>p < 2 ^ 64. file_view (unat bs) base f p = fold write_at ws (disk_view (unat bs) base (i_blocks n)) p)"
proof -
  let ?m = "cw_meta (fs_world s)"
  have n: "inodes ?m (InodeId ino) = Some n" "i_kind n = File" and wf: "bt_wf (i_blocks n)"
    and held: "\<forall>idx p. bt_get (i_blocks n) idx = Some p \<longrightarrow> holds (fs_world s) (live_addrs ?m) (InodeId ino) (fs_block_size s) idx p (base idx)"
    using disk bs(1) by (simp_all add: file_on_disk_def)
  obtain fh s1 f1 h where o: "fuse_open (direct xxh3) ino fl s = (Ok fh, s1)" "fs_open_files s1 fh = Some f1"
    and f1: "of_ino f1 = InodeId ino" "of_generation f1 = i_generation n" "of_dirty f1 = []" "of_size_hint f1 = i_size n" "maps_agree f1 n"
    and w1: "fs_world s1 = (fs_world s)\<lparr>cw_meta := ?m\<lparr>next_fh := next_fh ?m + 1, open_handles := (open_handles ?m)(fh \<mapsto> h)\<rparr>\<rparr>"
    and h: "oh_ino h = InodeId ino"
    and ok: "fetch_ok (direct xxh3) (\<lambda>w'. w' = fs_world s1) (live_addrs ?m) (cw_token (fs_world s)) (fs_block_size s) base f1 s1"
    using open_session [OF refl refl n wf fresh held, of xxh3 fl] by blast
  have "writing xxh3 (fs_world s1) (live_addrs ?m) bs base fh f1 s1"
    using o(2) f1(3) ok bs(1) by (simp add: writing_def dirty_ok_def w1)
  from write_calls_ok [OF this bs(2) fits] obtain f s2 where calls: "write_calls (direct xxh3) fh ws s1 = Some s2"
    and wr: "writing xxh3 (fs_world s1) (live_addrs ?m) bs base fh f s2" and same: "same_file f1 f"
    and size: "of_size_hint f = fold write_size ws (of_size_hint f1)"
    and dirty: "of_dirty f1 \<noteq> [] \<or> (\<exists>x \<in> set ws. snd x \<noteq> []) \<longrightarrow> of_dirty f \<noteq> []"
    and view: "\<forall>p < 2 ^ 64. file_view (unat bs) base f p = fold write_at ws (file_view (unat bs) base f1) p"
    by blast
  have c: "fs_open_files s2 fh = Some f" "bt_wf (of_dirty f)" "fs_world s2 = fs_world s1" "fs_token s2 = cw_token (fs_world s1)"
    "\<forall>nid c. fs_clients s2 nid = Some c \<longrightarrow> hm_get (live_addrs ?m) nid = Some c"
    using wr by (auto simp: writing_def fetch_ok_def client_ok_def)
  have M: "live_addrs (cw_meta (fs_world s2)) = live_addrs ?m" and st: "cw_stores (fs_world s2) = cw_stores (fs_world s)"
    by (simp_all add: c(3) w1 live_addrs_def)
  have f: "of_ino f = InodeId ino" "of_generation f = i_generation n" "maps_agree f n"
    using same f1 by (simp_all add: same_file_def maps_agree_def)
  have "publish_ready s2 fh f n" if "\<exists>x \<in> set ws. snd x \<noteq> []"
    using that dirty c f n wf h unfolding publish_ready_def Let_def M by (simp add: w1)
  moreover have "of_size_hint f = fold write_size ws (i_size n)" using size f1(4) by simp
  ultimately show ?thesis
    using o(1) calls M st f view [unfolded open_view [OF f1(3,5)]] by blast
qed

text \<open>
  C1. What one client writes, the next one reads.  On a cluster of the modelled servers, let
  a client whose caches are not outdated open a file, whose blocks the reachable stores
  hold, and write to it any number of times, at any offsets.  The open and all the writes
  succeed.  If then a flush of the handle replies Ok, under any interleaving of its store
  writes, every client without an outdated cache that opens the file next gets the size the
  writes have given it, and reads, at every offset and of every length, the old content with
  the writes applied to it in order.  Blocks, caches, stores and generations do not show.
\<close>

theorem writes_reach_next_client:
  assumes "file_on_disk (fs_world s) ino bs base n" and "fresh_for (InodeId ino) (i_generation n) s"
    and "fs_block_size s = bs" and "0 < unat bs" and "\<forall>x \<in> set ws. write_fits bs x" and "\<exists>x \<in> set ws. snd x \<noteq> []"
    and "unat off + unat sz + unat bs < 2 ^ 64"
  shows "\<exists>fh s1 s2. fuse_open (direct xxh3) ino fl s = (Ok fh, s1) \<and> write_calls (direct xxh3) fh ws s1 = Some s2
    \<and> (\<forall>pick ts s3 r. fuse_flush (direct xxh3) pick fh s2 = (Ok (), ts, s3) \<and> fs_world r = fs_world s3
          \<and> fresh_for (InodeId ino) (bump (i_generation n)) r \<and> fs_block_size r = bs \<longrightarrow>
        (\<exists>fh' r1 r2 f'. fuse_open (direct xxh3) ino fl' r = (Ok fh', r1)
          \<and> fs_open_files r1 fh' = Some f' \<and> of_size_hint f' = fold write_size ws (i_size n)
          \<and> fuse_read (direct xxh3) fh' off sz r1
            = Some (Ok (map (fold write_at ws (disk_view (unat bs) base (i_blocks n))) [unat off..<unat off + unat sz]), r2)))"
proof -
  obtain fh s1 s2 f where o: "fuse_open (direct xxh3) ino fl s = (Ok fh, s1)" "write_calls (direct xxh3) fh ws s1 = Some s2"
    and ready: "publish_ready s2 fh f n"
    and M: "live_addrs (cw_meta (fs_world s2)) = live_addrs (cw_meta (fs_world s))" and st: "cw_stores (fs_world s2) = cw_stores (fs_world s)"
    and f: "of_ino f = InodeId ino" "of_generation f = i_generation n" "of_size_hint f = fold write_size ws (i_size n)" "maps_agree f n"
    and view: "\<forall>p < 2 ^ 64. file_view (unat bs) base f p = fold write_at ws (disk_view (unat bs) base (i_blocks n)) p"
    using written_ready [OF assms(1-5), of xxh3 fl] assms(6) by blast
  have held: "\<forall>idx p. bt_get (of_block_map f) idx = Some p \<longrightarrow> bt_get (of_dirty f) idx = None \<longrightarrow>
      holds (fs_world s2) (live_addrs (cw_meta (fs_world s2))) (of_ino f) bs idx p (base idx)"
    using assms(1) f(1,4) by (simp add: M holds_cong [OF st] file_on_disk_def maps_agree_def)
  have same: "map (file_view (unat bs) base f) [unat off..<unat off + unat sz]
      = map (fold write_at ws (disk_view (unat bs) base (i_blocks n))) [unat off..<unat off + unat sz]"
    using view assms(7) by (intro map_cong) auto
  have "\<exists>fh' r1 r2 f'. fuse_open (direct xxh3) ino fl' r = (Ok fh', r1)
      \<and> fs_open_files r1 fh' = Some f' \<and> of_size_hint f' = fold write_size ws (i_size n)
      \<and> fuse_read (direct xxh3) fh' off sz r1
        = Some (Ok (map (fold write_at ws (disk_view (unat bs) base (i_blocks n))) [unat off..<unat off + unat sz]), r2)"
    if fl: "fuse_flush (direct xxh3) pick fh s2 = (Ok (), ts, s3)" and r: "fs_world r = fs_world s3"
      "fresh_for (InodeId ino) (bump (i_generation n)) r" "fs_block_size r = bs" for pick ts s3 r
  proof -
    have pub: "publish (direct xxh3) pick fh PrimariesOnly s2 = (Ok (), ts, s3)"
      using fl by (auto simp: fuse_flush_def flush_path_def errno_of_def split: prod.splits result.splits)
    show ?thesis
      using published_read_back [OF ready pub held r(1) _ r(3) assms(4,7), of fl'] r(2) unfolding same f by simp
  qed
  with o show ?thesis by blast
qed

text \<open>A new file, one byte written to it, read by a client that is mounted afterwards.\<close>

definition e2e_client :: "cluster fs" where
  "e2e_client = build_fs pub_cluster 1000 4 2 ''t''"

lemma e2e_client_simps:
  "fs_world e2e_client = pub_cluster" "fs_token e2e_client = ''t''" "fs_block_size e2e_client = 4" "fs_clients e2e_client = Map.empty"
  by (simp_all add: e2e_client_def build_fs_def)

definition e2e_inode :: inode where
  "e2e_inode = the (inodes pub_meta (InodeId 2))"

lemma e2e_inode_simps:
  "inodes pub_meta (InodeId 2) = Some e2e_inode" "i_kind e2e_inode = File" "i_blocks e2e_inode = []" "i_generation e2e_inode = Generation 0"
  by (simp_all add: e2e_inode_def pub_meta_simps sample_file new_file_inode_def)

lemma e2e_start: "file_on_disk (fs_world e2e_client) 2 4 (\<lambda>_. []) e2e_inode" "fresh_for (InodeId 2) (i_generation e2e_inode) e2e_client"
  by (simp_all add: file_on_disk_def e2e_client_simps pub_client_simps e2e_inode_simps fresh_for_def Let_def)
    (simp_all add: e2e_client_def build_fs_def)

lemma bt_get_all_None:
  assumes "\<And>idx. bt_get m idx = None"
  shows "m = []"
proof (cases m)
  case (Cons x xs)
  then show ?thesis using assms [of "fst x"] by (cases x) (simp add: bt_get_def)
qed

lemma e2e_flush:
  "\<exists>fh s1 s2 ts s3. fuse_open sample_T 2 0 e2e_client = (Ok fh, s1) \<and> write_calls sample_T fh [(0, [7])] s1 = Some s2
     \<and> publish sample_T (\<lambda>_. 0) fh PrimariesOnly s2 = (Ok (), ts, s3) \<and> cw_token (fs_world s3) = ''t''"
proof -
  let ?m = "cw_meta pub_cluster"
  obtain h f where o: "fuse_open sample_T 2 0 e2e_client = (Ok (next_fh ?m), put_open_file (next_fh ?m) f (e2e_client\<lparr>fs_world :=
      pub_cluster\<lparr>cw_meta := ?m\<lparr>next_fh := next_fh ?m + 1, open_handles := (open_handles ?m)(next_fh ?m \<mapsto> h)\<rparr>\<rparr>\<rparr>))"
    and f: "oh_ino h = InodeId 2" "of_ino f = InodeId 2" "of_generation f = Generation 0" "of_dirty f = []" "maps_agree f e2e_inode"
    using fuse_open_file [of e2e_client ?m 2 e2e_inode "\<lambda>_ _. 0" 0] e2e_inode_simps
    by (auto simp: e2e_client_simps pub_client_simps)
  define w where "w = pub_cluster\<lparr>cw_meta := ?m\<lparr>next_fh := next_fh ?m + 1, open_handles := (open_handles ?m)(next_fh ?m \<mapsto> h)\<rparr>\<rparr>"
  define s1 where "s1 = put_open_file (next_fh ?m) f (e2e_client\<lparr>fs_world := w\<rparr>)"
  have bm: "of_block_map f = []" using f(5) by (intro bt_get_all_None) (simp add: maps_agree_def e2e_inode_simps)
  define f2 where "f2 = f\<lparr>of_dirty := [(BlockIdx 0, [7, 0, 0, 0])], of_size_hint := max (of_size_hint f) 1\<rparr>"
  have s1: "fs_open_files s1 (next_fh ?m) = Some f" "fs_block_size s1 = 4" by (simp_all add: s1_def put_open_file_def e2e_client_simps)
  have zeros: "replicate 4 (0 :: u8) = [0, 0, 0, 0]" by (simp add: numeral_eq_Suc)
  have "apply_write sample_T 0 [7] f s1 = Some (Ok 1, f2, s1)"
    using s1 f(4) bm by (simp add: apply_write_def apply_write_with_def Let_def load_block_def bt_contains_def copy_chunk_def
        bt_get_def splice_def zeros f2_def)
  then have calls: "write_calls sample_T (next_fh ?m) [(0, [7])] s1 = Some (put_open_file (next_fh ?m) f2 s1)"
    using s1(1) by (simp add: fuse_write_def errno_of_def)
  let ?s2 = "put_open_file (next_fh ?m) f2 s1"
  have w2: "fs_world ?s2 = w" "fs_token ?s2 = ''t''" "fs_clients ?s2 = Map.empty" "fs_open_files ?s2 (next_fh ?m) = Some f2"
    by (simp_all add: put_open_file_def s1_def e2e_client_simps)
  have wm: "inodes (cw_meta w) = inodes pub_meta" "open_handles (cw_meta w) (next_fh ?m) = Some h" "cw_token w = ''t''" "cw_now w = 0"
    "live_addrs (cw_meta w) = [(NodeId ''n2'', ''http://b'')]" "live_nodes (cw_meta w) = [NodeId ''n2'']" "replication_factor (cw_meta w) = 2"
    "cw_stores w = cw_stores pub_cluster"
    using pub_addrs by (simp_all add: w_def pub_client_simps live_addrs_def live_nodes_def pub_meta_simps)
  have ready: "publish_ready ?s2 (next_fh ?m) f2 e2e_inode"
    using f(5) unfolding publish_ready_def Let_def w2 by (simp add: wm f2_def f(1-3) e2e_inode_simps maps_agree_def)
  have "cluster_room (live_addrs (cw_meta w)) 8 w"
    using store_room_new [of 8 100 "NodeId ''n2''" "[]"]
    by (auto simp: cluster_room_def wm pub_client_simps hm_get_def split: if_splits)
  then have "publish_up 2 ?s2 f2 e2e_inode"
    unfolding publish_up_def Let_def w2 by (simp add: wm f2_def f(3) bm e2e_inode_simps clock_ok_def)
  from publish_replies_ok [OF ready this, of "\<lambda>_ _. 0" "\<lambda>_. 0" PrimariesOnly] obtain ts s3
    where pub: "publish sample_T (\<lambda>_. 0) (next_fh ?m) PrimariesOnly ?s2 = (Ok (), ts, s3)" by blast
  have "cw_token (fs_world s3) = ''t''" using publish_readyD [OF ready pub refl] by (auto simp: w2 wm(3))
  then show ?thesis using o [folded w_def, folded s1_def] calls pub by blast
qed

theorem writes_reach_next_client_witness:
  "\<exists>fh s1 s2 ts s3 fh' r1 r2. fuse_open sample_T 2 0 e2e_client = (Ok fh, s1) \<and> write_calls sample_T fh [(0, [7])] s1 = Some s2
     \<and> fuse_flush sample_T (\<lambda>_. 0) fh s2 = (Ok (), ts, s3)
     \<and> fuse_open sample_T 2 0 (build_fs (fs_world s3) 1000 4 2 ''t'') = (Ok fh', r1)
     \<and> fuse_read sample_T fh' 0 2 r1 = Some (Ok [7, 0], r2)"
proof -
  obtain fh s1 s2 ts s3 where o: "fuse_open sample_T 2 0 e2e_client = (Ok fh, s1)" "write_calls sample_T fh [(0, [7])] s1 = Some s2"
    and pub: "publish sample_T (\<lambda>_. 0) fh PrimariesOnly s2 = (Ok (), ts, s3)" and tok: "cw_token (fs_world s3) = ''t''"
    using e2e_flush by blast
  have fl: "fuse_flush sample_T (\<lambda>_. 0) fh s2 = (Ok (), ts, s3)" by (simp add: fuse_flush_def flush_path_def pub errno_of_def)
  let ?r = "build_fs (fs_world s3) 1000 4 2 ''t''"
  have r: "fs_world ?r = fs_world s3" "fresh_for (InodeId 2) (bump (i_generation e2e_inode)) ?r" "fs_block_size ?r = 4"
    using tok by (simp_all add: build_fs_def fresh_for_def Let_def)
  have bytes: "map (fold write_at [(0, [7])] (disk_view (unat (4 :: u64)) (\<lambda>_. []) (i_blocks e2e_inode))) [unat (0 :: i64)..<unat (0 :: i64) + unat (2 :: u32)] = [7, 0]"
    by (simp add: upt_rec write_at_def disk_view_def e2e_inode_simps bt_contains_def byte_of_def)
  have ws: "\<forall>x \<in> set [(0 :: i64, [7 :: u8])]. write_fits 4 x" "\<exists>x \<in> set [(0 :: i64, [7 :: u8])]. snd x \<noteq> []"
    by (simp_all add: write_fits_def)
  have room: "0 < unat (4 :: u64)" "unat (0 :: i64) + unat (2 :: u32) + unat (4 :: u64) < 2 ^ 64" by simp_all
  obtain fh0 t1 t2 where t: "fuse_open sample_T 2 0 e2e_client = (Ok fh0, t1)" "write_calls sample_T fh0 [(0, [7])] t1 = Some t2"
    and all: "\<forall>pick ts s3 r. fuse_flush sample_T pick fh0 t2 = (Ok (), ts, s3) \<and> fs_world r = fs_world s3
          \<and> fresh_for (InodeId 2) (bump (i_generation e2e_inode)) r \<and> fs_block_size r = 4 \<longrightarrow>
        (\<exists>fh' r1 r2 f'. fuse_open sample_T 2 0 r = (Ok fh', r1)
          \<and> fs_open_files r1 fh' = Some f' \<and> of_size_hint f' = fold write_size [(0, [7])] (i_size e2e_inode)
          \<and> fuse_read sample_T fh' 0 2 r1 = Some (Ok [7, 0], r2))"
    using writes_reach_next_client [OF e2e_start e2e_client_simps(3) room(1) ws room(2), of "\<lambda>_ _. 0" 0 0]
    unfolding bytes by blast
  have "fh0 = fh" "t2 = s2" using o t by auto
  then show ?thesis
    using all [rule_format, of "\<lambda>_. 0" ts s3 ?r] fl r o by blast
qed

end
