(* ===== verification/Startup_Props.thy ===== *)
theory Startup_Props
  imports Startup Publish_Props
begin

text \<open>
  What start-up and heartbeats give the rest of the system: a store that has sent a
  heartbeat can be used by the metadata server for placements and found by the clients;
  and what the settings of a client become.
\<close>

section \<open>Nodes and their addresses\<close>

lemma live_addrs_get:
  assumes "nodes_wf m"
  shows "hm_get (live_addrs m) nid = (case hm_get (nodes m) nid of
      Some ni \<Rightarrow> if ni_status ni = Up then Some (''http://'' @ ni_addr ni) else None
    | None \<Rightarrow> None)"
proof -
  have wf: "hm_wf (nodes m)" and ids: "\<And>k ni. hm_get (nodes m) k = Some ni \<Longrightarrow> ni_node_id ni = k"
    using assms by (simp_all add: nodes_wf_def)
  let ?up = "filter (\<lambda>n. ni_status n = Up) (map snd (nodes m))"
  let ?kvs = "map (\<lambda>n. (ni_node_id n, ''http://'' @ ni_addr n)) ?up"
  have node: "NodeId (as_str n) = n" for n by (cases n) simp
  have eq: "live_addrs m = hm_collect ?kvs"
    by (simp add: live_addrs_def addr_map_of_def node_info_to_proto_def comp_def node)
  have "distinct (map fst ?kvs)"
    using live_nodes_distinct [OF assms] by (simp add: live_nodes_def comp_def)
  then have get: "hm_get (live_addrs m) nid = Some a \<longleftrightarrow> (nid, a) \<in> set ?kvs" for a
    unfolding eq by (simp add: hm_get_collect_distinct)
  have mem: "ni \<in> set ?up \<longleftrightarrow> ni_status ni = Up \<and> hm_get (nodes m) (ni_node_id ni) = Some ni" for ni
  proof -
    have "ni \<in> snd ` set (nodes m) \<longleftrightarrow> (\<exists>k. hm_get (nodes m) k = Some ni)"
      unfolding hm_get_iff [OF wf] by force
    also have "\<dots> \<longleftrightarrow> hm_get (nodes m) (ni_node_id ni) = Some ni" using ids by blast
    finally show ?thesis by auto
  qed
  have "hm_get (live_addrs m) nid = Some a \<longleftrightarrow>
      (\<exists>ni. hm_get (nodes m) nid = Some ni \<and> ni_status ni = Up \<and> a = ''http://'' @ ni_addr ni)" for a
    unfolding get set_map image_iff Bex_def mem using ids by auto
  then show ?thesis
    by (cases "hm_get (nodes m) nid"; cases "hm_get (live_addrs m) nid") (auto split: if_splits)
qed

text \<open>
  What a store's entry in the node table is after a heartbeat, and that the clients find
  the store at the address it advertises.
\<close>

definition registered :: "store_state \<Rightarrow> string \<Rightarrow> cluster \<Rightarrow> bool" where
  "registered st adv w \<longleftrightarrow>
     hm_get (nodes (cw_meta w)) (st_node_id st) =
       Some \<lparr> ni_node_id = st_node_id st, ni_addr = adv, ni_ram_used = ram_used st,
              ni_ram_total = ram_budget st, ni_status = Up \<rparr>
     \<and> st_node_id st \<in> set (live_nodes (cw_meta w))
     \<and> hm_get (live_addrs (cw_meta w)) (st_node_id st) = Some (''http://'' @ adv)"

text \<open>All that a heartbeat of a store may change: its own entry in the node table.\<close>

definition others_same :: "store_state \<Rightarrow> cluster \<Rightarrow> cluster \<Rightarrow> bool" where
  "others_same st w w1 \<longleftrightarrow>
     (\<forall>nid. nid \<noteq> st_node_id st \<longrightarrow> hm_get (nodes (cw_meta w1)) nid = hm_get (nodes (cw_meta w)) nid
        \<and> hm_get (live_addrs (cw_meta w1)) nid = hm_get (live_addrs (cw_meta w)) nid)
     \<and> next_ino (cw_meta w1) = next_ino (cw_meta w) \<and> next_fh (cw_meta w1) = next_fh (cw_meta w) \<and> cw_tasks w1 = cw_tasks w
     \<and> inodes (cw_meta w1) = inodes (cw_meta w) \<and> dirs (cw_meta w1) = dirs (cw_meta w)
     \<and> open_handles (cw_meta w1) = open_handles (cw_meta w) \<and> cw_stores w1 = cw_stores w \<and> cw_token w1 = cw_token w"

lemma others_same_refl [simp]: "others_same st w w"
  by (simp add: others_same_def)

lemma others_same_trans: "others_same st w w1 \<Longrightarrow> others_same st w1 w2 \<Longrightarrow> others_same st w w2"
  by (simp add: others_same_def)

lemma heartbeat_round_registers:
  assumes "nodes_wf (cw_meta w)" and "cw_stores w addr = Some st"
    and "w1 = heartbeat_round addr adv [''cluster-token'' \<mapsto> cw_token w] ep w"
  shows "nodes_wf (cw_meta w1) \<and> registered st adv w1 \<and> others_same st w w1"
proof -
  let ?m = "cw_meta w" and ?m1 = "cw_meta w1"
  have m1: "?m1 = fst (meta_heartbeat_node (cw_instant w) (heartbeat_req_of st adv ep) ?m)"
    and w1: "cw_stores w1 = cw_stores w" "cw_token w1 = cw_token w" "cw_tasks w1 = cw_tasks w"
    using assms(2,3) by (simp_all add: heartbeat_round_def to_meta_token)
  have node: "NodeId (as_str n) = n" for n by (cases n) simp
  let ?ni = "\<lparr> ni_node_id = st_node_id st, ni_addr = adv, ni_ram_used = ram_used st, ni_ram_total = ram_budget st, ni_status = Up \<rparr>"
  have nds: "hm_get (nodes ?m1) = (hm_get (nodes ?m))(st_node_id st \<mapsto> ?ni)"
    by (simp add: m1 meta_heartbeat_node_def Let_def heartbeat_req_of_def node)
  have wf: "nodes_wf ?m1" unfolding m1 by (rule nodes_wf_heartbeat [OF assms(1)])
  have "registered st adv w1"
    by (simp add: registered_def live_nodes_iff [OF wf] live_addrs_get [OF wf] nds)
  moreover have "others_same st w w1"
    by (simp add: others_same_def w1 live_addrs_get [OF wf] live_addrs_get [OF assms(1)] nds)
      (simp add: m1 meta_heartbeat_node_def Let_def)
  ultimately show ?thesis using wf by simp
qed

lemma heartbeat_round_other_token:
  "token \<noteq> cw_token w \<Longrightarrow> heartbeat_round addr adv [''cluster-token'' \<mapsto> token] ep w = w"
  by (simp add: heartbeat_round_def to_meta_def guarded_def check_token_def split: option.splits)

section \<open>The heartbeat task\<close>

lemma run_heartbeat_connecting:
  "ht_phase t = Connecting \<Longrightarrow> True \<notin> set ups \<Longrightarrow> run_heartbeat parse_md addr (ups @ ups') (t, w) = run_heartbeat parse_md addr ups' (t, w)"
  by (induction ups) (auto simp: heartbeat_step_def)

lemma run_heartbeat_panicked:
  "ht_phase t = Panicked \<Longrightarrow> run_heartbeat parse_md addr ups (t, w) = (t, w)"
  by (induction ups) (simp_all add: heartbeat_step_def)

lemma run_heartbeat_no_token:
  assumes "ht_phase t = Beating" and "parse_md (ht_token t) \<noteq> Some (cw_token w)"
  shows "snd (run_heartbeat parse_md addr ups (t, w)) = w"
  using assms
  by (induction ups)
    (auto simp: heartbeat_step_def authed_def run_heartbeat_panicked heartbeat_round_other_token split: option.splits)

lemma run_heartbeat_beating:
  assumes "ht_phase t = Beating" and "parse_md (ht_token t) = Some (cw_token w)"
    and "nodes_wf (cw_meta w)" and "cw_stores w addr = Some st"
    and "run_heartbeat parse_md addr ups (t, w) = (t1, w1)"
  shows "if True \<in> set ups
    then registered st (ht_advertise_addr t) w1 \<and> others_same st w w1 \<and> nodes_wf (cw_meta w1)
    else w1 = w"
  using assms(2-5)
proof (induction ups arbitrary: w)
  case (Cons up ups)
  let ?w = "if up then heartbeat_round addr (ht_advertise_addr t) [''cluster-token'' \<mapsto> cw_token w] (ht_epoch_s t) w else w"
  have run: "run_heartbeat parse_md addr ups (t, ?w) = (t1, w1)"
    using Cons.prems(1,4) assms(1) by (simp add: heartbeat_step_def authed_def)
  show ?case
  proof (cases up)
    case True
    note r = heartbeat_round_registers [OF Cons.prems(2,3) refl, of "ht_advertise_addr t" "ht_epoch_s t"]
    with True have w: "nodes_wf (cw_meta ?w)" "registered st (ht_advertise_addr t) ?w" "others_same st w ?w" by simp_all
    then have "parse_md (ht_token t) = Some (cw_token ?w)" and "cw_stores ?w addr = Some st"
      using Cons.prems(1,3) by (simp_all add: others_same_def)
    from Cons.IH [OF this(1) w(1) this(2) run] w True show ?thesis
      using others_same_trans [OF w(3)] by (auto split: if_splits)
  next
    case False
    with Cons.IH [OF Cons.prems(1,2,3)] run show ?thesis by simp
  qed
qed simp

text \<open>
  C31. The heartbeat task brings a store into the cluster.  Start it with a token that
  tonic turns into the cluster's, and let its attempts to connect and its rounds succeed
  or fail in any order.  As soon as one attempt and one later round have got through, the
  store is a live node of the metadata server, with its usage and its budget, clients find
  it at the address it advertises, and no other node, no inode, directory, handle, counter,
  pending task or store has changed; before that, nothing has
  changed at all.  With another token, or one that does not parse, nothing ever changes.
\<close>

theorem heartbeat_task_registers:
  assumes "nodes_wf (cw_meta w)" and "cw_stores w addr = Some st"
    and "run_heartbeat parse_md addr ups (spawn_heartbeat now adv token, w) = (t1, w1)"
  shows "if parse_md token = Some (cw_token w) \<and> (\<exists>xs ys zs. ups = xs @ True # ys @ True # zs)
    then registered st adv w1 \<and> others_same st w w1 \<and> nodes_wf (cw_meta w1)
    else w1 = w"
proof (cases "True \<in> set ups")
  case False
  from run_heartbeat_connecting [of "spawn_heartbeat now adv token" ups parse_md addr "[]" w] False assms(3)
  show ?thesis by (auto simp: spawn_heartbeat_def)
next
  case True
  then obtain xs rs where ups: "ups = xs @ True # rs" and xs: "True \<notin> set xs" by (meson split_list_first)
  let ?t = "(spawn_heartbeat now adv token)\<lparr>ht_phase := Beating\<rparr>"
  have run: "run_heartbeat parse_md addr rs (?t, w) = (t1, w1)"
    using assms(3) run_heartbeat_connecting [of "spawn_heartbeat now adv token" xs parse_md addr "True # rs" w] xs
    by (simp add: ups spawn_heartbeat_def heartbeat_step_def)
  have two: "(\<exists>xs ys zs. ups = xs @ True # ys @ True # zs) \<longleftrightarrow> True \<in> set rs"
  proof
    assume "\<exists>xs ys zs. ups = xs @ True # ys @ True # zs"
    then obtain as bs where "xs @ True # rs = as @ True # bs" "True \<in> set bs" unfolding ups by force
    then show "True \<in> set rs" using xs by (auto simp: append_eq_append_conv2 append_eq_Cons_conv Cons_eq_append_conv)
  next
    assume "True \<in> set rs"
    then obtain ys zs where "rs = ys @ True # zs" by (meson split_list)
    then have "ups = xs @ True # ys @ True # zs" by (simp add: ups)
    then show "\<exists>xs ys zs. ups = xs @ True # ys @ True # zs" by blast
  qed
  show ?thesis
  proof (cases "parse_md token = Some (cw_token w)")
    case True
    have t: "ht_phase ?t = Beating" "ht_token ?t = token" "ht_advertise_addr ?t = adv"
      by (simp_all add: spawn_heartbeat_def)
    from run_heartbeat_beating [OF t(1) _ assms(1,2) run, unfolded t] True show ?thesis
      unfolding two by simp
  next
    case False
    then have "snd (run_heartbeat parse_md addr rs (?t, w)) = w"
      by (intro run_heartbeat_no_token) (auto simp: spawn_heartbeat_def)
    with run False show ?thesis by simp
  qed
qed

theorem heartbeat_task_registers_witness:
  "hm_get (live_addrs (cw_meta (snd (run_heartbeat Some ''http://b'' [False, True, False, True]
     (spawn_heartbeat 0 ''b:7200'' ''t'', sample_cluster))))) (NodeId ''n2'') = Some ''http://b:7200''"
proof -
  obtain st where st: "cw_stores sample_cluster ''http://b'' = Some st" "st_node_id st = NodeId ''n2''"
    by (simp add: sample_cluster_def sample_store_def store_write_block_def store_new_def write_admit_def write_commit_def Let_def)
  have wf: "nodes_wf (cw_meta sample_cluster)" and t: "cw_token sample_cluster = ''t''"
    by (simp_all add: sample_cluster_def meta_new_def nodes_wf_def hm_wf_def hm_get_def)
  let ?ups = "[False, True, False, True]" and ?t = "spawn_heartbeat 0 ''b:7200'' ''t''"
  obtain t1 w1 where run: "run_heartbeat Some ''http://b'' ?ups (?t, sample_cluster) = (t1, w1)" by fastforce
  have "?ups = [False] @ True # [False] @ True # []" by simp
  then have "\<exists>xs ys zs. ?ups = xs @ True # ys @ True # zs" by blast
  with heartbeat_task_registers [OF wf st(1) run] t have "registered st ''b:7200'' w1" by simp
  then show ?thesis unfolding run by (simp add: registered_def st(2))
qed

text \<open>
  The time a store was started at is in every request, and the metadata server does not
  look at it: a restarted store, which is empty, goes on as the node it was.
\<close>

lemma heartbeat_ignores_epoch:
  "meta_heartbeat_node now (r\<lparr>hb_epoch_s := e\<rparr>) m = meta_heartbeat_node now r m"
  by (simp add: meta_heartbeat_node_def Let_def)

section \<open>The counters of the metadata server\<close>

text \<open>
  The number of inodes on the debug page is the number of names plus one for the root, in
  every state whose namespace is a tree.
\<close>

lemma finite_inode_ids [simp]: "finite (A :: inode_id set)"
proof (rule finite_subset)
  show "A \<subseteq> range InodeId" by (auto intro: inode_id.exhaust)
qed simp

lemma debug_state_inodes:
  assumes "ns_ok (abs_ns m)"
  shows "sd_inodes (debug_state m) = Suc (card {(p, n). entry m p n \<noteq> None})"
proof -
  let ?E = "{(p, n). entry m p n \<noteq> None}" and ?f = "\<lambda>(p, n). the (entry m p n)"
  have inj: "inj_on ?f ?E"
    using ns_ok_unique [OF assms] by (fastforce simp: inj_on_def ns_simps)
  have img: "i \<in> ?f ` ?E \<longleftrightarrow> (\<exists>p n. entry m p n = Some i)" for i
    by (force simp: image_iff)
  have "i \<in> ?f ` ?E \<longleftrightarrow> i \<in> dom (inodes m) \<and> i \<noteq> ROOT" for i
  proof
    assume "i \<in> ?f ` ?E"
    then show "i \<in> dom (inodes m) \<and> i \<noteq> ROOT"
      unfolding img using ns_ok_edge [OF assms] by (auto simp: ns_simps)
  next
    assume i: "i \<in> dom (inodes m) \<and> i \<noteq> ROOT"
    then have "ns_below (abs_ns m) ROOT i" using ns_ok_reach [OF assms, of i] by (auto simp: ns_simps)
    then show "i \<in> ?f ` ?E" unfolding img using i by cases (auto simp: ns_simps)
  qed
  then have "?f ` ?E = dom (inodes m) - {ROOT}" by blast
  moreover have "ROOT \<in> dom (inodes m)" using ns_ok_root [OF assms] by (auto simp: ns_simps)
  ultimately have "card (dom (inodes m)) = Suc (card (?f ` ?E))"
    by (metis card.remove finite_inode_ids)
  then show ?thesis unfolding card_image [OF inj] by (simp add: debug_state_def)
qed

section \<open>Settings of a client\<close>

text \<open>
  Leaving out the mount options turns them all off.  For every table that gives a
  client configuration: when the table has no section for the mount options, the file
  system is mounted without any of the four options, permission checks by the kernel
  included; when it has an empty section, with all four.
\<close>

theorem mount_options_absent:
  assumes "client_config_of t = Ok c"
  shows "(map_of t ''mount_options'' = None \<longrightarrow> mount_opts (cc_mount_options c) = [FSName ''dtmpfs'', Subtype ''dtmpfs''])
    \<and> (map_of t ''mount_options'' = Some (TTable []) \<longrightarrow> mount_opts (cc_mount_options c) =
         [FSName ''dtmpfs'', Subtype ''dtmpfs'', DefaultPermissions, AllowOther, AutoUnmount, NoAtime])"
proof -
  have "mount_field t = Ok (cc_mount_options c)"
    using assms by (auto simp: client_config_of_def)
  then have "cc_mount_options c = mount_options_default" if "map_of t ''mount_options'' = None"
    using that by (simp add: mount_field_def)
  moreover have "cc_mount_options c = \<lparr> mo_allow_other = True, mo_default_permissions = True, mo_auto_unmount = True, mo_no_atime = True \<rparr>"
    if "map_of t ''mount_options'' = Some (TTable [])"
    using that \<open>mount_field t = Ok (cc_mount_options c)\<close> by (simp add: mount_field_def mount_options_of_def field_def)
  ultimately show ?thesis
    by (simp add: mount_opts_def mount_options_default_def)
qed

theorem mount_options_absent_witness:
  "\<exists>c. config_of [(''role'', TStr ''client''), (''node_id'', TStr ''c1''), (''mount_point'', TStr ''/mnt''),
       (''meta_addr'', TStr ''http://m''), (''cluster_token'', TStr ''t'')] = Ok (Client c)
     \<and> cc_block_size c = 1048576 \<and> cc_replication_factor c = 1
     \<and> mount_opts (cc_mount_options c) = [FSName ''dtmpfs'', Subtype ''dtmpfs'']"
proof -
  let ?t = "[(''role'', TStr ''client''), (''node_id'', TStr ''c1''), (''mount_point'', TStr ''/mnt''),
       (''meta_addr'', TStr ''http://m''), (''cluster_token'', TStr ''t'')]"
  obtain c where c: "client_config_of ?t = Ok c" "cc_block_size c = d_block_size" "cc_replication_factor c = d_replication"
    by (simp add: client_config_of_def field_def opt_field_def mount_field_def)
  have "config_of ?t = Ok (Client c)" using c(1) by (simp add: config_of_def field_def)
  moreover have "map_of ?t ''mount_options'' = None" by simp
  ultimately show ?thesis
    using mount_options_absent [OF c(1)] c(2,3) by (simp add: d_block_size_def d_replication_def)
qed

text \<open>
  The capacity of the block cache in bytes is the configured number of mebibytes below
  \<open>2 ^ 44\<close> of them; from there on the product wraps, and \<open>2 ^ 44\<close> gives a cache that keeps
  nothing.  The runtime is never asked for zero threads, which it would refuse.
\<close>

lemma block_cache_capacity_exact:
  assumes "unat mb < 2 ^ 44"
  shows "unat (block_cache_capacity mb) = unat mb * 2 ^ 20"
  using assms by (simp add: block_cache_capacity_def unat_word_ariths)

lemma block_cache_capacity_wraps: "block_cache_capacity (2 ^ 44) = 0"
  by (simp add: block_cache_capacity_def)

lemma runtime_threads_pos: "runtime_threads c = Some n \<Longrightarrow> 0 < n"
proof -
  assume "runtime_threads c = Some n"
  then obtain k :: u32 where k: "0 < k" "n = ucast k" by (auto simp: runtime_threads_def split: option.splits if_splits)
  then have "unat n = unat k" by (simp add: unat_ucast_u32)
  with k(1) show "0 < n" by (simp add: word_less_nat_alt)
qed

end
