(* ===== verification/Spec2Isabelle.thy ===== *)
theory Spec2Isabelle
  imports Store_Race Meta_Links Late_Deletes Crashes Fuse_Props Attr_Cache Fanout_Props End_To_End Startup_Props
begin

text \<open>
  \<^bold>\<open>dtmpfs\<close>, a distributed in-memory file system in Rust.  One metadata server keeps the
  namespace, the inodes, the placements of blocks and the table of store nodes; store
  servers keep blocks in memory under a byte budget; a client mounts the file system
  through FUSE, buffers writes per open file, and publishes them on flush, fsync and
  release.  The processes talk gRPC; every request carries a shared token.

  \<^bold>\<open>Theories and what they model\<close> (paths below \<^verbatim>\<open>src/crates\<close>):

  \<^item> \<open>Prelude\<close>, \<open>Containers\<close>, \<open>Utf8\<close>: machine integers as words, results that may
    panic, clock types; \<^verbatim>\<open>BTreeMap\<close> as an ordered list and iterated hash maps as lists
    with distinct keys, both interpretations of the interface \<open>kv_map\<close>; strict and lossy
    UTF-8 decoding.
  \<^item> \<open>Ids\<close>, \<open>Errors\<close>, \<open>Proto\<close>, \<open>Placement\<close>: \<^verbatim>\<open>dtmpfs-common\<close> and the messages.
    \<open>Placement\<close> is rendezvous hashing over any sort that satisfies \<open>desc_sort\<close>.
  \<^item> \<open>Meta_State\<close>, \<open>Meta_Service\<close>: \<^verbatim>\<open>dtmpfs-meta\<close>, its state record and one
    function per RPC handler, of the request and the state, with the delete tasks it spawns
    in its value.  \<open>Namespace\<close> is the abstract specification, a tree of entries that serves
    requests: \<open>ns_serve\<close> has a rule for each request and reply, with the parents, names and
    inodes they carry, and \<open>ns_refinement\<close> is the contract of an implementation, step by step
    under the same labels; \<open>Meta_Inv\<close> reads the label off a request and its reply
    (\<open>meta_label\<close>), and \<open>Meta_Refine\<close> proves the contract, handler by handler; \<open>Meta_Props\<close>, \<open>Meta_Files\<close>, \<open>Meta_Blocks\<close> and \<open>Meta_Requests\<close>
    hold the properties of runs, of generations and Close, of placements, nodes and
    truncation, and of single requests; \<open>Meta_Links\<close> keeps the account of link counts;
    \<open>Meta_Inodes\<close> has the contract \<open>inode_property\<close> for what holds of every inode in every
    run, interpreted for the type bits of modes and for placements.
  \<^item> \<open>Store\<close>: \<^verbatim>\<open>dtmpfs-store\<close>, the five handlers; a store is an interpretation of
    \<open>block_store\<close>.  \<open>Store_Race\<close>: WriteBlock and DeleteBlock cut into their single accesses
    to the tables and the atomic counter, any number of them in flight, with the bound on
    the bytes held and the exactness of the counter at rest.  \<open>Auth\<close>: the token checks in
    front of both servers.
  \<^item> \<open>Client_State\<close>, \<open>Client_IO\<close>, \<open>Fanout\<close>, \<open>Client_Publish\<close>, \<open>Client_Fuse\<close>:
    \<^verbatim>\<open>dtmpfs-client\<close>, its record over a world of any type, the connection pool and
    caches, fetching, reading and writing blocks, the concurrent writes of
    \<^verbatim>\<open>publish\<close> (a future per block, at most sixteen under way, dropped at the first
    error), \<^verbatim>\<open>publish\<close> itself, and all FUSE requests.  What lies behind the RPC stubs
    is the parameter \<open>T\<close>, a record of functions on that world.
  \<^item> \<open>Cluster\<close>: a world made of the modelled servers, and the transport \<open>direct\<close> that
    delivers every call to their handlers; it instantiates the client's parameter.
  \<^item> \<open>Client_Data\<close>, \<open>Client_Fetch\<close>: the content of an open file, byte by byte, and the
    read and write loops over any source of blocks (\<open>block_source\<close>); \<open>fetch_block\<close> is one,
    on any transport whose nodes answer or fail.
  \<^item> \<open>Cluster_Writes\<close>, \<open>Publish_Props\<close>, \<open>Fanout_Props\<close>, \<open>Fuse_Props\<close>, \<open>Sessions\<close>: the
    concurrent writes, with \<open>write_frame\<close> and \<open>call_frame\<close> for what all store calls keep, a
    second interpretation of \<open>block_store\<close> by the stores of a whole cluster, and the
    invariant \<open>fan_ok\<close> of a fan-out between two steps of its futures; what publish does
    stage by stage; that all interleavings agree, that blocks stay whole and how many
    requests a failure leaves; directory listings, error numbers, termination; sessions of
    several clients, with close-to-open consistency.
    \<open>Publish_Live\<close>: when a publish does succeed.  \<open>End_To_End\<close>: the content of a file as a
    function from positions to bytes, and that open, any writes and flush of one client give
    the next one that content.  \<open>Stale_Reads\<close>: what a handle reads that was opened before
    another client's publish.  \<open>Crashes\<close>: what can be read when stores are lost after an fsync.
  \<^item> \<open>Client_Calls\<close>, \<open>World\<close>, \<open>System\<close>, \<open>System_Props\<close>: whole runs.  \<open>client_calls\<close> is the
    contract of a transport whose single calls keep a relation on worlds, and gives the
    same for every loop and request of the client; \<open>world_step\<close> is one step of the servers
    and their background tasks, \<open>sys_step\<close> adds clients that run FUSE requests, replies that
    are on their way and the store writes that publishes leave behind; the invariants are
    proved by rule induction for all reachable states, and every run of the system projects
    to a run of the servers.  Both relations have a parameter \<open>G\<close>, the renames that occur
    in the run, and \<open>sys_step\<close> a bound \<open>D\<close> on how long a reply is on its way.
    \<open>System_Meta\<close> projects a run further to one of the metadata server and lifts its properties;
    \<open>Late_Deletes\<close> has the delete tasks of a truncation that run after the block was published
    again.
    \<open>Client_Frame\<close> is the contract for a part of the client that calls leave alone;
    \<open>Attr_Cache\<close> follows the attribute caches of all clients through a run and bounds how old
    an answer to getattr is.
  \<^item> \<open>Startup\<close>, \<open>Startup_Props\<close>: \<^verbatim>\<open>config.rs\<close>, \<^verbatim>\<open>heartbeat.rs\<close>, the three
    \<^verbatim>\<open>main.rs\<close> and both \<^verbatim>\<open>debug.rs\<close>; the heartbeat task brings a store into
    the cluster.

  \<^bold>\<open>How to read the model.\<close>  A handler is a function from the request and the state to the
  new state and the reply; \<open>Ok\<close>, \<open>Err\<close> and \<open>Panic\<close> are the three endings of a Rust
  function.  A mutex or lock held for a whole handler makes it one step; where the code
  releases it in between (Open, WriteBlock, DeleteBlock) the parts are separate definitions
  and the interleaving is a theorem.  A FUSE request is one step of \<open>sys_step\<close>: the client
  mounts with \<^verbatim>\<open>fuser::mount2\<close>, which hands it one request at a time.  Its calls are
  single steps of \<open>world_step\<close>.  A request that is one call to the metadata server can also be
  cut where the client awaits the reply (\<open>fuse_sent\<close>, \<open>fuse_finish\<close>): others go on and time
  passes meanwhile, the reply arrives within \<open>D\<close>, and what the client does with it, the
  time stamp of its attribute cache included, happens then; or the reply is lost.  The
  server performs every rename; a property that needs more than the code checks says so
  in its statement, by \<open>rename_safe\<close> on the renames of the run.  The 64 bit counters of inodes
  and handles are taken not to reach their end in a run (\<open>counters_ok\<close>).
  Integer arithmetic wraps as in a release build; \<^verbatim>\<open>usize\<close> has 64 bits.  Clocks, the
  xxh3 hash, the transport, the TOML parser, what the caches drop before its time and the
  choice \<open>pick\<close> of the future that goes on next in a publish are parameters.  A dropped future
  that waited for a reply leaves its request behind, to be handled later or never, like the
  replica writes that flush does not wait for.

  \<^bold>\<open>Fuel.\<close>  The read and write loops carry one unit per byte and one more, which is enough
  whenever the range ends a block before \<open>2 ^ 64\<close> (\<open>read_write_return\<close>); the paging loop
  of readdir is a loop without bound in the code, and a directory of \<open>n\<close> entries needs
  \<open>n div 256 + 1\<close> rounds (\<open>readdir_lists_directory\<close>).  The fan-out of a publish needs none: every
  step of a future leaves less to do, which is its termination measure.

  \<^bold>\<open>Some theorems state what the code does where that is not what its documents promise.\<close>
  Renaming a file to itself, allocating without live nodes, an Open that races with an
  Unlink, a failed or refused publish, a second publish of a handle, a lagging replica, a
  truncation under an open handle, a read through a handle of before a publish, getattr
  after one's own publish, a delete that overtakes a write, a delete task that runs late,
  the error numbers of directories and the defaults of the mount options are of this kind;
  their texts say so.

  \<^bold>\<open>Not modelled.\<close>  The gRPC wire format, HTTP and TLS; the tokio runtime, timers, sockets,
  signal handling, argument parsing and logging; replica writes that run while the publish
  that spawned them still does (they come after it); what moka drops from the block cache,
  of which the model has the capacity and the weights; the placement of blocks when hash scores
  collide beyond what any sort promises; the tests inside the source files.  The single
  accesses of \<open>Store_Race\<close> are proved of one store and are not steps of \<open>world_step\<close>, where
  WriteBlock and DeleteBlock are whole; the properties of whole runs therefore do not speak of the
  budget.  \<open>pool_get\<close> is one action, although the code awaits the connection between the lookup in
  the pool and the insertion; the tasks of one client that meet there all insert a channel
  to the address the table gives for the node.  \<open>direct\<close> delivers every call: a network
  failure is a store that is absent, or a reply of the metadata server that is lost or
  late; a call lost in the middle of a publish or of a listing occurs only in the
  theorems about every transport (\<open>requests_left_bounded\<close>, \<open>failed_publish_loses_dirty\<close>,
  \<open>fetch_block_failover\<close>, \<open>read_write_return\<close>).

  \<^bold>\<open>Next.\<close>  The accesses of \<open>Store_Race\<close> as steps of the whole system, with the overrun in place
  of the budget; the placements that open files hold against those of the metadata server.
\<close>

end
